(* ===== verification/Shuhai_Prelude.thy ===== *)
theory Shuhai_Prelude
  imports Main "HOL-Library.Word" "HOL-Library.Monad_Syntax"
begin

text \<open>
  Shared vocabulary of the Shuhai development: the machine integers of the C, C++ and CUDA
  sources, the collections of simplification rules the component theories extend, and the
  generic facts about words, lists and options that several components use.

  C's fixed-width unsigned types are words of that width, so that their arithmetic wraps.
  A kernel or C++ fault (a failed \<open>BUG_ON\<close>, a NULL dereference, an access out of the bounds of
  an array) is the value \<^term>\<open>None\<close> of an option type wherever the sources can run into one.
\<close>

unbundle bit_operations_syntax

section \<open>Machine integers\<close>

type_synonym u8 = "8 word"
type_synonym u16 = "16 word"
type_synonym u32 = "32 word"
type_synonym u64 = "64 word"

section \<open>Collections of rules\<close>

named_theorems layout_simps \<open>layouts of register blocks and the offsets in them\<close>
named_theorems drv_simps \<open>the driver's bookkeeping steps on its state\<close>
named_theorems mm_simps \<open>operations of the memory manager\<close>
named_theorems bus_simps \<open>register accesses of the controller\<close>

section \<open>Words\<close>

lemma unat_minus_le: "b \<le> a \<Longrightarrow> unat (a - b) = unat a - unat b" for a b :: "'a::len word"
  by (simp add: unat_sub)

lemma unat_add_no_wrap:
  "unat a + unat b < 2 ^ LENGTH('a) \<Longrightarrow> unat (a + b) = unat a + unat b" for a b :: "'a::len word"
  by (simp add: unat_word_ariths)

lemma unat_less_u64: "unat (a :: u64) < 2 ^ 64"
  using unsigned_less [of a] by simp

lemma word_in_window_iff:
  fixes x p n :: u64
  assumes "unat p + unat n \<le> 2 ^ 64"
  shows "x - p < n \<longleftrightarrow> unat p \<le> unat x \<and> unat x < unat p + unat n"
proof (cases "p \<le> x")
  case True
  then show ?thesis
    by (auto simp: word_less_nat_alt unat_sub word_le_nat_alt)
next
  case False
  then have lt: "unat x < unat p"
    by (simp add: word_le_nat_alt)
  have "unat (x - p) = 2 ^ 64 + unat x - unat p"
    using lt by (simp add: unat_sub_if_size word_le_nat_alt word_size)
  with lt assms show ?thesis
    by (simp add: word_less_nat_alt)
qed

end
