(* ===== verification/Xdma_Regs.thy ===== *)
theory Xdma_Regs
  imports Shuhai_Prelude
begin

text \<open>
  The register-level vocabulary of \<open>sw/driver/xdma_driver.c\<close>: its constants, the register blocks
  of the XDMA core as byte layouts, and the bit-packing helpers.
\<close>

section \<open>Constants\<close>

definition XDMA_CHANNEL_NUM_MAX :: nat where "XDMA_CHANNEL_NUM_MAX = 4"
definition MAX_NUM_ENGINES :: nat where "MAX_NUM_ENGINES = XDMA_CHANNEL_NUM_MAX * 2"
definition C2H_CHANNEL_OFFSET :: nat where "C2H_CHANNEL_OFFSET = 0x0000"
definition H2C_CHANNEL_OFFSET :: nat where "H2C_CHANNEL_OFFSET = 0x1000"
definition CHANNEL_SPACING :: nat where "CHANNEL_SPACING = 0x100"
definition MAX_USER_IRQ :: nat where "MAX_USER_IRQ = 16"
definition XDMA_BAR_NUM :: nat where "XDMA_BAR_NUM = 6"
definition XDMA_BAR_SIZE :: nat where "XDMA_BAR_SIZE = 0x8000"
definition IRQ_BLOCK_ID :: u32 where "IRQ_BLOCK_ID = 0x1fc20000"
definition CONFIG_BLOCK_ID :: u32 where "CONFIG_BLOCK_ID = 0x1fc30000"
definition XDMA_ID_H2C :: u32 where "XDMA_ID_H2C = 0x1fc0"
definition XDMA_ID_C2H :: u32 where "XDMA_ID_C2H = 0x1fc1"
definition XDMA_OFS_INT_CTRL :: nat where "XDMA_OFS_INT_CTRL = 0x2000"
definition XDMA_OFS_CONFIG :: nat where "XDMA_OFS_CONFIG = 0x3000"

lemmas xdma_consts = XDMA_CHANNEL_NUM_MAX_def MAX_NUM_ENGINES_def C2H_CHANNEL_OFFSET_def
  H2C_CHANNEL_OFFSET_def CHANNEL_SPACING_def MAX_USER_IRQ_def XDMA_BAR_NUM_def XDMA_BAR_SIZE_def
  IRQ_BLOCK_ID_def CONFIG_BLOCK_ID_def XDMA_ID_H2C_def XDMA_ID_C2H_def XDMA_OFS_INT_CTRL_def
  XDMA_OFS_CONFIG_def

section \<open>Packed register blocks\<close>

text \<open>
  A packed C structure of \<open>u32\<close> fields and \<open>u32\<close> arrays is the list of its fields with their
  lengths in words. \<open>offset_of\<close> is C's \<open>offsetof\<close>, \<open>size_of\<close> its \<open>sizeof\<close>.
\<close>

type_synonym layout = "(string \<times> nat) list"

fun offset_of :: "layout \<Rightarrow> string \<Rightarrow> nat" where
  "offset_of [] f = 0"
| "offset_of ((g, n) # l) f = (if f = g then 0 else 4 * n + offset_of l f)"

definition size_of :: "layout \<Rightarrow> nat" where
  "size_of l = 4 * sum_list (map snd l)"

definition xdma_desc :: layout where
  "xdma_desc = [(''control'', 1), (''bytes'', 1), (''src_addr_lo'', 1), (''src_addr_hi'', 1),
     (''dst_addr_lo'', 1), (''dst_addr_hi'', 1), (''next_lo'', 1), (''next_hi'', 1)]"

definition xdma_result :: layout where
  "xdma_result = [(''status'', 1), (''length'', 1), (''reserved_1'', 6)]"

definition engine_regs :: layout where
  "engine_regs = [(''identifier'', 1), (''control'', 1), (''control_w1s'', 1), (''control_w1c'', 1),
     (''reserved_1'', 12), (''status'', 1), (''status_rc'', 1), (''completed_desc_count'', 1),
     (''alignments'', 1), (''reserved_2'', 14), (''poll_mode_wb_lo'', 1), (''poll_mode_wb_hi'', 1),
     (''interrupt_enable_mask'', 1), (''interrupt_enable_mask_w1s'', 1),
     (''interrupt_enable_mask_w1c'', 1), (''reserved_3'', 9), (''perf_ctrl'', 1),
     (''perf_cyc_lo'', 1), (''perf_cyc_hi'', 1), (''perf_dat_lo'', 1), (''perf_dat_hi'', 1),
     (''perf_pnd_lo'', 1), (''perf_pnd_hi'', 1)]"

definition engine_sgdma_regs :: layout where
  "engine_sgdma_regs = [(''identifier'', 1), (''reserved_1'', 31), (''first_desc_lo'', 1),
     (''first_desc_hi'', 1), (''first_desc_adjacent'', 1), (''credits'', 1)]"

definition interrupt_regs :: layout where
  "interrupt_regs = [(''identifier'', 1), (''user_int_enable'', 1), (''user_int_enable_w1s'', 1),
     (''user_int_enable_w1c'', 1), (''channel_int_enable'', 1), (''channel_int_enable_w1s'', 1),
     (''channel_int_enable_w1c'', 1), (''reserved_1'', 9), (''user_int_request'', 1),
     (''channel_int_request'', 1), (''user_int_pending'', 1), (''channel_int_pending'', 1),
     (''reserved_2'', 12), (''user_msi_vector'', 8), (''channel_msi_vector'', 8)]"

definition config_regs :: layout where
  "config_regs = [(''identifier'', 1), (''reserved_1'', 4), (''msi_enable'', 1)]"

section \<open>Bit packing\<close>

definition MASK :: "nat \<Rightarrow> u64" where
  "MASK n = push_bit n 1 - 1"

definition PCI_DMA_H :: "u64 \<Rightarrow> u64" where
  "PCI_DMA_H addr = drop_bit 16 (drop_bit 16 addr)"

definition PCI_DMA_L :: "u64 \<Rightarrow> u64" where
  "PCI_DMA_L addr = addr AND 0xffffffff"

definition build_u32 :: "u32 \<Rightarrow> u32 \<Rightarrow> u32" where
  "build_u32 hi lo = ucast (push_bit 16 (ucast hi AND 0xFFFF :: u64) OR (ucast lo AND 0xFFFF))"

definition build_u64 :: "u64 \<Rightarrow> u64 \<Rightarrow> u64" where
  "build_u64 hi lo = push_bit 32 (hi AND 0xFFFFFFF) OR (lo AND 0xFFFFFFFF)"

definition read_bit :: "(u64 \<Rightarrow> u32) \<Rightarrow> u64 \<Rightarrow> u64 \<Rightarrow> nat \<Rightarrow> bool" where
  "read_bit readl base reg b \<longleftrightarrow> (ucast (readl (base + reg)) AND push_bit b 1 :: u64) \<noteq> 0"

definition build_vector_reg :: "u32 \<Rightarrow> u32 \<Rightarrow> u32 \<Rightarrow> u32 \<Rightarrow> u32" where
  "build_vector_reg a b c d =
     (let reg_val = 0;
          reg_val = reg_val OR push_bit 0 (a AND 0x1f);
          reg_val = reg_val OR push_bit 8 (b AND 0x1f);
          reg_val = reg_val OR push_bit 16 (c AND 0x1f);
          reg_val = reg_val OR push_bit 24 (d AND 0x1f)
      in reg_val)"


section \<open>Layouts\<close>

lemma offset_of_bound:
  "(f, n) \<in> set l \<Longrightarrow> distinct (map fst l) \<Longrightarrow> offset_of l f + 4 * n \<le> size_of l"
proof (induction l f rule: offset_of.induct)
  case (2 g k l f)
  show ?case
  proof (cases "f = g")
    case True
    with "2.prems" have "n = k" by (force simp: image_iff)
    with True show ?thesis by (simp add: size_of_def)
  next
    case False
    with "2.IH" "2.prems" have "offset_of l f + 4 * n \<le> size_of l" by auto
    with False show ?thesis by (simp add: size_of_def)
  qed
qed simp

lemma fields_apart:
  "(f, n) \<in> set l \<Longrightarrow> (g, k) \<in> set l \<Longrightarrow> f \<noteq> g \<Longrightarrow> distinct (map fst l) \<Longrightarrow>
   offset_of l f + 4 * n \<le> offset_of l g \<or> offset_of l g + 4 * k \<le> offset_of l f"
proof (induction l)
  case (Cons a l)
  obtain h m where a: "a = (h, m)" by (cases a)
  have fn: "f = h \<Longrightarrow> n = m" and gk: "g = h \<Longrightarrow> k = m"
    using Cons.prems a by (force simp: image_iff)+
  show ?case
  proof (cases "f = h \<or> g = h")
    case True
    with Cons.prems(3) a fn gk show ?thesis by auto
  next
    case False
    with Cons a show ?thesis by auto
  qed
qed simp

lemma engine_regs_offsets [layout_simps]:
  "offset_of engine_regs ''identifier'' = 0x00" "offset_of engine_regs ''control'' = 0x04"
  "offset_of engine_regs ''status'' = 0x40" "offset_of engine_regs ''interrupt_enable_mask'' = 0x90"
  "size_of engine_regs = 0xDC"
  by (simp_all add: engine_regs_def size_of_def)

lemma interrupt_regs_offsets [layout_simps]:
  "offset_of interrupt_regs ''identifier'' = 0x00"
  "offset_of interrupt_regs ''channel_int_enable_w1s'' = 0x14"
  "offset_of interrupt_regs ''channel_int_enable_w1c'' = 0x18"
  "offset_of interrupt_regs ''user_int_request'' = 0x40"
  "offset_of interrupt_regs ''channel_int_request'' = 0x44"
  "offset_of interrupt_regs ''user_msi_vector'' = 0x80"
  "offset_of interrupt_regs ''channel_msi_vector'' = 0xA0"
  "size_of interrupt_regs = 0xC0"
  by (simp_all add: interrupt_regs_def size_of_def)

lemma config_regs_offsets [layout_simps]:
  "offset_of config_regs ''identifier'' = 0x00" "size_of config_regs = 0x18"
  by (simp_all add: config_regs_def size_of_def)

section \<open>Masks\<close>

lemma mask_numerals:
  "(0x1f :: 'a::len word) = mask 5" "(0xff :: 'a word) = mask 8" "(0xFFFF :: 'a word) = mask 16"
  "(0xFFFFFFF :: 'a word) = mask 28" "(0xFFFFFFFF :: 'a word) = mask 32"
  by (simp_all add: mask_eq_exp_minus_1)

lemma PCI_DMA_split:
  "PCI_DMA_H a = drop_bit 32 a" "PCI_DMA_L a = take_bit 32 a"
  by (simp_all add: PCI_DMA_H_def PCI_DMA_L_def mask_numerals take_bit_eq_mask)

section \<open>Properties\<close>

text \<open>
  The fields of every register block the driver declares lie inside the block and do not
  overlap; the blocks are small enough for the spacing the driver uses between them: an engine's
  block fits between two channels and the interrupt block before the configuration block.
\<close>

theorem register_blocks_well_formed:
  assumes "l \<in> {xdma_desc, xdma_result, engine_regs, engine_sgdma_regs, interrupt_regs, config_regs}"
    and "(f, n) \<in> set l" and "(g, k) \<in> set l" and "f \<noteq> g"
  shows "offset_of l f + 4 * n \<le> size_of l
    \<and> (offset_of l f + 4 * n \<le> offset_of l g \<or> offset_of l g + 4 * k \<le> offset_of l f)
    \<and> size_of engine_regs \<le> CHANNEL_SPACING
    \<and> XDMA_OFS_INT_CTRL + size_of interrupt_regs \<le> XDMA_OFS_CONFIG
    \<and> XDMA_OFS_CONFIG + size_of config_regs \<le> XDMA_BAR_SIZE"
proof -
  have "distinct (map fst l)"
    using assms(1) by (auto simp: xdma_desc_def xdma_result_def engine_regs_def
        engine_sgdma_regs_def interrupt_regs_def config_regs_def)
  with assms show ?thesis
    using offset_of_bound fields_apart by (simp add: layout_simps xdma_consts)
qed

theorem register_blocks_well_formed_witness:
  "offset_of engine_regs ''control'' + 4 * 1 \<le> offset_of engine_regs ''status''
    \<or> offset_of engine_regs ''status'' + 4 * 1 \<le> offset_of engine_regs ''control''"
  using register_blocks_well_formed [of engine_regs "''control''" 1 "''status''" 1]
  by (simp add: engine_regs_def)

text \<open>
  Splitting a 64-bit address with \<open>PCI_DMA_H\<close> and \<open>PCI_DMA_L\<close> and joining the halves with
  \<open>build_u64\<close> gives the address back only below \<open>2\<^sup>6\<^sup>0\<close>: the mask for the high half has seven
  hexadecimal digits, so the top four bits are lost.
\<close>

theorem build_u64_split:
  "build_u64 (PCI_DMA_H a) (PCI_DMA_L a) = take_bit 60 a
   \<and> (build_u64 (PCI_DMA_H a) (PCI_DMA_L a) = a \<longleftrightarrow> unat a < 2 ^ 60)"
proof -
  have eq: "build_u64 (PCI_DMA_H a) (PCI_DMA_L a) = take_bit 60 a"
    by (rule bit_word_eqI) (auto simp: build_u64_def PCI_DMA_split mask_numerals bit_simps)
  have "take_bit 60 a = a \<longleftrightarrow> unat (take_bit 60 a) = unat a"
    by (rule word_unat_eq_iff)
  also have "\<dots> \<longleftrightarrow> take_bit 60 (unat a) = unat a"
    by (simp add: unsigned_take_bit_eq)
  also have "\<dots> \<longleftrightarrow> unat a < 2 ^ 60"
    by (simp add: take_bit_nat_eq_self_iff)
  finally show ?thesis by (simp add: eq)
qed

text \<open>
  \<open>build_vector_reg\<close> packs four vector numbers into the four bytes of a register: byte
  \<open>i\<close> of the result is the \<open>i\<close>-th argument, cut to the five bits the hardware has for it.
\<close>

theorem build_vector_reg_bytes:
  "build_vector_reg a b c d AND 0xff = a AND 0x1f
   \<and> drop_bit 8 (build_vector_reg a b c d) AND 0xff = b AND 0x1f
   \<and> drop_bit 16 (build_vector_reg a b c d) AND 0xff = c AND 0x1f
   \<and> drop_bit 24 (build_vector_reg a b c d) AND 0xff = d AND 0x1f"
  unfolding mask_numerals
  by (intro conjI; rule bit_word_eqI)
    (auto simp: build_vector_reg_def mask_numerals bit_simps)

text \<open>
  \<open>build_u32\<close> puts the low halves of its arguments side by side, and nothing else.
\<close>

theorem build_u32_halves:
  "drop_bit 16 (build_u32 hi lo) = take_bit 16 hi \<and> take_bit 16 (build_u32 hi lo) = take_bit 16 lo"
  by (intro conjI; rule bit_word_eqI)
    (auto simp: build_u32_def mask_numerals bit_simps)

end
