(* ===== verification/Xdma_Kernel.thy ===== *)
theory Xdma_Kernel
  imports Xdma_Regs
begin

text \<open>
  The state of the XDMA driver and the part of the kernel it stands on.

  The kernel is not part of the repository. What it answers is a parameter of the model, the
  record \<open>pci_kernel\<close>; what the driver asks of it is recorded in a log of calls, in the order
  they are made, so that claims about order, about the hardware registers touched and about the
  resources held are claims about the log. Device registers may change under the driver: the
  value a read returns may depend on everything logged before it.
\<close>

section \<open>Kernel calls\<close>

datatype kcall =
    Kzalloc u64
  | Kfree
  | DevSetDrvdata u64
  | PciEnableDevice int
  | PciDisableDevice
  | PciSetMaster
  | PciEnableMsix nat int
  | PciDisableMsix
  | PciEnableMsi int
  | PciDisableMsi
  | PciRequestRegions int
  | PciReleaseRegions
  | PciIomap nat u64 u64
  | PciIounmap u64
  | DmaSetMaskAndCoherent int
  | FreeIrq int
  | MiscRegister string int
  | MiscDeregister string
  | Ioread32 u64
  | Iowrite32 u32 u64
  | Mmiowb
  | PciRegisterDriver string int
  | PciUnregisterDriver string

record pci_kernel =
  k_kzalloc :: u64
  k_pci_enable_device :: int
  k_no_msi :: bool
  k_bus_flags :: "u16 list"
  k_pci_find_capability :: "nat \<Rightarrow> nat"
  k_pci_enable_msix_exact :: int
  k_pci_enable_msi :: int
  k_pci_request_regions :: int
  k_pci_resource_start :: "nat \<Rightarrow> u64"
  k_pci_resource_len :: "nat \<Rightarrow> u64"
  k_pci_iomap :: "nat \<Rightarrow> u64 \<Rightarrow> u64"
  k_ioread32 :: "kcall list \<Rightarrow> u64 \<Rightarrow> u32"
  k_dma_set_mask_and_coherent :: int
  k_misc_register :: "string \<Rightarrow> int"
  k_pci_register_driver :: int

text \<open>Constants of the kernel's interface.\<close>

definition ENODEV :: int where "ENODEV = 19"
definition INT_MAX :: nat where "INT_MAX = 2147483647"
definition PCI_CAP_ID_MSI :: nat where "PCI_CAP_ID_MSI = 0x05"
definition PCI_CAP_ID_MSIX :: nat where "PCI_CAP_ID_MSIX = 0x11"
definition MISC_DYNAMIC_MINOR :: int where "MISC_DYNAMIC_MINOR = 255"
definition PCI_BUS_FLAGS_NO_MSI :: u16 where "PCI_BUS_FLAGS_NO_MSI = 1"

section \<open>The device instance\<close>

text \<open>
  \<open>struct dev_inst\<close>. Pointers are 64-bit addresses, NULL is 0; \<open>entry\<close> holds the \<open>entry\<close> members
  of the MSI-X table; the embedded \<open>cdev\<close> has no content the driver reads.
\<close>

record dev_inst =
  magic :: u64
  pci_dev :: u64
  instance_no :: int
  cdevno_base :: u32
  bar :: "u64 list"
  user_bar_idx :: int
  config_bar_idx :: int
  bypass_bar_idx :: int
  regions_in_use :: bool
  got_regions :: bool
  irq_count :: int
  irq_line :: int
  msi_enabled :: bool
  msix_enabled :: bool
  entry :: "nat list"
  h2c_count :: int
  c2h_count :: int
  h2c_engine :: int
  c2h_engine :: int
  h2c_regs :: u64
  c2h_regs :: u64
  huge_user_addr :: u64
  huge_size :: u64
  huge_npages :: u64
  huge_hnpages :: u64
  huge_pages :: u64
  desc_bypass_enabled :: bool
  open_count :: int

definition zeroed_inst :: dev_inst where
  "zeroed_inst = \<lparr>magic = 0, pci_dev = 0, instance_no = 0, cdevno_base = 0,
     bar = replicate XDMA_BAR_NUM 0, user_bar_idx = 0, config_bar_idx = 0, bypass_bar_idx = 0,
     regions_in_use = False, got_regions = False, irq_count = 0, irq_line = 0,
     msi_enabled = False, msix_enabled = False, entry = replicate 32 0,
     h2c_count = 0, c2h_count = 0, h2c_engine = 0, c2h_engine = 0, h2c_regs = 0, c2h_regs = 0,
     huge_user_addr = 0, huge_size = 0, huge_npages = 0, huge_hnpages = 0, huge_pages = 0,
     desc_bypass_enabled = False, open_count = 0\<rparr>"

text \<open>The operation tables a device node can carry.\<close>

datatype fops = No_fops | Xdma_fops | Xdma_bypass_fops

record miscdevice =
  misc_minor :: int
  misc_name :: string
  misc_fops :: fops
  misc_parent :: u64

text \<open>
  The driver's state: the instance \<open>inst\<close> points at, the driver data of the PCI device, the two
  global \<open>miscdevice\<close> structures and the log.
\<close>

record drv =
  inst :: dev_inst
  drvdata :: u64
  misc_dev_node :: miscdevice
  bypass_node :: miscdevice
  klog :: "kcall list"

definition loaded :: drv where
  "loaded = \<lparr>inst = zeroed_inst, drvdata = 0,
     misc_dev_node = \<lparr>misc_minor = 0, misc_name = [], misc_fops = No_fops, misc_parent = 0\<rparr>,
     bypass_node = \<lparr>misc_minor = 0, misc_name = [], misc_fops = No_fops, misc_parent = 0\<rparr>, klog = []\<rparr>"

abbreviation upd_inst :: "(dev_inst \<Rightarrow> dev_inst) \<Rightarrow> drv \<Rightarrow> drv" where
  "upd_inst f s \<equiv> s\<lparr>inst := f (inst s)\<rparr>"

definition call :: "kcall \<Rightarrow> drv \<Rightarrow> drv" where
  "call e s = s\<lparr>klog := klog s @ [e]\<rparr>"

definition ioread32 :: "pci_kernel \<Rightarrow> u64 \<Rightarrow> drv \<Rightarrow> u32 \<times> drv" where
  "ioread32 K a s = (k_ioread32 K (klog s) a, call (Ioread32 a) s)"

definition iowrite32 :: "u32 \<Rightarrow> u64 \<Rightarrow> drv \<Rightarrow> drv" where
  "iowrite32 v a s = call (Iowrite32 v a) s"

text \<open>
  \<open>inst->bar[inst->config_bar_idx]\<close> where it is about to be dereferenced: an index outside the
  array or a NULL base is a fault.
\<close>

definition config_base :: "drv \<Rightarrow> u64 option" where
  "config_base s =
     (let i = config_bar_idx (inst s) in
      if 0 \<le> i \<and> nat i < length (bar (inst s)) \<and> bar (inst s) ! nat i \<noteq> 0
      then Some (bar (inst s) ! nat i) else None)"

lemma call_sel [simp]:
  "inst (call e s) = inst s" "drvdata (call e s) = drvdata s"
  "misc_dev_node (call e s) = misc_dev_node s" "bypass_node (call e s) = bypass_node s"
  "klog (call e s) = klog s @ [e]"
  by (simp_all add: call_def)

lemma config_base_call [simp]: "config_base (call e s) = config_base s"
  by (simp add: config_base_def Let_def)

lemma io_sel [simp]:
  "snd (ioread32 K a s) = call (Ioread32 a) s" "iowrite32 v a s = call (Iowrite32 v a) s"
  by (simp_all add: ioread32_def iowrite32_def)

section \<open>Resources\<close>

text \<open>
  The resources the log leaves in the driver's hands: an acquiring call counts when the kernel
  reports success, a releasing call removes what it names.
\<close>

datatype resource = RInst | RDevice | RMsi | RMsix | RRegions | RMap u64 | RMisc string

fun held_step :: "resource set \<Rightarrow> kcall \<Rightarrow> resource set" where
  "held_step R (Kzalloc p) = (if p = 0 then R else insert RInst R)"
| "held_step R Kfree = R - {RInst}"
| "held_step R (PciEnableDevice rc) = (if rc = 0 then insert RDevice R else R)"
| "held_step R PciDisableDevice = R - {RDevice}"
| "held_step R (PciEnableMsix n rc) = (if rc = 0 then insert RMsix R else R)"
| "held_step R PciDisableMsix = R - {RMsix}"
| "held_step R (PciEnableMsi rc) = (if rc = 0 then insert RMsi R else R)"
| "held_step R PciDisableMsi = R - {RMsi}"
| "held_step R (PciRequestRegions rc) = (if rc = 0 then insert RRegions R else R)"
| "held_step R PciReleaseRegions = R - {RRegions}"
| "held_step R (PciIomap i n p) = (if p = 0 then R else insert (RMap p) R)"
| "held_step R (PciIounmap p) = R - {RMap p}"
| "held_step R (MiscRegister n rc) = (if rc = 0 then insert (RMisc n) R else R)"
| "held_step R (MiscDeregister n) = R - {RMisc n}"
| "held_step R _ = R"

definition held :: "drv \<Rightarrow> resource set" where
  "held s = foldl held_step {} (klog s)"

lemma held_call [simp]: "held (call e s) = held_step (held s) e"
  by (simp add: held_def)

lemma held_upd [simp]:
  "held (s\<lparr>inst := i\<rparr>) = held s" "held (s\<lparr>drvdata := d\<rparr>) = held s"
  "held (s\<lparr>misc_dev_node := m\<rparr>) = held s" "held (s\<lparr>bypass_node := m\<rparr>) = held s"
  by (simp_all add: held_def)

lemma held_loaded [simp]: "held loaded = {}"
  by (simp add: held_def loaded_def)

section \<open>Register accesses in the log\<close>

text \<open>
  An access is in bounds when the four bytes it touches lie in a window the driver has mapped:
  \<open>map_len\<close> is the length the driver asks \<open>pci_iomap\<close> for.
\<close>

definition map_len :: "pci_kernel \<Rightarrow> nat \<Rightarrow> u64" where
  "map_len K i =
     (if unat (k_pci_resource_len K i) > INT_MAX then of_nat INT_MAX else k_pci_resource_len K i)"

text \<open>
  The windows are those the kernel answers a request to map a BAR with. That a window is mapped at
  the moment of an access is seen through the BAR array, from which \<open>unmap_bars\<close> removes it.
\<close>

definition in_window :: "pci_kernel \<Rightarrow> u64 \<Rightarrow> bool" where
  "in_window K a \<longleftrightarrow> (\<exists>i < XDMA_BAR_NUM. k_pci_iomap K i (map_len K i) \<noteq> 0
     \<and> unat (k_pci_iomap K i (map_len K i)) \<le> unat a
     \<and> unat a + 4 \<le> unat (k_pci_iomap K i (map_len K i)) + unat (map_len K i))"

fun access_ok :: "pci_kernel \<Rightarrow> kcall \<Rightarrow> bool" where
  "access_ok K (Ioread32 a) = in_window K a"
| "access_ok K (Iowrite32 v a) = in_window K a"
| "access_ok K _ = True"

definition accesses_ok :: "pci_kernel \<Rightarrow> drv \<Rightarrow> bool" where
  "accesses_ok K s \<longleftrightarrow> list_all (access_ok K) (klog s)"

lemma accesses_ok_call [simp]:
  "accesses_ok K (call e s) \<longleftrightarrow> accesses_ok K s \<and> access_ok K e"
  by (simp add: accesses_ok_def)

lemma accesses_ok_upd [simp]:
  "accesses_ok K (s\<lparr>inst := i\<rparr>) = accesses_ok K s" "accesses_ok K (s\<lparr>drvdata := d\<rparr>) = accesses_ok K s"
  "accesses_ok K (s\<lparr>misc_dev_node := m\<rparr>) = accesses_ok K s"
  "accesses_ok K (s\<lparr>bypass_node := m\<rparr>) = accesses_ok K s"
  by (simp_all add: accesses_ok_def)

end
