(* ===== verification/Xdma_Bars.thy ===== *)
theory Xdma_Bars
  imports Xdma_Kernel
begin

text \<open>
  The first half of the PCI driver of \<open>sw/driver/xdma_driver.c\<close>: allocating the instance,
  interrupt capabilities, the BAR regions, mapping the BARs and finding out which BAR is which.
\<close>

section \<open>Operations\<close>

definition alloc_dev_instance :: "pci_kernel \<Rightarrow> u64 \<Rightarrow> drv \<Rightarrow> (u64 \<times> drv) option" where
  "alloc_dev_instance K pdev s =
     (if pdev = 0 then None
      else
        let p = k_kzalloc K; s = call (Kzalloc p) s in
        if p = 0 then Some (0, s)
        else
          let s = s\<lparr>inst := zeroed_inst\<lparr>config_bar_idx := -1, user_bar_idx := -1,
                      bypass_bar_idx := -1, irq_line := -1, open_count := 0,
                      desc_bypass_enabled := False\<rparr>\<rparr>;
              s = call (DevSetDrvdata p) (s\<lparr>drvdata := p\<rparr>);
              s = upd_inst (\<lambda>i. i\<lparr>pci_dev := pdev\<rparr>) s
          in Some (p, s))"

definition arch_msi_check_device :: "u64 \<Rightarrow> int \<Rightarrow> nat \<Rightarrow> int" where
  "arch_msi_check_device dev nvec type = 0"

fun bus_forbids_msi :: "u16 list \<Rightarrow> bool" where
  "bus_forbids_msi [] = False"
| "bus_forbids_msi (flags # parents) =
     (if flags AND PCI_BUS_FLAGS_NO_MSI \<noteq> 0 then True else bus_forbids_msi parents)"

definition msi_msix_capable :: "pci_kernel \<Rightarrow> u64 \<Rightarrow> nat \<Rightarrow> bool" where
  "msi_msix_capable K dev type =
     (if dev = 0 \<or> k_no_msi K then False
      else if bus_forbids_msi (k_bus_flags K) then False
      else if arch_msi_check_device dev 1 type \<noteq> 0 then False
      else if k_pci_find_capability K type = 0 then False
      else True)"

definition probe_scan_for_msi :: "pci_kernel \<Rightarrow> u64 \<Rightarrow> drv \<Rightarrow> (int \<times> drv) option" where
  "probe_scan_for_msi K pdev s =
     (let req_nvec = MAX_NUM_ENGINES + MAX_USER_IRQ in
      if pdev = 0 then None
      else if msi_msix_capable K pdev PCI_CAP_ID_MSIX then
        let s = upd_inst (\<lambda>d. d\<lparr>entry := map (\<lambda>i. if i < req_nvec then i else entry d ! i)
                  [0 ..< length (entry d)]\<rparr>) s;
            rc = k_pci_enable_msix_exact K;
            s = call (PciEnableMsix req_nvec rc) s
        in Some (rc, upd_inst (\<lambda>d. d\<lparr>msix_enabled := True\<rparr>) s)
      else if msi_msix_capable K pdev PCI_CAP_ID_MSI then
        let rc = k_pci_enable_msi K; s = call (PciEnableMsi rc) s
        in Some (rc, upd_inst (\<lambda>d. d\<lparr>msi_enabled := True\<rparr>) s)
      else Some (0, s))"

definition request_regions :: "pci_kernel \<Rightarrow> u64 \<Rightarrow> drv \<Rightarrow> (int \<times> drv) option" where
  "request_regions K pdev s =
     (if pdev = 0 then None
      else
        let rc = k_pci_request_regions K; s = call (PciRequestRegions rc) s in
        if rc \<noteq> 0 then Some (rc, upd_inst (\<lambda>d. d\<lparr>regions_in_use := True\<rparr>) s)
        else Some (rc, upd_inst (\<lambda>d. d\<lparr>got_regions := True\<rparr>) s))"

definition map_single_bar :: "pci_kernel \<Rightarrow> nat \<Rightarrow> drv \<Rightarrow> int \<times> drv" where
  "map_single_bar K idx s =
     (let bar_len = k_pci_resource_len K idx;
          s = upd_inst (\<lambda>d. d\<lparr>bar := (bar d)[idx := 0]\<rparr>) s in
      if bar_len = 0 then (0, s)
      else
        let mlen = (if unat bar_len > INT_MAX then of_nat INT_MAX else bar_len);
            p = k_pci_iomap K idx mlen;
            s = call (PciIomap idx mlen p) s;
            s = upd_inst (\<lambda>d. d\<lparr>bar := (bar d)[idx := p]\<rparr>) s
        in if bar (inst s) ! idx = 0 then (-1, s)
           else (sint (ucast mlen :: u32), s))"

text \<open>\<open>bar_id_list\<close> is the filled part of the array; \<open>num_bars\<close> is its length.\<close>

definition identify_bars :: "nat list \<Rightarrow> nat \<Rightarrow> dev_inst \<Rightarrow> dev_inst" where
  "identify_bars bar_id_list config_bar_pos d =
     (let num_bars = length bar_id_list in
      if num_bars = 1 then d
      else if num_bars = 2 then
        (if config_bar_pos = 0 then d\<lparr>bypass_bar_idx := int (bar_id_list ! 1)\<rparr>
         else if config_bar_pos = 1 then d\<lparr>user_bar_idx := int (bar_id_list ! 0)\<rparr>
         else d)
      else if num_bars = 3 then
        (if config_bar_pos = 1
         then d\<lparr>user_bar_idx := int (bar_id_list ! 0), bypass_bar_idx := int (bar_id_list ! 2)\<rparr>
         else d)
      else d)"

fun unmap_bars_loop :: "nat list \<Rightarrow> drv \<Rightarrow> drv" where
  "unmap_bars_loop [] s = s"
| "unmap_bars_loop (i # is) s =
     (if bar (inst s) ! i \<noteq> 0
      then unmap_bars_loop is
             (upd_inst (\<lambda>d. d\<lparr>bar := (bar d)[i := 0]\<rparr>) (call (PciIounmap (bar (inst s) ! i)) s))
      else unmap_bars_loop is s)"

definition unmap_bars :: "drv \<Rightarrow> drv" where
  "unmap_bars s = unmap_bars_loop [0 ..< XDMA_BAR_NUM] s"

definition is_config_bar :: "pci_kernel \<Rightarrow> nat \<Rightarrow> drv \<Rightarrow> bool \<times> drv" where
  "is_config_bar K idx s =
     (let mask = 0xffff0000;
          irq_regs = bar (inst s) ! idx + of_nat XDMA_OFS_INT_CTRL;
          cfg_regs = bar (inst s) ! idx + of_nat XDMA_OFS_CONFIG;
          (irq_id, s) = ioread32 K (irq_regs + of_nat (offset_of interrupt_regs ''identifier'')) s;
          (cfg_id, s) = ioread32 K (cfg_regs + of_nat (offset_of config_regs ''identifier'')) s
      in if irq_id AND mask = IRQ_BLOCK_ID \<and> cfg_id AND mask = CONFIG_BLOCK_ID
         then (True, s) else (False, s))"

text \<open>
  The loop of \<open>map_bars\<close> over the BARs; \<^term>\<open>False\<close> in the result is the jump to \<open>fail\<close>. The
  loop carries the detected BARs (\<open>bar_id_list\<close>, of length \<open>bar_id_idx\<close>) and \<open>config_bar_pos\<close>.
\<close>

fun map_bars_loop :: "pci_kernel \<Rightarrow> nat list \<Rightarrow> nat list \<times> nat \<times> drv \<Rightarrow> bool \<times> nat list \<times> nat \<times> drv" where
  "map_bars_loop K [] (ids, pos, s) = (True, ids, pos, s)"
| "map_bars_loop K (i # is) (ids, pos, s) =
     (let (bar_len, s) = map_single_bar K i s in
      if bar_len = 0 then map_bars_loop K is (ids, pos, s)
      else if bar_len < 0 then (False, ids, pos, s)
      else
        let (pos, s) =
          (if bar_len \<ge> int XDMA_BAR_SIZE \<and> config_bar_idx (inst s) < 0 then
             (case is_config_bar K i s of
                (True, s) \<Rightarrow> (length ids, upd_inst (\<lambda>d. d\<lparr>config_bar_idx := int i\<rparr>) s)
              | (False, s) \<Rightarrow> (pos, s))
           else (pos, s))
        in map_bars_loop K is (ids @ [i], pos, s))"

definition map_bars :: "pci_kernel \<Rightarrow> drv \<Rightarrow> int \<times> drv" where
  "map_bars K s =
     (case map_bars_loop K [0 ..< XDMA_BAR_NUM] ([], 0, s) of
        (ok, ids, pos, s) \<Rightarrow>
          if \<not> ok then (-1, unmap_bars s)
          else if config_bar_idx (inst s) < 0 then (-1, unmap_bars s)
          else (0, upd_inst (identify_bars ids pos) s))"


section \<open>Mapping one BAR\<close>

definition present :: "pci_kernel \<Rightarrow> nat \<Rightarrow> bool" where
  "present K i \<longleftrightarrow> k_pci_resource_len K i \<noteq> 0"

definition mapped_ptr :: "pci_kernel \<Rightarrow> nat \<Rightarrow> u64" where
  "mapped_ptr K i = (if present K i then k_pci_iomap K i (map_len K i) else 0)"

lemma unat_map_len:
  "unat (map_len K i) = min (unat (k_pci_resource_len K i)) INT_MAX"
  by (simp add: map_len_def INT_MAX_def min_def)

lemma sint_map_len: "sint (ucast (map_len K i) :: u32) = int (unat (map_len K i))"
proof -
  have "unat (map_len K i) < 2 ^ 31" by (simp add: unat_map_len INT_MAX_def)
  then have b: "uint (map_len K i) < 2 ^ 31"
    using of_nat_less_iff [of "unat (map_len K i)" "2 ^ 31", where ?'a = int] by simp
  then have "take_bit 32 (uint (map_len K i)) = uint (map_len K i)"
    by (simp add: take_bit_int_eq_self)
  moreover have "signed_take_bit 31 (uint (map_len K i)) = uint (map_len K i)"
    using b order_trans [of "- (2 ^ 31)" 0 "uint (map_len K i)"]
    by (intro signed_take_bit_int_eq_self) simp_all
  ultimately show ?thesis
    by (simp add: sint_uint unsigned_ucast_eq)
qed

text \<open>What a call on one BAR returns and leaves behind.\<close>

lemma map_single_bar_eq:
  assumes "i < length (bar (inst s))"
  shows "map_single_bar K i s =
    (if \<not> present K i then (0, upd_inst (\<lambda>d. d\<lparr>bar := (bar d)[i := 0]\<rparr>) s)
     else (if mapped_ptr K i = 0 then -1 else int (unat (map_len K i)),
           upd_inst (\<lambda>d. d\<lparr>bar := (bar d)[i := mapped_ptr K i]\<rparr>)
             (call (PciIomap i (map_len K i) (mapped_ptr K i)) s)))"
  using assms sint_map_len [of K i]
  by (simp add: map_single_bar_def present_def mapped_ptr_def map_len_def [symmetric] Let_def)

lemma present_map_len: "present K i \<Longrightarrow> 0 < unat (map_len K i)"
  by (simp add: present_def unat_map_len INT_MAX_def unat_gt_0)

section \<open>The maps the driver holds\<close>

text \<open>
  The invariant that ties the \<open>bar\<close> array to the kernel: a mapping is held exactly when its
  address is in the array.
\<close>

definition maps_agree :: "drv \<Rightarrow> bool" where
  "maps_agree s \<longleftrightarrow> length (bar (inst s)) = XDMA_BAR_NUM
     \<and> (\<forall>p. RMap p \<in> held s \<longleftrightarrow> p \<noteq> 0 \<and> p \<in> set (bar (inst s)))"

definition other_held :: "drv \<Rightarrow> resource set" where
  "other_held s = {r \<in> held s. \<forall>p. r \<noteq> RMap p}"

lemma other_held_map [simp]:
  "other_held (call (PciIomap i n p) s) = other_held s"
  "other_held (call (PciIounmap p) s) = other_held s"
  "other_held (call (Ioread32 a) s) = other_held s"
  by (auto simp: other_held_def)

lemma other_held_upd [simp]: "other_held (s\<lparr>inst := i\<rparr>) = other_held s"
  by (simp add: other_held_def)

lemma set_update_zero:
  "i < length xs \<Longrightarrow> xs ! i = 0 \<Longrightarrow> p \<noteq> 0 \<Longrightarrow>
   p \<in> set (xs[i := q]) \<longleftrightarrow> p \<in> set xs \<or> p = q" for xs :: "u64 list"
  by (auto simp: in_set_conv_nth nth_list_update)

lemma maps_agree_map:
  assumes "maps_agree s" and "i < XDMA_BAR_NUM" and "bar (inst s) ! i = 0"
  shows "maps_agree (upd_inst (\<lambda>d. d\<lparr>bar := (bar d)[i := p]\<rparr>) (call (PciIomap i n p) s))"
  using assms set_update_zero [of i "bar (inst s)" _ p] by (auto simp: maps_agree_def)

lemma maps_agree_skip:
  "maps_agree s \<Longrightarrow> i < XDMA_BAR_NUM \<Longrightarrow> bar (inst s) ! i = 0 \<Longrightarrow>
   maps_agree (upd_inst (\<lambda>d. d\<lparr>bar := (bar d)[i := 0]\<rparr>) s)"
  using set_update_zero [of i "bar (inst s)" _ 0] by (auto simp: maps_agree_def)

lemma maps_agree_read [simp]: "maps_agree (call (Ioread32 a) s) = maps_agree s"
  by (simp add: maps_agree_def)

lemma maps_agree_config [simp]:
  "maps_agree (s\<lparr>inst := inst s\<lparr>config_bar_idx := c\<rparr>\<rparr>) = maps_agree s"
  by (simp add: maps_agree_def)

section \<open>Unmapping\<close>

lemma unmap_bars_loop_spec:
  assumes "length (bar (inst s)) = XDMA_BAR_NUM" and "set is \<subseteq> {0 ..< XDMA_BAR_NUM}"
  shows "inst (unmap_bars_loop is s) =
      (inst s)\<lparr>bar := map (\<lambda>i. if i \<in> set is then 0 else bar (inst s) ! i) [0 ..< XDMA_BAR_NUM]\<rparr>
    \<and> drvdata (unmap_bars_loop is s) = drvdata s
    \<and> misc_dev_node (unmap_bars_loop is s) = misc_dev_node s
    \<and> bypass_node (unmap_bars_loop is s) = bypass_node s
    \<and> held (unmap_bars_loop is s) = held s - RMap ` {bar (inst s) ! i |i. i \<in> set is \<and> bar (inst s) ! i \<noteq> 0}
    \<and> (accesses_ok K s \<longrightarrow> accesses_ok K (unmap_bars_loop is s))"
  using assms
proof (induction "is" arbitrary: s)
  case Nil
  then have "bar (inst s) = map ((!) (bar (inst s))) [0 ..< XDMA_BAR_NUM]"
    by (metis map_nth)
  then show ?case by simp
next
  case (Cons i "is")
  show ?case
  proof (cases "bar (inst s) ! i = 0")
    case True
    have "(if j \<in> set (i # is) then 0 else bar (inst s) ! j) =
        (if j \<in> set is then 0 else bar (inst s) ! j)" for j
      using True by simp
    moreover have "{bar (inst s) ! j |j. j \<in> set (i # is) \<and> bar (inst s) ! j \<noteq> 0} =
        {bar (inst s) ! j |j. j \<in> set is \<and> bar (inst s) ! j \<noteq> 0}"
      using True by auto
    ultimately show ?thesis using Cons.IH [of s] Cons.prems True by simp
  next
    case False
    let ?s = "upd_inst (\<lambda>d. d\<lparr>bar := (bar d)[i := 0]\<rparr>) (call (PciIounmap (bar (inst s) ! i)) s)"
    have i: "i < length (bar (inst s))" using Cons.prems by simp
    have "map (\<lambda>j. if j \<in> set is then 0 else bar (inst ?s) ! j) [0 ..< XDMA_BAR_NUM] =
        map (\<lambda>j. if j \<in> set (i # is) then 0 else bar (inst s) ! j) [0 ..< XDMA_BAR_NUM]"
      using i by (auto simp: nth_list_update)
    moreover have "held ?s - RMap ` {bar (inst ?s) ! j |j. j \<in> set is \<and> bar (inst ?s) ! j \<noteq> 0} =
        held s - RMap ` {bar (inst s) ! j |j. j \<in> set (i # is) \<and> bar (inst s) ! j \<noteq> 0}"
      using False i by (auto simp: nth_list_update image_iff)
    ultimately show ?thesis using Cons.IH [of ?s] Cons.prems False by simp
  qed
qed

lemma unmap_bars_sel [simp]:
  assumes "length (bar (inst s)) = XDMA_BAR_NUM"
  shows "inst (unmap_bars s) = (inst s)\<lparr>bar := replicate XDMA_BAR_NUM 0\<rparr>"
    "drvdata (unmap_bars s) = drvdata s" "misc_dev_node (unmap_bars s) = misc_dev_node s"
    "bypass_node (unmap_bars s) = bypass_node s"
    "accesses_ok K s \<Longrightarrow> accesses_ok K (unmap_bars s)"
    "held (unmap_bars s) = held s - RMap ` (set (bar (inst s)) - {0})"
proof -
  note spec = unmap_bars_loop_spec [OF assms, of "[0 ..< XDMA_BAR_NUM]"]
  have "map (\<lambda>i. if i \<in> set [0 ..< XDMA_BAR_NUM] then 0 else bar (inst s) ! i) [0 ..< XDMA_BAR_NUM]
      = map (\<lambda>i. 0) [0 ..< XDMA_BAR_NUM]" by (rule map_cong) auto
  then show "inst (unmap_bars s) = (inst s)\<lparr>bar := replicate XDMA_BAR_NUM 0\<rparr>"
    using spec by (simp add: unmap_bars_def map_replicate_const)
  have "{bar (inst s) ! i |i. i \<in> set [0 ..< XDMA_BAR_NUM] \<and> bar (inst s) ! i \<noteq> 0} =
      set (bar (inst s)) - {0}"
    using assms by (auto simp: in_set_conv_nth)
  then show "held (unmap_bars s) = held s - RMap ` (set (bar (inst s)) - {0})"
    using spec by (simp add: unmap_bars_def)
qed (use unmap_bars_loop_spec [OF assms, of "[0 ..< XDMA_BAR_NUM]"] in \<open>simp_all add: unmap_bars_def\<close>)

lemma held_unmap_bars: "maps_agree s \<Longrightarrow> held (unmap_bars s) = other_held s"
  by (auto simp: maps_agree_def other_held_def image_iff)


section \<open>The loop over the BARs\<close>

text \<open>
  The kernel hands out windows that do not wrap around the address space.
\<close>

definition windows_sane :: "pci_kernel \<Rightarrow> bool" where
  "windows_sane K \<longleftrightarrow> (\<forall>i < XDMA_BAR_NUM.
     unat (k_pci_iomap K i (map_len K i)) + unat (map_len K i) \<le> 2 ^ 64)"

lemma in_windowI:
  assumes "windows_sane K" and "i < XDMA_BAR_NUM" and "mapped_ptr K i \<noteq> 0"
    and "off + 4 \<le> unat (map_len K i)"
  shows "in_window K (mapped_ptr K i + of_nat off)"
proof -
  let ?p = "k_pci_iomap K i (map_len K i)"
  have p: "mapped_ptr K i = ?p" using assms(3) by (auto simp: mapped_ptr_def split: if_splits)
  have le: "unat ?p + unat (map_len K i) \<le> 2 ^ 64"
    using assms(1,2) by (simp add: windows_sane_def)
  have "off < 2 ^ 64" using assms(4) unat_less_u64 [of "map_len K i"] by linarith
  then have "unat (of_nat off :: u64) = off" by (simp add: unat_of_nat)
  with le assms(4) have "unat (?p + of_nat off) = unat ?p + off"
    using unat_add_no_wrap [of ?p "of_nat off"] by simp
  with assms(2,3,4) p show ?thesis
    by (auto simp: in_window_def intro!: exI [of _ i])
qed

text \<open>One iteration on a BAR that is mapped: the state the rest of the loop starts from.\<close>

definition try_config :: "pci_kernel \<Rightarrow> nat \<Rightarrow> drv \<Rightarrow> bool \<times> drv" where
  "try_config K i s =
     (if unat (map_len K i) \<ge> XDMA_BAR_SIZE \<and> config_bar_idx (inst s) < 0 then
        (case is_config_bar K i s of
           (True, s) \<Rightarrow> (True, upd_inst (\<lambda>d. d\<lparr>config_bar_idx := int i\<rparr>) s)
         | (False, s) \<Rightarrow> (False, s))
      else (False, s))"

lemma map_bars_loop_Cons:
  assumes "i < length (bar (inst s))"
  shows "map_bars_loop K (i # is) (ids, pos, s) =
    (if \<not> present K i then
       map_bars_loop K is (ids, pos, upd_inst (\<lambda>d. d\<lparr>bar := (bar d)[i := 0]\<rparr>) s)
     else
       let s1 = upd_inst (\<lambda>d. d\<lparr>bar := (bar d)[i := mapped_ptr K i]\<rparr>)
                  (call (PciIomap i (map_len K i) (mapped_ptr K i)) s)
       in if mapped_ptr K i = 0 then (False, ids, pos, s1)
          else case try_config K i s1 of
                 (found, s2) \<Rightarrow> map_bars_loop K is (ids @ [i], if found then length ids else pos, s2))"
proof (cases "present K i \<and> mapped_ptr K i \<noteq> 0")
  case True
  then have "0 < int (unat (map_len K i))"
    using present_map_len [of K i] by (simp del: of_nat_unat)
  with True assms show ?thesis
    by (simp add: map_single_bar_eq try_config_def Let_def del: of_nat_unat
        split: prod.split bool.split)
next
  case False
  with assms show ?thesis by (auto simp: map_single_bar_eq Let_def)
qed

declare map_bars_loop.simps(2) [simp del]

lemma try_config_spec:
  assumes "try_config K i s = (found, s')" and "bar (inst s) ! i = mapped_ptr K i"
  shows "inst s' = (if found then (inst s)\<lparr>config_bar_idx := int i\<rparr> else inst s)
    \<and> drvdata s' = drvdata s \<and> misc_dev_node s' = misc_dev_node s \<and> bypass_node s' = bypass_node s
    \<and> held s' = held s
    \<and> (found \<longrightarrow> config_bar_idx (inst s) < 0 \<and> XDMA_BAR_SIZE \<le> unat (map_len K i))
    \<and> (windows_sane K \<longrightarrow> i < XDMA_BAR_NUM \<longrightarrow> mapped_ptr K i \<noteq> 0 \<longrightarrow> accesses_ok K s \<longrightarrow> accesses_ok K s')"
proof (cases "unat (map_len K i) \<ge> XDMA_BAR_SIZE \<and> config_bar_idx (inst s) < 0")
  case True
  define a b where "a = bar (inst s) ! i + of_nat XDMA_OFS_INT_CTRL"
    and "b = bar (inst s) ! i + of_nat XDMA_OFS_CONFIG"
  have win: "windows_sane K \<Longrightarrow> i < XDMA_BAR_NUM \<Longrightarrow> mapped_ptr K i \<noteq> 0 \<Longrightarrow> in_window K a \<and> in_window K b"
    using True in_windowI [of K i XDMA_OFS_INT_CTRL] in_windowI [of K i XDMA_OFS_CONFIG]
    by (simp add: a_def b_def assms(2) xdma_consts)
  have f: "is_config_bar K i s =
      (fst (is_config_bar K i s), call (Ioread32 b) (call (Ioread32 a) s))"
    by (simp add: is_config_bar_def ioread32_def a_def b_def layout_simps Let_def)
  show ?thesis
    using True assms(1) win f
    by (cases "fst (is_config_bar K i s)") (auto simp: try_config_def)
next
  case False
  with assms(1) show ?thesis by (auto simp: try_config_def)
qed


text \<open>
  What holds between two iterations. \<open>ids\<close> are the BARs mapped so far, \<open>is\<close> the ones still to be
  looked at; once the configuration BAR is known, \<open>pos\<close> is its place in \<open>ids\<close>.
\<close>

definition loop_inv :: "pci_kernel \<Rightarrow> nat list \<Rightarrow> nat list \<Rightarrow> nat \<Rightarrow> drv \<Rightarrow> bool" where
  "loop_inv K is ids pos s \<longleftrightarrow> maps_agree s \<and> distinct (ids @ is)
     \<and> set (ids @ is) \<subseteq> {0 ..< XDMA_BAR_NUM}
     \<and> (\<forall>i \<in> set is. bar (inst s) ! i = 0)
     \<and> (\<forall>i \<in> set ids. mapped_ptr K i \<noteq> 0 \<and> bar (inst s) ! i = mapped_ptr K i)
     \<and> (0 \<le> config_bar_idx (inst s) \<longrightarrow> pos < length ids \<and> config_bar_idx (inst s) = int (ids ! pos)
          \<and> XDMA_BAR_SIZE \<le> unat (map_len K (ids ! pos)))"

text \<open>The loop changes the BAR array, the index of the configuration BAR and the log only.\<close>

definition bar_frame :: "drv \<Rightarrow> drv \<Rightarrow> bool" where
  "bar_frame s s' \<longleftrightarrow>
     (\<exists>b c. inst s' = (inst s)\<lparr>bar := b, config_bar_idx := c\<rparr>)
     \<and> drvdata s' = drvdata s \<and> misc_dev_node s' = misc_dev_node s \<and> bypass_node s' = bypass_node s
     \<and> other_held s' = other_held s"

lemma bar_frameI:
  "inst s' = (inst s)\<lparr>bar := b, config_bar_idx := c\<rparr> \<Longrightarrow> drvdata s' = drvdata s \<Longrightarrow>
   misc_dev_node s' = misc_dev_node s \<Longrightarrow> bypass_node s' = bypass_node s \<Longrightarrow>
   other_held s' = other_held s \<Longrightarrow> bar_frame s s'"
  by (auto simp: bar_frame_def)

lemma bar_frame_refl [simp]: "bar_frame s s"
  by (rule bar_frameI [where b = "bar (inst s)" and c = "config_bar_idx (inst s)"]) simp_all

lemma bar_frame_trans: "bar_frame s t \<Longrightarrow> bar_frame t u \<Longrightarrow> bar_frame s u"
proof -
  assume "bar_frame s t" "bar_frame t u"
  then obtain b c b' c' where "inst t = (inst s)\<lparr>bar := b, config_bar_idx := c\<rparr>"
    "inst u = (inst t)\<lparr>bar := b', config_bar_idx := c'\<rparr>" "drvdata t = drvdata s"
    "drvdata u = drvdata t" "misc_dev_node t = misc_dev_node s" "misc_dev_node u = misc_dev_node t"
    "bypass_node t = bypass_node s" "bypass_node u = bypass_node t"
    "other_held t = other_held s" "other_held u = other_held t"
    unfolding bar_frame_def by blast
  then show "bar_frame s u"
    by (intro bar_frameI [where b = b' and c = c']) simp_all
qed

lemma loop_inv_skip:
  assumes "loop_inv K (i # is) ids pos s"
  shows "loop_inv K is ids pos (upd_inst (\<lambda>d. d\<lparr>bar := (bar d)[i := 0]\<rparr>) s)"
proof -
  have "bar (inst s) ! i = 0" and "i < length (bar (inst s))"
    using assms by (auto simp: loop_inv_def maps_agree_def)
  then have "(bar (inst s))[i := 0] = bar (inst s)" by (simp add: list_update_same_conv)
  with assms show ?thesis by (auto simp: loop_inv_def)
qed

lemma loop_inv_map:
  assumes inv: "loop_inv K (i # is) ids pos s" and nz: "mapped_ptr K i \<noteq> 0"
    and s1: "s1 = upd_inst (\<lambda>d. d\<lparr>bar := (bar d)[i := mapped_ptr K i]\<rparr>)
        (call (PciIomap i (map_len K i) (mapped_ptr K i)) s)"
    and tc: "try_config K i s1 = (found, s2)"
  shows "loop_inv K is (ids @ [i]) (if found then length ids else pos) s2"
    and "bar_frame s s2"
    and "windows_sane K \<Longrightarrow> accesses_ok K s \<Longrightarrow> accesses_ok K s2"
proof -
  have i: "i < XDMA_BAR_NUM" and len: "length (bar (inst s)) = XDMA_BAR_NUM"
    and z: "bar (inst s) ! i = 0" and ma: "maps_agree s"
    using inv by (auto simp: loop_inv_def maps_agree_def)
  have b: "bar (inst s1) ! i = mapped_ptr K i" using i len by (simp add: s1)
  note spec = try_config_spec [OF tc b]
  have ma1: "maps_agree s1" unfolding s1 by (rule maps_agree_map [OF ma i z])
  have bars: "bar (inst s2) = (bar (inst s))[i := mapped_ptr K i]"
    using spec by (simp add: s1)
  have ma2: "maps_agree s2"
    using ma1 spec bars by (simp add: maps_agree_def s1)
  have cfg: "config_bar_idx (inst s1) = config_bar_idx (inst s)" by (simp add: s1)
  show "loop_inv K is (ids @ [i]) (if found then length ids else pos) s2"
    using inv nz ma2 spec cfg len i unfolding loop_inv_def bars
    by (cases found) (auto simp: nth_append nth_list_update)
  have "other_held s2 = other_held s1" using spec by (simp add: other_held_def)
  then show "bar_frame s s2"
    using spec
    by (intro bar_frameI [where b = "(bar (inst s))[i := mapped_ptr K i]"
          and c = "if found then int i else config_bar_idx (inst s)"]) (simp_all add: s1)
  show "windows_sane K \<Longrightarrow> accesses_ok K s \<Longrightarrow> accesses_ok K s2"
    using spec nz i by (simp add: s1)
qed

lemma map_bars_loop_spec:
  assumes "loop_inv K is ids pos s" and "map_bars_loop K is (ids, pos, s) = (ok, ids', pos', s')"
  shows "maps_agree s' \<and> bar_frame s s'
    \<and> (ok \<longrightarrow> ids' = ids @ filter (present K) is \<and> loop_inv K [] ids' pos' s')
    \<and> (\<not> ok \<longrightarrow> (\<exists>i \<in> set is. present K i \<and> mapped_ptr K i = 0))
    \<and> (windows_sane K \<longrightarrow> accesses_ok K s \<longrightarrow> accesses_ok K s')"
  using assms
proof (induction "is" arbitrary: ids pos s)
  case Nil
  then show ?case by (auto simp: loop_inv_def)
next
  case (Cons i "is")
  have i: "i < length (bar (inst s))" and ma: "maps_agree s" and z: "bar (inst s) ! i = 0"
    and i6: "i < XDMA_BAR_NUM"
    using Cons.prems(1) by (auto simp: loop_inv_def maps_agree_def)
  let ?s1 = "upd_inst (\<lambda>d. d\<lparr>bar := (bar d)[i := mapped_ptr K i]\<rparr>)
    (call (PciIomap i (map_len K i) (mapped_ptr K i)) s)"
  consider (skip) "\<not> present K i" | (fail) "present K i" "mapped_ptr K i = 0"
    | (ok) "present K i" "mapped_ptr K i \<noteq> 0" by blast
  then show ?case
  proof cases
    case skip
    let ?s = "upd_inst (\<lambda>d. d\<lparr>bar := (bar d)[i := 0]\<rparr>) s"
    have "bar_frame s ?s"
      by (rule bar_frameI [where b = "(bar (inst s))[i := 0]" and c = "config_bar_idx (inst s)"])
        simp_all
    with Cons.IH [OF loop_inv_skip [OF Cons.prems(1)]] Cons.prems(2) skip i show ?thesis
      by (auto simp: map_bars_loop_Cons intro: bar_frame_trans)
  next
    case fail
    with Cons.prems(2) i have "ok = False" and s': "s' = ?s1"
      by (auto simp: map_bars_loop_Cons)
    moreover have "maps_agree ?s1" by (rule maps_agree_map [OF ma i6 z])
    moreover have "bar_frame s ?s1"
      by (rule bar_frameI [where b = "(bar (inst s))[i := mapped_ptr K i]"
            and c = "config_bar_idx (inst s)"]) simp_all
    ultimately show ?thesis using fail by auto
  next
    case ok
    obtain found s2 where tc: "try_config K i ?s1 = (found, s2)" by (cases "try_config K i ?s1")
    note step = loop_inv_map [OF Cons.prems(1) ok(2) refl tc]
    have "map_bars_loop K is (ids @ [i], if found then length ids else pos, s2) = (ok, ids', pos', s')"
      using Cons.prems(2) ok i tc by (simp add: map_bars_loop_Cons)
    from Cons.IH [OF step(1) this] step(2,3) ok show ?thesis
      by (auto intro: bar_frame_trans)
  qed
qed


section \<open>Mapping all BARs\<close>

text \<open>The state \<open>map_bars\<close> is called in: nothing mapped, no BAR identified.\<close>

definition unmapped :: "drv \<Rightarrow> bool" where
  "unmapped s \<longleftrightarrow> bar (inst s) = replicate XDMA_BAR_NUM 0 \<and> config_bar_idx (inst s) = -1
     \<and> user_bar_idx (inst s) = -1 \<and> bypass_bar_idx (inst s) = -1 \<and> held s = other_held s"

definition config_known :: "pci_kernel \<Rightarrow> drv \<Rightarrow> nat \<Rightarrow> bool" where
  "config_known K s c \<longleftrightarrow> c < XDMA_BAR_NUM \<and> config_bar_idx (inst s) = int c
     \<and> config_base s = Some (mapped_ptr K c) \<and> mapped_ptr K c \<noteq> 0
     \<and> XDMA_BAR_SIZE \<le> unat (map_len K c)"

lemma identify_bars_frame:
  "\<exists>u b. identify_bars ids pos d = d\<lparr>user_bar_idx := u, bypass_bar_idx := b\<rparr>"
proof -
  have noop: "d = d\<lparr>user_bar_idx := user_bar_idx d, bypass_bar_idx := bypass_bar_idx d\<rparr>" by simp
  have u: "d\<lparr>user_bar_idx := x\<rparr> = d\<lparr>user_bar_idx := x, bypass_bar_idx := bypass_bar_idx d\<rparr>" for x
    by simp
  have b: "d\<lparr>bypass_bar_idx := x\<rparr> = d\<lparr>user_bar_idx := user_bar_idx d, bypass_bar_idx := x\<rparr>" for x
    by simp
  show ?thesis
    unfolding identify_bars_def Let_def
    by (auto split del: if_split split: if_splits intro: noop u b)
qed

lemma unmapped_loop_inv:
  assumes "unmapped s"
  shows "loop_inv K [0 ..< XDMA_BAR_NUM] [] 0 s"
proof -
  have "\<forall>p. RMap p \<notin> held s" using assms by (auto simp: unmapped_def other_held_def)
  with assms show ?thesis by (auto simp: loop_inv_def maps_agree_def unmapped_def)
qed


text \<open>Everything outside the BAR bookkeeping that \<open>map_bars\<close> keeps.\<close>

definition map_frame :: "drv \<Rightarrow> drv \<Rightarrow> bool" where
  "map_frame s s' \<longleftrightarrow>
     (\<exists>b c u y. inst s' =
        (inst s)\<lparr>bar := b, config_bar_idx := c, user_bar_idx := u, bypass_bar_idx := y\<rparr>)
     \<and> drvdata s' = drvdata s \<and> misc_dev_node s' = misc_dev_node s \<and> bypass_node s' = bypass_node s
     \<and> other_held s' = other_held s"

lemma bar_frame_map_frame:
  assumes "bar_frame s s'" and "inst t = (inst s')\<lparr>user_bar_idx := u, bypass_bar_idx := y\<rparr>"
    and "drvdata t = drvdata s'" and "misc_dev_node t = misc_dev_node s'"
    and "bypass_node t = bypass_node s'" and "other_held t = other_held s'"
  shows "map_frame s t"
proof -
  from assms(1) obtain b c where "inst s' = (inst s)\<lparr>bar := b, config_bar_idx := c\<rparr>"
    and rest: "drvdata s' = drvdata s" "misc_dev_node s' = misc_dev_node s"
      "bypass_node s' = bypass_node s" "other_held s' = other_held s"
    by (auto simp: bar_frame_def)
  with assms(2) have "inst t =
      (inst s)\<lparr>bar := b, config_bar_idx := c, user_bar_idx := u, bypass_bar_idx := y\<rparr>" by simp
  with rest assms(3-6) show ?thesis unfolding map_frame_def by metis
qed

lemma map_bars_unfold:
  assumes "unmapped s"
  obtains ok ids pos t where
    "map_bars_loop K [0 ..< XDMA_BAR_NUM] ([], 0, s) = (ok, ids, pos, t)"
    "maps_agree t" "bar_frame s t"
    "ok \<Longrightarrow> ids = filter (present K) [0 ..< XDMA_BAR_NUM] \<and> loop_inv K [] ids pos t"
    "\<not> ok \<Longrightarrow> \<exists>i < XDMA_BAR_NUM. present K i \<and> mapped_ptr K i = 0"
    "windows_sane K \<Longrightarrow> accesses_ok K s \<Longrightarrow> accesses_ok K t"
    "map_bars K s = (if ok \<and> 0 \<le> config_bar_idx (inst t)
       then (0, upd_inst (identify_bars ids pos) t) else (-1, unmap_bars t))"
proof -
  obtain ok ids pos t where
    eq: "map_bars_loop K [0 ..< XDMA_BAR_NUM] ([], 0, s) = (ok, ids, pos, t)"
    by (metis prod_cases4)
  note spec = map_bars_loop_spec [OF unmapped_loop_inv [OF assms] eq]
  show ?thesis
  proof (rule that [OF eq])
    show "map_bars K s = (if ok \<and> 0 \<le> config_bar_idx (inst t)
       then (0, upd_inst (identify_bars ids pos) t) else (-1, unmap_bars t))"
      by (auto simp: map_bars_def eq)
    show "ids = filter (present K) [0 ..< XDMA_BAR_NUM] \<and> loop_inv K [] ids pos t" if ok
      using spec that by auto
    show "\<exists>i < XDMA_BAR_NUM. present K i \<and> mapped_ptr K i = 0" if "\<not> ok"
      using spec that by auto
  qed (use spec in simp_all)
qed

lemma map_bars_ok:
  assumes "unmapped s" and "map_bars K s = (0, s')"
  shows "(\<exists>c. config_known K s' c) \<and> maps_agree s' \<and> map_frame s s'
    \<and> (windows_sane K \<longrightarrow> accesses_ok K s \<longrightarrow> accesses_ok K s')"
proof (rule map_bars_unfold [OF assms(1), of K])
  fix ok ids pos t
  assume eq: "map_bars K s = (if ok \<and> 0 \<le> config_bar_idx (inst t)
       then (0, upd_inst (identify_bars ids pos) t) else (-1, unmap_bars t))"
    and fr: "bar_frame s t" and ma: "maps_agree t"
    and inv: "ok \<Longrightarrow> ids = filter (present K) [0 ..< XDMA_BAR_NUM] \<and> loop_inv K [] ids pos t"
    and acc: "windows_sane K \<Longrightarrow> accesses_ok K s \<Longrightarrow> accesses_ok K t"
  obtain u b where ib: "identify_bars ids pos (inst t) = (inst t)\<lparr>user_bar_idx := u, bypass_bar_idx := b\<rparr>"
    using identify_bars_frame by blast
  from eq assms(2) have ok: "ok" "0 \<le> config_bar_idx (inst t)"
    and s': "s' = t\<lparr>inst := (inst t)\<lparr>user_bar_idx := u, bypass_bar_idx := b\<rparr>\<rparr>"
    by (auto simp: ib split: if_splits)
  let ?c = "ids ! pos"
  have c: "pos < length ids" "config_bar_idx (inst t) = int ?c" "XDMA_BAR_SIZE \<le> unat (map_len K ?c)"
    using inv ok by (auto simp: loop_inv_def)
  then have "?c \<in> set ids" by simp
  then have "mapped_ptr K ?c \<noteq> 0" "bar (inst t) ! ?c = mapped_ptr K ?c" "?c < XDMA_BAR_NUM"
    using inv ok(1) by (auto simp: loop_inv_def)
  moreover have "length (bar (inst t)) = XDMA_BAR_NUM" using ma by (simp add: maps_agree_def)
  ultimately have "config_known K s' ?c"
    using c by (simp add: config_known_def config_base_def s')
  moreover have "maps_agree s'" using ma by (simp add: maps_agree_def s')
  moreover have "map_frame s s'"
    by (rule bar_frame_map_frame [OF fr, where t = s' and u = u and y = b]) (simp_all add: s')
  moreover have "windows_sane K \<longrightarrow> accesses_ok K s \<longrightarrow> accesses_ok K s'"
    using acc by (simp add: s')
  ultimately show ?thesis by blast
qed

lemma map_bars_fail:
  assumes "unmapped s" and "map_bars K s = (rc, s')" and "rc \<noteq> 0"
  shows "rc = -1 \<and> held s' = held s \<and> bar (inst s') = replicate XDMA_BAR_NUM 0 \<and> map_frame s s'
    \<and> (windows_sane K \<longrightarrow> accesses_ok K s \<longrightarrow> accesses_ok K s')"
proof (rule map_bars_unfold [OF assms(1), of K])
  fix ok ids pos t
  assume eq: "map_bars K s = (if ok \<and> 0 \<le> config_bar_idx (inst t)
       then (0, upd_inst (identify_bars ids pos) t) else (-1, unmap_bars t))"
    and fr: "bar_frame s t" and ma: "maps_agree t"
    and acc: "windows_sane K \<Longrightarrow> accesses_ok K s \<Longrightarrow> accesses_ok K t"
  from eq assms(2,3) have rc: "rc = -1" and s': "s' = unmap_bars t" by (auto split: if_splits)
  have len: "length (bar (inst t)) = XDMA_BAR_NUM" using ma by (simp add: maps_agree_def)
  have h: "held s' = other_held t" unfolding s' by (rule held_unmap_bars [OF ma])
  then have oh: "other_held s' = other_held t" by (auto simp: other_held_def)
  have fs: "bar_frame t s'"
    using oh len
    by (intro bar_frameI [where b = "replicate XDMA_BAR_NUM 0" and c = "config_bar_idx (inst t)"])
      (simp_all add: s')
  have "held s' = held s"
    using h fr assms(1) by (simp add: bar_frame_def unmapped_def)
  moreover have "bar (inst s') = replicate XDMA_BAR_NUM 0" using len by (simp add: s')
  moreover have "map_frame s s'"
    by (rule bar_frame_map_frame [OF bar_frame_trans [OF fr fs], where t = s'
          and u = "user_bar_idx (inst s')" and y = "bypass_bar_idx (inst s')"]) simp_all
  moreover have "windows_sane K \<longrightarrow> accesses_ok K s \<longrightarrow> accesses_ok K s'"
    using acc len by (simp add: s')
  ultimately show ?thesis using rc by simp
qed


lemma map_bars_iomap_fails:
  assumes "unmapped s" and "i < XDMA_BAR_NUM" and "present K i" and "mapped_ptr K i = 0"
  shows "fst (map_bars K s) = -1"
proof (rule map_bars_unfold [OF assms(1), of K])
  fix ok ids pos t
  assume eq: "map_bars K s = (if ok \<and> 0 \<le> config_bar_idx (inst t)
       then (0, upd_inst (identify_bars ids pos) t) else (-1, unmap_bars t))"
    and inv: "ok \<Longrightarrow> ids = filter (present K) [0 ..< XDMA_BAR_NUM] \<and> loop_inv K [] ids pos t"
  have "\<not> ok" using inv assms(2-4) by (auto simp: loop_inv_def)
  with eq show ?thesis by simp
qed

section \<open>Which BAR is which\<close>

text \<open>
  The rule in the comment of \<open>identify_bars\<close>, over the list of present BARs and the
  configuration BAR: the user BAR comes before it and the bypass BAR after it. The result is the
  pair of the user and the bypass index, \<open>-1\<close> where the BAR is absent.
\<close>

fun bar_roles :: "nat list \<Rightarrow> nat \<Rightarrow> int \<times> int" where
  "bar_roles [a, b] c = (if c = a then (-1, int b) else if c = b then (int a, -1) else (-1, -1))"
| "bar_roles [a, b, d] c = (if c = b then (int a, int d) else (-1, -1))"
| "bar_roles ids c = (-1, -1)"

definition looks_like_config :: "pci_kernel \<Rightarrow> (u64 \<Rightarrow> u32) \<Rightarrow> nat \<Rightarrow> bool" where
  "looks_like_config K f i \<longleftrightarrow> XDMA_BAR_SIZE \<le> unat (map_len K i)
     \<and> f (mapped_ptr K i + of_nat XDMA_OFS_INT_CTRL) AND 0xffff0000 = IRQ_BLOCK_ID
     \<and> f (mapped_ptr K i + of_nat XDMA_OFS_CONFIG) AND 0xffff0000 = CONFIG_BLOCK_ID"

lemma identify_bars_roles:
  assumes "distinct ids" and "pos < length ids" and "user_bar_idx d = -1" and "bypass_bar_idx d = -1"
  shows "(user_bar_idx (identify_bars ids pos d), bypass_bar_idx (identify_bars ids pos d))
    = bar_roles ids (ids ! pos)"
proof (cases "(ids, ids ! pos)" rule: bar_roles.cases)
  case (1 a b c)
  with assms show ?thesis by (cases pos) (auto simp: identify_bars_def)
next
  case (2 a b d c)
  then have "pos = 0 \<or> pos = 1 \<or> pos = 2" using assms by auto
  with 2 assms show ?thesis by (auto simp: identify_bars_def)
qed (use assms in \<open>simp_all add: identify_bars_def\<close>)

text \<open>The registers a BAR of a card is recognised by.\<close>

definition bar_id_regs :: "pci_kernel \<Rightarrow> u64 set" where
  "bar_id_regs K = (\<Union>i < XDMA_BAR_NUM.
     {mapped_ptr K i + of_nat XDMA_OFS_INT_CTRL, mapped_ptr K i + of_nat XDMA_OFS_CONFIG})"

lemma try_config_stable:
  assumes "\<And>log a. a \<in> bar_id_regs K \<Longrightarrow> k_ioread32 K log a = f a" and "i < XDMA_BAR_NUM" and "bar (inst s) ! i = mapped_ptr K i"
    and "try_config K i s = (found, s')"
  shows "found \<longleftrightarrow> config_bar_idx (inst s) < 0 \<and> looks_like_config K f i"
    and "config_bar_idx (inst s') = (if found then int i else config_bar_idx (inst s))"
proof -
  have "k_ioread32 K log (mapped_ptr K i + of_nat XDMA_OFS_INT_CTRL) = f (mapped_ptr K i + of_nat XDMA_OFS_INT_CTRL)"
    "k_ioread32 K log (mapped_ptr K i + of_nat XDMA_OFS_CONFIG) = f (mapped_ptr K i + of_nat XDMA_OFS_CONFIG)" for log
    using assms(2) by (intro assms(1), force simp: bar_id_regs_def)+
  with assms(3,4) show "found \<longleftrightarrow> config_bar_idx (inst s) < 0 \<and> looks_like_config K f i"
    "config_bar_idx (inst s') = (if found then int i else config_bar_idx (inst s))"
    by (auto simp: try_config_def is_config_bar_def ioread32_def layout_simps looks_like_config_def
        Let_def split: if_splits)
qed

lemma map_bars_loop_config:
  assumes f: "\<And>log a. a \<in> bar_id_regs K \<Longrightarrow> k_ioread32 K log a = f a"
    and "map_bars_loop K is (ids, pos, s) = (ok, ids', pos', s')" and "set is \<subseteq> {0 ..< XDMA_BAR_NUM}"
    and "length (bar (inst s)) = XDMA_BAR_NUM"
  shows "(ok \<longleftrightarrow> (\<forall>i \<in> set is. present K i \<longrightarrow> mapped_ptr K i \<noteq> 0))
    \<and> (ok \<longrightarrow> config_bar_idx (inst s') =
        (if 0 \<le> config_bar_idx (inst s) then config_bar_idx (inst s)
         else case find (looks_like_config K f) (filter (present K) is) of
                None \<Rightarrow> config_bar_idx (inst s) | Some c \<Rightarrow> int c))"
  using assms(2-4)
proof (induction "is" arbitrary: ids pos s)
  case (Cons i "is")
  have i: "i < length (bar (inst s))" using Cons.prems by simp
  let ?s1 = "upd_inst (\<lambda>d. d\<lparr>bar := (bar d)[i := mapped_ptr K i]\<rparr>)
    (call (PciIomap i (map_len K i) (mapped_ptr K i)) s)"
  consider (skip) "\<not> present K i" | (fail) "present K i" "mapped_ptr K i = 0"
    | (ok) "present K i" "mapped_ptr K i \<noteq> 0" by blast
  then show ?case
  proof cases
    case skip
    with Cons.IH [of ids pos "upd_inst (\<lambda>d. d\<lparr>bar := (bar d)[i := 0]\<rparr>) s"] Cons.prems i
    show ?thesis by (simp add: map_bars_loop_Cons split: option.split)
  next
    case fail
    with Cons.prems i show ?thesis by (simp add: map_bars_loop_Cons)
  next
    case ok
    obtain found s2 where tc: "try_config K i ?s1 = (found, s2)" by (cases "try_config K i ?s1")
    have b: "bar (inst ?s1) ! i = mapped_ptr K i" using i by simp
    have "i < XDMA_BAR_NUM" using Cons.prems(2) by simp
    note st = try_config_stable [OF f this b tc] try_config_spec [OF tc b]
    have len: "length (bar (inst s2)) = XDMA_BAR_NUM" using st Cons.prems(3) by simp
    have "map_bars_loop K is (ids @ [i], if found then length ids else pos, s2) = (ok, ids', pos', s')"
      using Cons.prems(1) ok i tc by (simp add: map_bars_loop_Cons)
    from Cons.IH [OF this] len Cons.prems(2) st(1,2) ok show ?thesis
      by (cases found) (auto split: option.split)
  qed
qed simp

section \<open>A concrete card\<close>

text \<open>
  A card as the repository's designs configure it: user logic in BAR 0, the XDMA core's registers
  in BAR 1, descriptor bypass in BAR 2, one engine in each direction. It inhabits the hypotheses
  of the properties below.
\<close>

definition alveo_reg :: "u64 \<Rightarrow> u32" where
  "alveo_reg a =
     (if a = 0x202000 then 0x1fc20006 else if a = 0x203000 then 0x1fc30006
      else if a = 0x200000 then 0x1fc00006 else if a = 0x201000 then 0x1fc10006 else 0)"

definition alveo :: pci_kernel where
  "alveo = \<lparr>k_kzalloc = 0x1000, k_pci_enable_device = 0, k_no_msi = False, k_bus_flags = [0, 0],
     k_pci_find_capability = (\<lambda>t. if t = PCI_CAP_ID_MSIX then 0x60 else 0),
     k_pci_enable_msix_exact = 0, k_pci_enable_msi = 0, k_pci_request_regions = 0,
     k_pci_resource_start = (\<lambda>i. 0xd0000000 + 0x10000 * of_nat i),
     k_pci_resource_len = (\<lambda>i. if i < 3 then 0x10000 else 0),
     k_pci_iomap = (\<lambda>i n. 0x100000 * of_nat (i + 1)),
     k_ioread32 = (\<lambda>log. alveo_reg), k_dma_set_mask_and_coherent = 0,
     k_misc_register = (\<lambda>name. 0), k_pci_register_driver = 0\<rparr>"

definition fresh_inst :: "u64 \<Rightarrow> dev_inst" where
  "fresh_inst pdev = zeroed_inst\<lparr>pci_dev := pdev, config_bar_idx := -1, user_bar_idx := -1,
     bypass_bar_idx := -1, irq_line := -1\<rparr>"

definition fresh :: drv where
  "fresh = loaded\<lparr>inst := fresh_inst 7\<rparr>"

lemma fresh_unmapped: "unmapped fresh"
  by (simp add: unmapped_def fresh_def fresh_inst_def zeroed_inst_def other_held_def)

lemma upt_XDMA_BAR_NUM: "[0 ..< XDMA_BAR_NUM] = [0, 1, 2, 3, 4, 5]"
  by (simp add: XDMA_BAR_NUM_def upt_rec)

lemma alveo_bars:
  "filter (present alveo) [0 ..< XDMA_BAR_NUM] = [0, 1, 2]"
  "mapped_ptr alveo 0 = 0x100000" "mapped_ptr alveo (Suc 0) = 0x200000" "mapped_ptr alveo 2 = 0x300000"
  "map_len alveo 0 = 0x10000" "map_len alveo (Suc 0) = 0x10000" "map_len alveo 2 = 0x10000"
  by (simp_all add: upt_XDMA_BAR_NUM present_def mapped_ptr_def alveo_def map_len_def INT_MAX_def)

lemma alveo_config:
  "\<not> looks_like_config alveo alveo_reg 0" "looks_like_config alveo alveo_reg (Suc 0)"
  by (simp_all add: looks_like_config_def alveo_bars alveo_reg_def xdma_consts)

lemma alveo_map_len: "unat (map_len alveo i) = (if i < 3 then 0x10000 else 0)"
  by (simp add: map_len_def alveo_def INT_MAX_def)

lemma alveo_windows: "windows_sane alveo"
  unfolding windows_sane_def
proof (intro allI impI)
  fix i assume "i < XDMA_BAR_NUM"
  then have "i \<in> {0, 1, 2, 3, 4, 5}" by (auto simp: XDMA_BAR_NUM_def)
  then show "unat (k_pci_iomap alveo i (map_len alveo i)) + unat (map_len alveo i) \<le> 2 ^ 64"
    by (auto simp: alveo_map_len) (simp_all add: alveo_def)
qed

section \<open>Properties\<close>

lemma map_bars_stable:
  assumes "unmapped s" and "\<forall>log. \<forall>a \<in> bar_id_regs K. k_ioread32 K log a = f a" and "map_bars K s = (rc, s')"
    and "ids = filter (present K) [0 ..< XDMA_BAR_NUM]"
  shows "rc = (if (\<forall>i \<in> set ids. mapped_ptr K i \<noteq> 0) \<and> find (looks_like_config K f) ids \<noteq> None
               then 0 else -1)
    \<and> (rc = 0 \<longrightarrow> (\<exists>c. find (looks_like_config K f) ids = Some c
         \<and> config_bar_idx (inst s') = int c
         \<and> (user_bar_idx (inst s'), bypass_bar_idx (inst s')) = bar_roles ids c
         \<and> (\<forall>i \<in> set ids. bar (inst s') ! i = mapped_ptr K i)))"
proof (rule map_bars_unfold [OF assms(1), of K])
  fix ok jds pos t
  assume loop: "map_bars_loop K [0 ..< XDMA_BAR_NUM] ([], 0, s) = (ok, jds, pos, t)"
    and eq: "map_bars K s = (if ok \<and> 0 \<le> config_bar_idx (inst t)
       then (0, upd_inst (identify_bars jds pos) t) else (-1, unmap_bars t))"
    and fr: "bar_frame s t"
    and inv: "ok \<Longrightarrow> jds = filter (present K) [0 ..< XDMA_BAR_NUM] \<and> loop_inv K [] jds pos t"
  have len: "length (bar (inst s)) = XDMA_BAR_NUM" and none: "config_bar_idx (inst s) = -1"
    using assms(1) by (simp_all add: unmapped_def)
  have cfg: "ok \<longleftrightarrow> (\<forall>i \<in> set ids. mapped_ptr K i \<noteq> 0)"
    "ok \<Longrightarrow> config_bar_idx (inst t) =
       (case find (looks_like_config K f) ids of None \<Rightarrow> -1 | Some c \<Rightarrow> int c)"
    using map_bars_loop_config [OF _ loop, of f] assms(2,4) len none by (auto split: option.split)
  have idle: "user_bar_idx (inst t) = -1" "bypass_bar_idx (inst t) = -1"
    using fr assms(1) by (auto simp: bar_frame_def unmapped_def)
  show ?thesis
  proof (cases "ok \<and> find (looks_like_config K f) ids \<noteq> None")
    case True
    then obtain c where c: "find (looks_like_config K f) ids = Some c" by auto
    with cfg True have ct: "config_bar_idx (inst t) = int c" by simp
    have inv': "jds = ids" "loop_inv K [] ids pos t" using inv True assms(4) by auto
    then have pos: "pos < length ids" "ids ! pos = c" "distinct ids"
      using ct by (auto simp: loop_inv_def)
    obtain u b where ib: "identify_bars ids pos (inst t) = (inst t)\<lparr>user_bar_idx := u, bypass_bar_idx := b\<rparr>"
      using identify_bars_frame by blast
    have rs: "rc = 0" "s' = t\<lparr>inst := (inst t)\<lparr>user_bar_idx := u, bypass_bar_idx := b\<rparr>\<rparr>"
      using eq assms(3) True ct inv'(1) ib by auto
    moreover have "(u, b) = bar_roles ids c"
      using identify_bars_roles [OF pos(3,1) idle] pos(2) by (simp add: ib)
    moreover have "\<forall>i \<in> set ids. bar (inst t) ! i = mapped_ptr K i"
      using inv'(2) by (auto simp: loop_inv_def)
    ultimately show ?thesis using c ct True cfg(1) by auto
  next
    case False
    with eq cfg assms(3) have "rc = -1" by (auto split: if_splits)
    with False cfg(1) show ?thesis by auto
  qed
qed

text \<open>
  C14. What \<open>map_bars\<close> decides. When the identifier registers read the same every time, it
  succeeds exactly when every present BAR can be mapped and one of those large enough carries
  the two XDMA identifiers; the configuration BAR is the first such BAR, every present BAR is
  mapped, and the user and bypass BARs follow the rule documented at \<open>identify_bars\<close>.
\<close>

theorem map_bars_correct:
  assumes "unmapped s" and "\<forall>log. \<forall>a \<in> bar_id_regs K. k_ioread32 K log a = f a" and "map_bars K s = (rc, s')"
    and "ids = filter (present K) [0 ..< XDMA_BAR_NUM]"
  shows "rc = (if (\<forall>i \<in> set ids. mapped_ptr K i \<noteq> 0) \<and> find (looks_like_config K f) ids \<noteq> None
               then 0 else -1)
    \<and> (rc = 0 \<longrightarrow> (\<exists>c. find (looks_like_config K f) ids = Some c
         \<and> config_bar_idx (inst s') = int c
         \<and> (user_bar_idx (inst s'), bypass_bar_idx (inst s')) = bar_roles ids c
         \<and> (\<forall>i \<in> set ids. bar (inst s') ! i = mapped_ptr K i)))"
  using assms by (rule map_bars_stable)

theorem map_bars_correct_witness:
  "\<exists>s'. map_bars alveo fresh = (0, s') \<and> config_bar_idx (inst s') = 1
    \<and> user_bar_idx (inst s') = 0 \<and> bypass_bar_idx (inst s') = 2 \<and> bar (inst s') ! 1 = 0x200000"
proof -
  obtain rc s' where m: "map_bars alveo fresh = (rc, s')" by (cases "map_bars alveo fresh")
  have "\<forall>log. \<forall>a \<in> bar_id_regs alveo. k_ioread32 alveo log a = alveo_reg a" by (simp add: alveo_def)
  from map_bars_correct [OF fresh_unmapped this m alveo_bars(1) [symmetric]] show ?thesis
    using m by (simp add: alveo_config alveo_bars)
qed

text \<open>
  \<open>map_bars\<close> is all or nothing, whatever the registers answer. When it fails, every
  mapping it made is undone and nothing else has changed hands; when it succeeds, a mapping is
  held exactly when its address is in the BAR array, and the configuration base is a mapped
  window of at least \<open>XDMA_BAR_SIZE\<close> bytes. In both cases it reads inside mapped windows only.
\<close>

theorem map_bars_all_or_nothing:
  assumes "unmapped s" and "map_bars K s = (rc, s')"
  shows "(rc \<noteq> 0 \<longrightarrow> rc = -1 \<and> held s' = held s \<and> bar (inst s') = replicate XDMA_BAR_NUM 0)
    \<and> (rc = 0 \<longrightarrow> maps_agree s' \<and> other_held s' = held s \<and> (\<exists>c. config_known K s' c))
    \<and> (windows_sane K \<longrightarrow> accesses_ok K s \<longrightarrow> accesses_ok K s')"
proof (cases "rc = 0")
  case True
  with map_bars_ok [OF assms(1), of K s'] assms show ?thesis
    by (auto simp: map_frame_def unmapped_def)
next
  case False
  with map_bars_fail [OF assms(1,2)] show ?thesis by simp
qed

theorem map_bars_all_or_nothing_witness:
  "\<exists>s'. map_bars (alveo\<lparr>k_pci_iomap := (\<lambda>i n. if i = 2 then 0 else 0x100000)\<rparr>) fresh = (-1, s')
     \<and> held s' = {} \<and> bar (inst s') = replicate XDMA_BAR_NUM 0"
proof -
  let ?K = "alveo\<lparr>k_pci_iomap := (\<lambda>i n. if i = 2 then 0 else 0x100000)\<rparr>"
  obtain rc s' where m: "map_bars ?K fresh = (rc, s')" by (cases "map_bars ?K fresh")
  have "rc = -1"
    using map_bars_iomap_fails [OF fresh_unmapped, of 2 ?K] m
    by (simp add: present_def mapped_ptr_def alveo_def XDMA_BAR_NUM_def)
  with map_bars_all_or_nothing [OF fresh_unmapped m] m show ?thesis
    by (simp add: fresh_def)
qed

end
