(* ===== verification/Xdma_Engines.thy ===== *)
theory Xdma_Engines
  imports Xdma_Bars
begin

text \<open>
  The second half of the PCI driver of \<open>sw/driver/xdma_driver.c\<close>: the interrupt registers and the
  search for DMA engines behind the configuration BAR. An operation that dereferences the
  configuration base returns \<^term>\<open>None\<close> where the code would fault.
\<close>

section \<open>Operations\<close>

definition set_dma_mask :: "pci_kernel \<Rightarrow> u64 \<Rightarrow> drv \<Rightarrow> (int \<times> drv) option" where
  "set_dma_mask K pdev s =
     (if pdev = 0 then None
      else let rc = k_dma_set_mask_and_coherent K in Some (rc, call (DmaSetMaskAndCoherent rc) s))"

definition channel_interrupts_enable :: "u32 \<Rightarrow> drv \<Rightarrow> drv option" where
  "channel_interrupts_enable msk s = do {
     base \<leftarrow> config_base s;
     let reg = base + of_nat XDMA_OFS_INT_CTRL;
     Some (iowrite32 msk (reg + of_nat (offset_of interrupt_regs ''channel_int_enable_w1s'')) s) }"

definition channel_interrupts_disable :: "u32 \<Rightarrow> drv \<Rightarrow> drv option" where
  "channel_interrupts_disable msk s = do {
     base \<leftarrow> config_base s;
     let reg = base + of_nat XDMA_OFS_INT_CTRL;
     Some (iowrite32 msk (reg + of_nat (offset_of interrupt_regs ''channel_int_enable_w1c'')) s) }"

definition read_interrupts :: "pci_kernel \<Rightarrow> drv \<Rightarrow> (u32 \<times> drv) option" where
  "read_interrupts K s = do {
     base \<leftarrow> config_base s;
     let reg = base + of_nat XDMA_OFS_INT_CTRL;
     let (hi, s) = ioread32 K (reg + of_nat (offset_of interrupt_regs ''user_int_request'')) s;
     let (lo, s) = ioread32 K (reg + of_nat (offset_of interrupt_regs ''channel_int_request'')) s;
     Some (build_u32 hi lo, s) }"

text \<open>Element \<open>i\<close> of an array register.\<close>

definition reg_elem :: "layout \<Rightarrow> string \<Rightarrow> nat \<Rightarrow> nat" where
  "reg_elem l f i = offset_of l f + 4 * i"

definition write_msix_vectors :: "drv \<Rightarrow> drv option" where
  "write_msix_vectors s = do {
     base \<leftarrow> config_base s;
     let int_regs = base + of_nat XDMA_OFS_INT_CTRL;
     let s = iowrite32 (build_vector_reg 0 1 2 3)
               (int_regs + of_nat (reg_elem interrupt_regs ''user_msi_vector'' 0)) s;
     let s = iowrite32 (build_vector_reg 4 5 6 7)
               (int_regs + of_nat (reg_elem interrupt_regs ''user_msi_vector'' 1)) s;
     let s = iowrite32 (build_vector_reg 8 9 10 11)
               (int_regs + of_nat (reg_elem interrupt_regs ''user_msi_vector'' 2)) s;
     let s = iowrite32 (build_vector_reg 12 13 14 15)
               (int_regs + of_nat (reg_elem interrupt_regs ''user_msi_vector'' 3)) s;
     let s = iowrite32 (build_vector_reg 16 17 18 19)
               (int_regs + of_nat (reg_elem interrupt_regs ''channel_msi_vector'' 0)) s;
     let s = iowrite32 (build_vector_reg 20 21 22 23)
               (int_regs + of_nat (reg_elem interrupt_regs ''channel_msi_vector'' 1)) s;
     Some s }"

definition msix_irq_setup :: "drv \<Rightarrow> (int \<times> drv) option" where
  "msix_irq_setup s = do { s \<leftarrow> write_msix_vectors s; Some (0, s) }"

definition get_engine_channel_id :: "pci_kernel \<Rightarrow> u64 \<Rightarrow> drv \<Rightarrow> (u32 \<times> drv) option" where
  "get_engine_channel_id K regs s =
     (if regs = 0 then None
      else
        let (v, s) = ioread32 K (regs + of_nat (offset_of engine_regs ''identifier'')) s
        in Some (drop_bit 8 (v AND 0x00000f00), s))"

definition get_engine_id :: "pci_kernel \<Rightarrow> u64 \<Rightarrow> drv \<Rightarrow> (u32 \<times> drv) option" where
  "get_engine_id K regs s =
     (if regs = 0 then None
      else
        let (v, s) = ioread32 K (regs + of_nat (offset_of engine_regs ''identifier'')) s
        in Some (drop_bit 16 (v AND 0xffff0000), s))"

definition probe_for_engine :: "pci_kernel \<Rightarrow> bool \<Rightarrow> nat \<Rightarrow> drv \<Rightarrow> (int \<times> drv) option" where
  "probe_for_engine K dir_to_dev channel s = do {
     let dir_from_dev = (if dir_to_dev then 0 else 1);
     let offset = dir_from_dev * H2C_CHANNEL_OFFSET + channel * CHANNEL_SPACING;
     base \<leftarrow> config_base s;
     let regs = base + of_nat offset;
     let engine_id_expected = (if dir_to_dev then XDMA_ID_H2C else XDMA_ID_C2H);
     (engine_id, s) \<leftarrow> get_engine_id K regs s;
     (channel_id, s) \<leftarrow> get_engine_channel_id K regs s;
     if engine_id \<noteq> engine_id_expected then Some (0, s)
     else if channel_id \<noteq> of_nat channel then Some (0, s)
     else
       let s = (if dir_to_dev then upd_inst (\<lambda>d. d\<lparr>h2c_count := h2c_count d + 1\<rparr>) s
                else upd_inst (\<lambda>d. d\<lparr>c2h_count := c2h_count d + 1\<rparr>) s)
       in if dir_from_dev \<noteq> 0 then
            (if c2h_engine (inst s) = -1 then Some (0, upd_inst (\<lambda>d. d\<lparr>c2h_engine := int channel\<rparr>) s)
             else Some (0, s))
          else
            (if h2c_engine (inst s) = -1 then Some (0, upd_inst (\<lambda>d. d\<lparr>h2c_engine := int channel\<rparr>) s)
             else Some (0, s)) }"

text \<open>The loop over the channels; an error of \<open>probe_for_engine\<close> ends it early.\<close>

fun probe_channels :: "pci_kernel \<Rightarrow> nat list \<Rightarrow> drv \<Rightarrow> (int \<times> drv) option" where
  "probe_channels K [] s = Some (0, s)"
| "probe_channels K (channel # rest) s = do {
     (rc, s) \<leftarrow> probe_for_engine K True channel s;
     if rc \<noteq> 0 then Some (rc, s)
     else do {
       (rc, s) \<leftarrow> probe_for_engine K False channel s;
       if rc \<noteq> 0 then Some (rc, s) else probe_channels K rest s } }"

definition probe_engines :: "pci_kernel \<Rightarrow> drv \<Rightarrow> (int \<times> drv) option" where
  "probe_engines K s = do {
     let s = upd_inst (\<lambda>d. d\<lparr>h2c_count := 0, c2h_count := 0, h2c_engine := -1, c2h_engine := -1\<rparr>) s;
     (rc, s) \<leftarrow> probe_channels K [0 ..< XDMA_CHANNEL_NUM_MAX] s;
     if rc \<noteq> 0 then Some (rc, s)
     else if h2c_engine (inst s) = -1 \<or> c2h_engine (inst s) = -1 then Some (- ENODEV, s)
     else do {
       let h2c_offset = int H2C_CHANNEL_OFFSET + h2c_engine (inst s) * int CHANNEL_SPACING;
       let c2h_offset = int C2H_CHANNEL_OFFSET + c2h_engine (inst s) * int CHANNEL_SPACING;
       base \<leftarrow> config_base s;
       let s = upd_inst (\<lambda>d. d\<lparr>h2c_regs := base + of_int h2c_offset,
                               c2h_regs := base + of_int c2h_offset\<rparr>) s;
       let s = iowrite32 0x1 (h2c_regs (inst s) + of_nat (offset_of engine_regs ''control'')) s;
       let s = iowrite32 0x1 (c2h_regs (inst s) + of_nat (offset_of engine_regs ''control'')) s;
       let s = upd_inst (\<lambda>d. d\<lparr>desc_bypass_enabled := True\<rparr>) s;
       Some (0, call Mmiowb s) } }"

definition irq_teardown :: "drv \<Rightarrow> drv" where
  "irq_teardown s =
     (if msix_enabled (inst s) then s
      else if irq_line (inst s) \<noteq> -1 then call (FreeIrq (irq_line (inst s))) s
      else s)"

section \<open>Registers behind the configuration BAR\<close>

lemma config_reg_ok:
  assumes "config_known K s c" and "windows_sane K" and "off + 4 \<le> XDMA_BAR_SIZE"
  shows "in_window K (mapped_ptr K c + of_nat off)" and "mapped_ptr K c + of_nat off \<noteq> 0"
proof -
  have k: "c < XDMA_BAR_NUM" "mapped_ptr K c \<noteq> 0" "XDMA_BAR_SIZE \<le> unat (map_len K c)"
    using assms(1) by (simp_all add: config_known_def)
  then show w: "in_window K (mapped_ptr K c + of_nat off)"
    using assms(2,3) by (intro in_windowI) simp_all
  have p: "mapped_ptr K c = k_pci_iomap K c (map_len K c)"
    using k(2) by (auto simp: mapped_ptr_def split: if_splits)
  have le: "unat (mapped_ptr K c) + unat (map_len K c) \<le> 2 ^ 64"
    using assms(2) k(1) by (simp add: windows_sane_def p)
  have "unat (of_nat off :: u64) = off"
    using assms(3) by (simp add: unat_of_nat xdma_consts)
  with le k(3) assms(3) have "unat (mapped_ptr K c + of_nat off) = unat (mapped_ptr K c) + off"
    using unat_add_no_wrap [of "mapped_ptr K c" "of_nat off"] by simp
  moreover have "0 < unat (mapped_ptr K c)" using k(2) by (simp add: unat_gt_0)
  ultimately show "mapped_ptr K c + of_nat off \<noteq> 0" by auto
qed

lemma config_known_call [simp]: "config_known K (call e s) c = config_known K s c"
  by (simp add: config_known_def)

lemma config_known_cong:
  "bar (inst t) = bar (inst s) \<Longrightarrow> config_bar_idx (inst t) = config_bar_idx (inst s) \<Longrightarrow>
   config_known K t c = config_known K s c"
  by (simp add: config_known_def config_base_def Let_def)

lemma config_known_base: "config_known K s c \<Longrightarrow> config_base s = Some (mapped_ptr K c)"
  by (simp add: config_known_def)

section \<open>Finding engines\<close>

definition engine_offset :: "bool \<Rightarrow> nat \<Rightarrow> nat" where
  "engine_offset dir_to_dev ch = (if dir_to_dev then 0 else H2C_CHANNEL_OFFSET) + ch * CHANNEL_SPACING"

definition engine_id_matches :: "bool \<Rightarrow> nat \<Rightarrow> u32 \<Rightarrow> u32 \<Rightarrow> bool" where
  "engine_id_matches dir_to_dev ch v w \<longleftrightarrow>
     drop_bit 16 (v AND 0xffff0000) = (if dir_to_dev then XDMA_ID_H2C else XDMA_ID_C2H)
     \<and> drop_bit 8 (w AND 0x00000f00) = of_nat ch"

text \<open>The engine of a direction and channel as a stable register file shows it.\<close>

definition engine_at :: "(u64 \<Rightarrow> u32) \<Rightarrow> u64 \<Rightarrow> bool \<Rightarrow> nat \<Rightarrow> bool" where
  "engine_at f base dir_to_dev ch \<longleftrightarrow>
     (let v = f (base + of_nat (engine_offset dir_to_dev ch)) in engine_id_matches dir_to_dev ch v v)"

text \<open>The registers the engines are recognised by.\<close>

definition engine_id_regs :: "pci_kernel \<Rightarrow> nat \<Rightarrow> u64 set" where
  "engine_id_regs K c = (\<Union>d. \<Union>ch < XDMA_CHANNEL_NUM_MAX. {mapped_ptr K c + of_nat (engine_offset d ch)})"

definition note_engine :: "bool \<times> nat \<Rightarrow> dev_inst \<Rightarrow> dev_inst" where
  "note_engine = (\<lambda>(dir_to_dev, ch) d.
     if dir_to_dev
     then d\<lparr>h2c_count := h2c_count d + 1, h2c_engine := if h2c_engine d = -1 then int ch else h2c_engine d\<rparr>
     else d\<lparr>c2h_count := c2h_count d + 1, c2h_engine := if c2h_engine d = -1 then int ch else c2h_engine d\<rparr>)"

lemma engine_offset_bound: "ch < XDMA_CHANNEL_NUM_MAX \<Longrightarrow> engine_offset d ch + 0x100 \<le> XDMA_BAR_SIZE"
  by (simp add: engine_offset_def xdma_consts)

lemma h2c_engine_noop [simp]:
  "d\<lparr>h2c_engine := h2c_engine d\<rparr> = d" "d\<lparr>c2h_engine := c2h_engine d\<rparr> = d"
  by simp_all

lemma probe_for_engine_eq:
  assumes "config_known K s c" and "windows_sane K" and "ch < XDMA_CHANNEL_NUM_MAX"
    and a_def: "a = mapped_ptr K c + of_nat (engine_offset dir ch)"
  shows "probe_for_engine K dir ch s = Some (0,
    upd_inst (if engine_id_matches dir ch (k_ioread32 K (klog s) a)
                   (k_ioread32 K (klog s @ [Ioread32 a]) a)
              then note_engine (dir, ch) else id)
      (call (Ioread32 a) (call (Ioread32 a) s)))"
proof -
  have nz: "a \<noteq> 0"
    unfolding a_def using engine_offset_bound [OF assms(3), of dir]
    by (intro config_reg_ok(2) [OF assms(1,2)]) simp
  show ?thesis
    using nz config_known_base [OF assms(1)]
    by (cases dir)
      (simp_all add: probe_for_engine_def a_def engine_offset_def get_engine_id_def
        get_engine_channel_id_def ioread32_def layout_simps engine_id_matches_def note_engine_def Let_def)
qed

text \<open>What the loop over the channels leaves behind: the reads, and the engines noted in order.\<close>

definition both_dirs :: "nat list \<Rightarrow> (bool \<times> nat) list" where
  "both_dirs chs = concat (map (\<lambda>ch. [(True, ch), (False, ch)]) chs)"

definition noted :: "pci_kernel \<Rightarrow> (bool \<times> nat) list \<Rightarrow> drv \<Rightarrow> drv \<Rightarrow> bool" where
  "noted K hs s t \<longleftrightarrow> inst t = fold note_engine hs (inst s)
     \<and> drvdata t = drvdata s \<and> misc_dev_node t = misc_dev_node s \<and> bypass_node t = bypass_node s
     \<and> held t = held s \<and> (accesses_ok K s \<longrightarrow> accesses_ok K t)"

lemma noted_trans: "noted K hs s t \<Longrightarrow> noted K is t u \<Longrightarrow> noted K (hs @ is) s u"
  by (simp add: noted_def)

lemma note_engine_frame [simp]:
  "bar (note_engine h d) = bar d" "config_bar_idx (note_engine h d) = config_bar_idx d"
  by (simp_all add: note_engine_def split: prod.split)

lemma fold_note_frame [simp]:
  "bar (fold note_engine hs d) = bar d" "config_bar_idx (fold note_engine hs d) = config_bar_idx d"
  by (induction hs arbitrary: d) simp_all

lemma noted_config_known: "noted K hs s t \<Longrightarrow> config_known K t c = config_known K s c"
  by (rule config_known_cong) (simp_all add: noted_def)

text \<open>The engines noted are among the candidates, and with stable registers exactly those there.\<close>

definition found_engines :: "pci_kernel \<Rightarrow> nat \<Rightarrow> (bool \<times> nat) list \<Rightarrow> (bool \<times> nat) list \<Rightarrow> bool" where
  "found_engines K c cands hs \<longleftrightarrow> set hs \<subseteq> set cands
     \<and> (\<forall>f. (\<forall>log. \<forall>a \<in> engine_id_regs K c. k_ioread32 K log a = f a) \<longrightarrow>
          hs = filter (\<lambda>(d, i). engine_at f (mapped_ptr K c) d i) cands)"

lemma found_engines_append:
  "found_engines K c xs hs \<Longrightarrow> found_engines K c ys is \<Longrightarrow> found_engines K c (xs @ ys) (hs @ is)"
  unfolding found_engines_def by (metis Un_mono filter_append set_append)

lemma probe_for_engine_noted:
  assumes "config_known K s c" and "windows_sane K" and "ch < XDMA_CHANNEL_NUM_MAX"
  shows "\<exists>hs t. probe_for_engine K dir ch s = Some (0, t) \<and> noted K hs s t
    \<and> found_engines K c [(dir, ch)] hs"
proof -
  let ?a = "mapped_ptr K c + of_nat (engine_offset dir ch)"
  let ?hit = "engine_id_matches dir ch (k_ioread32 K (klog s) ?a)
    (k_ioread32 K (klog s @ [Ioread32 ?a]) ?a)"
  let ?t = "upd_inst (if ?hit then note_engine (dir, ch) else id)
      (call (Ioread32 ?a) (call (Ioread32 ?a) s))"
  have "in_window K ?a"
    using engine_offset_bound [OF assms(3), of dir]
    by (intro config_reg_ok(1) [OF assms(1,2)]) simp
  then have "noted K (if ?hit then [(dir, ch)] else []) s ?t"
    by (simp add: noted_def)
  moreover have "found_engines K c [(dir, ch)] (if ?hit then [(dir, ch)] else [])"
    using assms(3) by (auto simp: found_engines_def engine_at_def engine_id_regs_def Let_def)
  ultimately show ?thesis
    using probe_for_engine_eq [OF assms refl, of dir] by blast
qed

lemma probe_channels_noted:
  assumes "config_known K s c" and "windows_sane K" and "set chs \<subseteq> {0 ..< XDMA_CHANNEL_NUM_MAX}"
  shows "\<exists>hs t. probe_channels K chs s = Some (0, t) \<and> noted K hs s t
    \<and> found_engines K c (both_dirs chs) hs"
  using assms
proof (induction chs arbitrary: s)
  case Nil
  have "noted K [] s s" "found_engines K c (both_dirs []) []"
    by (simp_all add: noted_def found_engines_def both_dirs_def)
  then show ?case by auto
next
  case (Cons ch chs)
  have ch: "ch < XDMA_CHANNEL_NUM_MAX" using Cons.prems by simp
  obtain h1 t1 where 1: "probe_for_engine K True ch s = Some (0, t1)" "noted K h1 s t1"
      "found_engines K c [(True, ch)] h1"
    using probe_for_engine_noted [OF Cons.prems(1,2) ch] by blast
  have k1: "config_known K t1 c" using noted_config_known [OF 1(2)] Cons.prems(1) by simp
  obtain h2 t2 where 2: "probe_for_engine K False ch t1 = Some (0, t2)" "noted K h2 t1 t2"
      "found_engines K c [(False, ch)] h2"
    using probe_for_engine_noted [OF k1 Cons.prems(2) ch] by blast
  have k2: "config_known K t2 c" using noted_config_known [OF 2(2)] k1 by simp
  obtain h3 t3 where 3: "probe_channels K chs t2 = Some (0, t3)" "noted K h3 t2 t3"
      "found_engines K c (both_dirs chs) h3"
    using Cons.IH [OF k2] Cons.prems by auto
  have "probe_channels K (ch # chs) s = Some (0, t3)" using 1(1) 2(1) 3(1) by simp
  moreover have "noted K (h1 @ h2 @ h3) s t3"
    by (rule noted_trans [OF 1(2) noted_trans [OF 2(2) 3(2)]])
  moreover have "found_engines K c (both_dirs (ch # chs)) (h1 @ h2 @ h3)"
    using found_engines_append [OF 1(3) found_engines_append [OF 2(3) 3(3)]]
    by (simp add: both_dirs_def)
  ultimately show ?case by blast
qed

section \<open>The engines the driver settles on\<close>

fun first_channel :: "nat list \<Rightarrow> int" where
  "first_channel [] = -1"
| "first_channel (ch # chs) = int ch"

lemma fold_note_h2c:
  "h2c_count (fold note_engine hs d) = h2c_count d + int (length (filter fst hs))"
  "h2c_engine (fold note_engine hs d) =
     (if h2c_engine d = -1 then first_channel (map snd (filter fst hs)) else h2c_engine d)"
  by (induction hs arbitrary: d) (auto simp: note_engine_def)

lemma fold_note_c2h:
  "c2h_count (fold note_engine hs d) = c2h_count d + int (length (filter (Not \<circ> fst) hs))"
  "c2h_engine (fold note_engine hs d) =
     (if c2h_engine d = -1 then first_channel (map snd (filter (Not \<circ> fst) hs)) else c2h_engine d)"
  by (induction hs arbitrary: d) (auto simp: note_engine_def)

definition engine_frame :: "dev_inst \<Rightarrow> dev_inst \<Rightarrow> bool" where
  "engine_frame d d' \<longleftrightarrow> (\<exists>m n i j p q b. d' = d\<lparr>h2c_count := m, c2h_count := n, h2c_engine := i,
     c2h_engine := j, h2c_regs := p, c2h_regs := q, desc_bypass_enabled := b\<rparr>)"

lemma fold_note_engine_frame:
  "\<exists>m n i j. fold note_engine hs d = d\<lparr>h2c_count := m, c2h_count := n, h2c_engine := i, c2h_engine := j\<rparr>"
proof (induction hs arbitrary: d)
  case Nil
  show ?case
    by (intro exI [of _ "h2c_count d"] exI [of _ "c2h_count d"] exI [of _ "h2c_engine d"]
        exI [of _ "c2h_engine d"]) simp
next
  case (Cons h hs)
  obtain m n i j where "fold note_engine hs (note_engine h d) =
      (note_engine h d)\<lparr>h2c_count := m, c2h_count := n, h2c_engine := i, c2h_engine := j\<rparr>"
    using Cons.IH by blast
  then have "fold note_engine (h # hs) d = d\<lparr>h2c_count := m, c2h_count := n, h2c_engine := i, c2h_engine := j\<rparr>"
    by (simp add: note_engine_def split: prod.split)
  then show ?case by blast
qed

lemma both_dirs_split:
  "map snd (filter fst (filter (\<lambda>(d, i). P d i) (both_dirs chs))) = filter (P True) chs"
  "map snd (filter (Not \<circ> fst) (filter (\<lambda>(d, i). P d i) (both_dirs chs))) = filter (P False) chs"
  by (induction chs) (simp_all add: both_dirs_def)

lemma first_channel_neg: "first_channel chs = -1 \<longleftrightarrow> chs = []"
  by (cases chs) simp_all

text \<open>\<open>probe_engines\<close> in terms of the engines its loop notes.\<close>

lemma probe_engines_noted:
  assumes "config_known K s c" and "windows_sane K"
  obtains hs t where "found_engines K c (both_dirs [0 ..< XDMA_CHANNEL_NUM_MAX]) hs"
    and "noted K hs (upd_inst (\<lambda>d. d\<lparr>h2c_count := 0, c2h_count := 0, h2c_engine := -1, c2h_engine := -1\<rparr>) s) t"
    and "h2c_count (inst t) = int (length (filter fst hs))"
    and "c2h_count (inst t) = int (length (filter (Not \<circ> fst) hs))"
    and "h2c_engine (inst t) = first_channel (map snd (filter fst hs))"
    and "c2h_engine (inst t) = first_channel (map snd (filter (Not \<circ> fst) hs))"
    and "config_known K t c"
    and "probe_engines K s =
      (if filter fst hs = [] \<or> filter (Not \<circ> fst) hs = [] then Some (- ENODEV, t)
       else
         let h = mapped_ptr K c + of_nat (engine_offset False (snd (hd (filter fst hs))));
             g = mapped_ptr K c + of_nat (engine_offset True (snd (hd (filter (Not \<circ> fst) hs))));
             u = upd_inst (\<lambda>d. d\<lparr>h2c_regs := h, c2h_regs := g, desc_bypass_enabled := True\<rparr>) t
         in Some (0, call Mmiowb (call (Iowrite32 1 (g + 4)) (call (Iowrite32 1 (h + 4)) u))))"
proof -
  let ?s = "upd_inst (\<lambda>d. d\<lparr>h2c_count := 0, c2h_count := 0, h2c_engine := -1, c2h_engine := -1\<rparr>) s"
  have "config_known K ?s c" using assms(1) config_known_cong [of ?s s] by simp
  then obtain hs t where t: "probe_channels K [0 ..< XDMA_CHANNEL_NUM_MAX] ?s = Some (0, t)"
      "noted K hs ?s t" "found_engines K c (both_dirs [0 ..< XDMA_CHANNEL_NUM_MAX]) hs"
    using probe_channels_noted [OF _ assms(2), of ?s c "[0 ..< XDMA_CHANNEL_NUM_MAX]"] by auto
  have kt: "config_known K t c"
    using noted_config_known [OF t(2)] \<open>config_known K ?s c\<close> by simp
  have sel: "h2c_count (inst t) = int (length (filter fst hs))"
    "c2h_count (inst t) = int (length (filter (Not \<circ> fst) hs))"
    "h2c_engine (inst t) = first_channel (map snd (filter fst hs))"
    "c2h_engine (inst t) = first_channel (map snd (filter (Not \<circ> fst) hs))"
    using t(2) by (simp_all add: noted_def fold_note_h2c fold_note_c2h)
  note defs = probe_engines_def t(1) sel first_channel_neg
  show ?thesis
  proof (rule that [OF t(3,2) sel kt])
    show "probe_engines K s =
      (if filter fst hs = [] \<or> filter (Not \<circ> fst) hs = [] then Some (- ENODEV, t)
       else
         let h = mapped_ptr K c + of_nat (engine_offset False (snd (hd (filter fst hs))));
             g = mapped_ptr K c + of_nat (engine_offset True (snd (hd (filter (Not \<circ> fst) hs))));
             u = upd_inst (\<lambda>d. d\<lparr>h2c_regs := h, c2h_regs := g, desc_bypass_enabled := True\<rparr>) t
         in Some (0, call Mmiowb (call (Iowrite32 1 (g + 4)) (call (Iowrite32 1 (h + 4)) u))))"
      using config_known_base [OF kt]
      by (cases "filter fst hs"; cases "filter (Not \<circ> fst) hs")
        (simp_all add: defs engine_offset_def layout_simps Let_def call_def C2H_CHANNEL_OFFSET_def)
  qed
qed

text \<open>Whatever the registers answer, the search neither faults nor leaves the mapped window.\<close>

lemma probe_engines_safe:
  assumes "config_known K s c" and "windows_sane K"
  shows "\<exists>rc t. probe_engines K s = Some (rc, t) \<and> rc \<in> {0, - ENODEV}
    \<and> engine_frame (inst s) (inst t) \<and> held t = held s
    \<and> drvdata t = drvdata s \<and> misc_dev_node t = misc_dev_node s \<and> bypass_node t = bypass_node s
    \<and> (accesses_ok K s \<longrightarrow> accesses_ok K t)
    \<and> (rc = 0 \<longrightarrow> (\<exists>i j. i < XDMA_CHANNEL_NUM_MAX \<and> j < XDMA_CHANNEL_NUM_MAX
         \<and> h2c_regs (inst t) = mapped_ptr K c + of_nat (engine_offset False i)
         \<and> c2h_regs (inst t) = mapped_ptr K c + of_nat (engine_offset True j)))"
proof (rule probe_engines_noted [OF assms], goal_cases)
  case (1 hs t)
  obtain m n i j where "fold note_engine hs ((inst s)\<lparr>h2c_count := 0, c2h_count := 0, h2c_engine := -1, c2h_engine := -1\<rparr>)
    = (inst s)\<lparr>h2c_count := m, c2h_count := n, h2c_engine := i, c2h_engine := j\<rparr>"
    using fold_note_engine_frame [of hs
        "(inst s)\<lparr>h2c_count := 0, c2h_count := 0, h2c_engine := -1, c2h_engine := -1\<rparr>"] by auto
  then have it: "inst t = (inst s)\<lparr>h2c_count := m, c2h_count := n, h2c_engine := i, c2h_engine := j\<rparr>"
    using 1(2) by (simp add: noted_def)
  have frame: "engine_frame (inst s) ((inst t)\<lparr>h2c_regs := p, c2h_regs := q, desc_bypass_enabled := b\<rparr>)" for p q b
    unfolding engine_frame_def it by (intro exI) (rule refl)
  have frame_t: "engine_frame (inst s) (inst t)"
    using frame [where p = "h2c_regs (inst t)" and q = "c2h_regs (inst t)"
        and b = "desc_bypass_enabled (inst t)"] by simp
  show ?case
  proof (cases "filter fst hs = [] \<or> filter (Not \<circ> fst) hs = []")
    case True
    with 1 frame_t show ?thesis by (auto simp: noted_def ENODEV_def)
  next
    case False
    let ?i = "snd (hd (filter fst hs))" and ?j = "snd (hd (filter (Not \<circ> fst) hs))"
    let ?h = "mapped_ptr K c + of_nat (engine_offset False ?i)"
    let ?g = "mapped_ptr K c + of_nat (engine_offset True ?j)"
    have snd_less: "snd h < XDMA_CHANNEL_NUM_MAX" if "h \<in> set hs" for h
      using 1(1) that by (auto simp: found_engines_def both_dirs_def dest!: subsetD)
    have "hd (filter fst hs) \<in> set hs" "hd (filter (Not \<circ> fst) hs) \<in> set hs"
      using False hd_in_set [of "filter fst hs"] hd_in_set [of "filter (Not \<circ> fst) hs"] by auto
    then have ij: "?i < XDMA_CHANNEL_NUM_MAX" "?j < XDMA_CHANNEL_NUM_MAX"
      using snd_less by blast+
    have "in_window K (?h + 4)" "in_window K (?g + 4)"
      using config_reg_ok(1) [OF assms, of "engine_offset False ?i + 4"]
        config_reg_ok(1) [OF assms, of "engine_offset True ?j + 4"]
        engine_offset_bound [OF ij(1), of False] engine_offset_bound [OF ij(2), of True]
      by (simp_all add: add.assoc)
    with 1(2,8) False ij frame show ?thesis
      by (auto simp: noted_def Let_def)
  qed
qed

section \<open>Properties\<close>

lemma probe_engines_stable:
  assumes "config_known K s c" and "windows_sane K" and "\<forall>log. \<forall>a \<in> engine_id_regs K c. k_ioread32 K log a = f a"
    and "hs = filter (engine_at f (mapped_ptr K c) True) [0 ..< XDMA_CHANNEL_NUM_MAX]"
    and "gs = filter (engine_at f (mapped_ptr K c) False) [0 ..< XDMA_CHANNEL_NUM_MAX]"
  shows "\<exists>rc t. probe_engines K s = Some (rc, t)
    \<and> h2c_count (inst t) = int (length hs) \<and> c2h_count (inst t) = int (length gs)
    \<and> h2c_engine (inst t) = first_channel hs \<and> c2h_engine (inst t) = first_channel gs
    \<and> rc = (if hs = [] \<or> gs = [] then - ENODEV else 0)
    \<and> (rc = 0 \<longrightarrow> desc_bypass_enabled (inst t)
         \<and> h2c_regs (inst t) = mapped_ptr K c + of_nat (engine_offset False (hd hs))
         \<and> c2h_regs (inst t) = mapped_ptr K c + of_nat (engine_offset True (hd gs)))"
proof (rule probe_engines_noted [OF assms(1,2)], goal_cases)
  case (1 ns t)
  have "ns = filter (\<lambda>(d, i). engine_at f (mapped_ptr K c) d i) (both_dirs [0 ..< XDMA_CHANNEL_NUM_MAX])"
    using 1(1) assms(3) by (simp add: found_engines_def)
  then have m: "map snd (filter fst ns) = hs" "map snd (filter (Not \<circ> fst) ns) = gs"
    using both_dirs_split [of "engine_at f (mapped_ptr K c)" "[0 ..< XDMA_CHANNEL_NUM_MAX]"] assms(4,5)
    by simp_all
  then have e: "filter fst ns = [] \<longleftrightarrow> hs = []" "filter (Not \<circ> fst) ns = [] \<longleftrightarrow> gs = []"
    "length (filter fst ns) = length hs" "length (filter (Not \<circ> fst) ns) = length gs"
    by (metis map_is_Nil_conv, metis map_is_Nil_conv, metis length_map, metis length_map)
  have hd: "hs \<noteq> [] \<Longrightarrow> snd (hd (filter fst ns)) = hd hs"
    "gs \<noteq> [] \<Longrightarrow> snd (hd (filter (Not \<circ> fst) ns)) = hd gs"
    using m e(1,2) by (metis hd_map, metis hd_map)
  show ?case
  proof (cases "hs = [] \<or> gs = []")
    case True
    then show ?thesis using 1(3-6,8) by (auto simp: e m ENODEV_def)
  next
    case False
    then show ?thesis using 1(3-6,8) by (simp add: e m hd Let_def)
  qed
qed

text \<open>
  C21. The engines the driver settles on. With stable identifier registers, \<open>probe_engines\<close>
  counts the H2C and C2H engines that identify themselves on channels 0 to 3, uses the lowest
  channel of each direction, and reports \<open>-ENODEV\<close> exactly when a direction has none.
  The register pointers it then stores are crossed: \<open>h2c_regs\<close> is the address at which it
  looked for the C2H engine of that channel, and \<open>c2h_regs\<close> the one for the H2C engine.
\<close>

theorem probe_engines_correct:
  assumes "config_known K s c" and "windows_sane K" and "\<forall>log. \<forall>a \<in> engine_id_regs K c. k_ioread32 K log a = f a"
    and "hs = filter (engine_at f (mapped_ptr K c) True) [0 ..< XDMA_CHANNEL_NUM_MAX]"
    and "gs = filter (engine_at f (mapped_ptr K c) False) [0 ..< XDMA_CHANNEL_NUM_MAX]"
  shows "\<exists>rc t. probe_engines K s = Some (rc, t)
    \<and> h2c_count (inst t) = int (length hs) \<and> c2h_count (inst t) = int (length gs)
    \<and> h2c_engine (inst t) = first_channel hs \<and> c2h_engine (inst t) = first_channel gs
    \<and> rc = (if hs = [] \<or> gs = [] then - ENODEV else 0)
    \<and> (rc = 0 \<longrightarrow> desc_bypass_enabled (inst t)
         \<and> h2c_regs (inst t) = mapped_ptr K c + of_nat (engine_offset False (hd hs))
         \<and> c2h_regs (inst t) = mapped_ptr K c + of_nat (engine_offset True (hd gs)))"
  using assms by (rule probe_engines_stable)

text \<open>The state the concrete card is in once its BARs are mapped.\<close>

definition fresh_mapped :: drv where
  "fresh_mapped = fresh\<lparr>inst := (inst fresh)\<lparr>bar := [0x100000, 0x200000, 0x300000, 0, 0, 0],
     user_bar_idx := 0, config_bar_idx := 1, bypass_bar_idx := 2\<rparr>\<rparr>"

lemma fresh_mapped_config: "config_known alveo fresh_mapped 1"
  by (simp add: config_known_def config_base_def fresh_mapped_def alveo_bars xdma_consts)

lemma alveo_engines:
  "[0] = filter (engine_at alveo_reg (mapped_ptr alveo 1) True) [0 ..< XDMA_CHANNEL_NUM_MAX]"
  "[0] = filter (engine_at alveo_reg (mapped_ptr alveo 1) False) [0 ..< XDMA_CHANNEL_NUM_MAX]"
  by (simp_all add: alveo_bars upt_rec engine_at_def engine_offset_def alveo_reg_def
      engine_id_matches_def xdma_consts)

theorem probe_engines_correct_witness:
  "\<exists>t. probe_engines alveo fresh_mapped = Some (0, t) \<and> h2c_count (inst t) = 1
    \<and> h2c_engine (inst t) = 0 \<and> h2c_regs (inst t) = 0x201000 \<and> c2h_regs (inst t) = 0x200000"
proof -
  have "\<forall>log. \<forall>a \<in> engine_id_regs alveo 1. k_ioread32 alveo log a = alveo_reg a" by (simp add: alveo_def)
  from probe_engines_correct [OF fresh_mapped_config alveo_windows this alveo_engines] show ?thesis
    by (auto simp: alveo_bars engine_offset_def xdma_consts)
qed

text \<open>
  The MSI-X vector table. \<open>write_msix_vectors\<close> performs six register writes and they give
  the sixteen user interrupts the vectors 0 to 15 and the eight channel interrupts the vectors
  16 to 23: byte \<open>b\<close> of the \<open>i\<close>-th word written is \<open>4 * i + b\<close>. Every write is in bounds.
\<close>

theorem write_msix_vectors_table:
  assumes "config_known K s c" and "windows_sane K" and "accesses_ok K s"
  shows "\<exists>t. write_msix_vectors s = Some t \<and> accesses_ok K t \<and> inst t = inst s
    \<and> (\<exists>ws. klog t = klog s @ map (\<lambda>(v, off). Iowrite32 v (mapped_ptr K c + of_nat (XDMA_OFS_INT_CTRL + off))) ws
       \<and> map snd ws = [0x80, 0x84, 0x88, 0x8C, 0xA0, 0xA4]
       \<and> (\<forall>i < 6. \<forall>b < 4. drop_bit (8 * b) (fst (ws ! i)) AND 0xff = of_nat (4 * i + b)))"
proof -
  let ?ws = "[(build_vector_reg 0 1 2 3, 0x80 :: nat), (build_vector_reg 4 5 6 7, 0x84),
    (build_vector_reg 8 9 10 11, 0x88), (build_vector_reg 12 13 14 15, 0x8C),
    (build_vector_reg 16 17 18 19, 0xA0), (build_vector_reg 20 21 22 23, 0xA4)]"
  let ?evs = "map (\<lambda>(v, off). Iowrite32 v (mapped_ptr K c + of_nat (XDMA_OFS_INT_CTRL + off))) ?ws"
  have "write_msix_vectors s = Some (fold call ?evs s)"
    using config_known_base [OF assms(1)]
    by (simp add: write_msix_vectors_def reg_elem_def layout_simps Let_def add.assoc)
  moreover have "in_window K (mapped_ptr K c + of_nat (XDMA_OFS_INT_CTRL + off))" if "off \<le> 0xA4" for off
    using that by (intro config_reg_ok(1) [OF assms(1,2)]) (simp add: xdma_consts)
  then have "accesses_ok K (fold call ?evs s)" using assms(3) by (simp del: of_nat_add)
  moreover have "drop_bit (8 * b) (fst (?ws ! i)) AND 0xff = of_nat (4 * i + b)"
    if "i < 6" and "b < 4" for i b :: nat
  proof -
    have "i \<in> {0, 1, 2, 3, 4, 5}" "b \<in> {0, 1, 2, 3}" using that by auto
    then show ?thesis by (auto simp: build_vector_reg_def)
  qed
  ultimately show ?thesis
    by (intro exI [of _ "fold call ?evs s"] conjI exI [of _ ?ws]) simp_all
qed

theorem write_msix_vectors_table_witness:
  "\<exists>t. write_msix_vectors fresh_mapped = Some t \<and> accesses_ok alveo t \<and> inst t = inst fresh_mapped"
  using write_msix_vectors_table [OF fresh_mapped_config alveo_windows]
  by (auto simp: fresh_mapped_def fresh_def loaded_def accesses_ok_def)

end
