(* ===== verification/Xdma_Probe.thy ===== *)
theory Xdma_Probe
  imports Xdma_Engines
begin

text \<open>
  Attaching to and detaching from a card: \<open>probe\<close> and \<open>remove\<close> of \<open>sw/driver/xdma_driver.c\<close>, with
  the labels \<open>err_misc_register\<close> to \<open>err_enable\<close> of \<open>probe\<close> as functions that fall through to each
  other, and the module's entry points.
\<close>

section \<open>Operations\<close>

definition pci_ids :: "(u16 \<times> u16) list" where
  "pci_ids = map (Pair 0x10ee)
      [
       0x9011, 0x9012, 0x9014, 0x9018, 0x901F, 0x9021, 0x9022, 0x9024, 0x9028, 0x902F,
       0x9031, 0x9032, 0x9034, 0x9038, 0x903F, 0x8011, 0x8012, 0x8014, 0x8018, 0x8021,
       0x8022, 0x8024, 0x8028, 0x8031, 0x8032, 0x8034, 0x8038, 0x7011, 0x7012, 0x7014,
       0x7018, 0x7021, 0x7022, 0x7024, 0x7028, 0x7031, 0x7032, 0x7034, 0x7038]
     @ [(0, 0)]"

definition DRV_NAME :: string where "DRV_NAME = ''xdma_driver''"

definition err_enable :: "drv \<Rightarrow> drv" where
  "err_enable s = call Kfree s"

definition err_scan_msi :: "drv \<Rightarrow> drv" where
  "err_scan_msi s = err_enable (if \<not> regions_in_use (inst s) then call PciDisableDevice s else s)"

definition err_regions :: "drv \<Rightarrow> drv" where
  "err_regions s = err_scan_msi (if msi_enabled (inst s) then call PciDisableMsi s else s)"

definition err_map :: "drv \<Rightarrow> drv" where
  "err_map s = err_regions (if got_regions (inst s) then call PciReleaseRegions s else s)"

definition err_mask :: "drv \<Rightarrow> drv" where
  "err_mask s = err_map (unmap_bars s)"

definition err_engines :: "drv \<Rightarrow> drv" where
  "err_engines s = err_mask (irq_teardown s)"

text \<open>The end of \<open>probe\<close>: clearing pending events and creating the two device nodes.\<close>

definition probe_nodes :: "pci_kernel \<Rightarrow> u64 \<Rightarrow> drv \<Rightarrow> int \<times> drv" where
  "probe_nodes K pdev s =
     (let s = iowrite32 0xFFFFFFFF (h2c_regs (inst s) + of_nat (offset_of engine_regs ''status'')) s;
          s = iowrite32 0xFFFFFFFF (c2h_regs (inst s) + of_nat (offset_of engine_regs ''status'')) s;
          s = s\<lparr>misc_dev_node := \<lparr>misc_minor = MISC_DYNAMIC_MINOR, misc_name = ''xdma_control'',
                 misc_fops = Xdma_fops, misc_parent = pdev\<rparr>\<rparr>;
          rc = k_misc_register K (misc_name (misc_dev_node s));
          s = call (MiscRegister (misc_name (misc_dev_node s)) rc) s
      in if rc < 0 then (rc, err_engines s)
         else
           let s = s\<lparr>bypass_node := \<lparr>misc_minor = MISC_DYNAMIC_MINOR, misc_name = ''xdma_bypass'',
                      misc_fops = Xdma_bypass_fops, misc_parent = pdev\<rparr>\<rparr>;
               rc = k_misc_register K (misc_name (bypass_node s));
               s = call (MiscRegister (misc_name (bypass_node s)) rc) s
           in if rc < 0 then (rc, err_engines s)
              else if rc = 0 then (rc, s)
              else (rc, err_engines s))"

definition probe :: "pci_kernel \<Rightarrow> u64 \<Rightarrow> drv \<Rightarrow> (int \<times> drv) option" where
  "probe K pdev s = do {
     (p, s) \<leftarrow> alloc_dev_instance K pdev s;
     if p = 0 then Some (0, s)
     else do {
       let rc = k_pci_enable_device K;
       let s = call (PciEnableDevice rc) s;
       if rc \<noteq> 0 then Some (rc, err_enable s)
       else do {
         let s = call PciSetMaster s;
         (rc, s) \<leftarrow> probe_scan_for_msi K pdev s;
         if rc < 0 then Some (rc, err_scan_msi s)
         else do {
           (rc, s) \<leftarrow> request_regions K pdev s;
           if rc \<noteq> 0 then Some (rc, err_regions s)
           else do {
             let (rc, s) = map_bars K s;
             if rc \<noteq> 0 then Some (rc, err_map s)
             else do {
               (rc, s) \<leftarrow> set_dma_mask K pdev s;
               if rc \<noteq> 0 then Some (rc, err_mask s)
               else do {
                 (rc, s) \<leftarrow> probe_engines K s;
                 if rc \<noteq> 0 then Some (rc, err_engines s)
                 else Some (probe_nodes K pdev s) } } } } } } }"

text \<open>
  \<open>remove\<close>: its guard for a NULL device logs the device's driver data, which dereferences it.
\<close>

definition remove :: "u64 \<Rightarrow> drv \<Rightarrow> drv option" where
  "remove pdev s =
     (if pdev = 0 then None
      else if drvdata s = 0 then Some s
      else
        let s = call (MiscDeregister (misc_name (misc_dev_node s))) s;
            s = call (MiscDeregister (misc_name (bypass_node s))) s;
            s = unmap_bars s;
            s = (if got_regions (inst s) then call PciReleaseRegions s else s);
            s = (if msix_enabled (inst s)
                 then upd_inst (\<lambda>d. d\<lparr>msix_enabled := False\<rparr>) (call PciDisableMsix s)
                 else if msi_enabled (inst s)
                 then upd_inst (\<lambda>d. d\<lparr>msi_enabled := False\<rparr>) (call PciDisableMsi s)
                 else s);
            s = (if \<not> regions_in_use (inst s) then call PciDisableDevice s else s)
        in Some (call Kfree s))"

definition xdma_driver_init :: "pci_kernel \<Rightarrow> drv \<Rightarrow> int \<times> drv" where
  "xdma_driver_init K s =
     (let rc = k_pci_register_driver K in (rc, call (PciRegisterDriver DRV_NAME rc) s))"

definition xdma_driver_exit :: "drv \<Rightarrow> drv" where
  "xdma_driver_exit s = call (PciUnregisterDriver DRV_NAME) s"

section \<open>The resources an instance accounts for\<close>

text \<open>
  What the flags and the BAR array of an instance claim to hold. \<open>tracks\<close> says the claim is true:
  this is the invariant of \<open>probe\<close> from \<open>pci_enable_device\<close> on.
\<close>

definition accounted :: "dev_inst \<Rightarrow> resource set" where
  "accounted d = {RInst, RDevice} \<union> (if msi_enabled d then {RMsi} else {})
     \<union> (if msix_enabled d then {RMsix} else {}) \<union> (if got_regions d then {RRegions} else {})
     \<union> RMap ` (set (bar d) - {0})"

definition tracks :: "drv \<Rightarrow> bool" where
  "tracks s \<longleftrightarrow> held s = accounted (inst s) \<and> length (bar (inst s)) = XDMA_BAR_NUM
     \<and> \<not> regions_in_use (inst s)"

text \<open>What the error labels leave behind: MSI-X is never disabled on these paths.\<close>

definition msix_left :: "dev_inst \<Rightarrow> resource set" where
  "msix_left d = (if msix_enabled d then {RMsix} else {})"

lemma err_mask_held:
  assumes "held s = accounted (inst s) \<union> R" and "length (bar (inst s)) = XDMA_BAR_NUM"
    and "\<not> regions_in_use (inst s)" and "R \<subseteq> range RMisc"
  shows "held (err_mask s) = msix_left (inst s) \<union> R"
  using assms
  by (auto simp: err_mask_def err_map_def err_regions_def err_scan_msi_def err_enable_def
      accounted_def msix_left_def)

lemma err_engines_held:
  assumes "held s = accounted (inst s) \<union> R" and "length (bar (inst s)) = XDMA_BAR_NUM"
    and "\<not> regions_in_use (inst s)" and "R \<subseteq> range RMisc"
  shows "held (err_engines s) = msix_left (inst s) \<union> R"
  using assms err_mask_held [of "irq_teardown s" R]
  by (simp add: err_engines_def irq_teardown_def)

lemma err_map_held:
  assumes "tracks s" and "bar (inst s) = replicate XDMA_BAR_NUM 0"
  shows "held (err_map s) = msix_left (inst s)"
  using assms
  by (auto simp: err_map_def err_regions_def err_scan_msi_def err_enable_def
      accounted_def msix_left_def tracks_def)

lemma err_labels_accesses:
  assumes "length (bar (inst s)) = XDMA_BAR_NUM" and "accesses_ok K s"
  shows "accesses_ok K (err_engines s)" "accesses_ok K (err_mask s)" "accesses_ok K (err_map s)"
  using assms
  by (simp_all add: err_engines_def irq_teardown_def err_mask_def err_map_def err_regions_def
      err_scan_msi_def err_enable_def)

lemma err_labels_node:
  assumes "length (bar (inst s)) = XDMA_BAR_NUM"
  shows "bypass_node (err_engines s) = bypass_node s" "bypass_node (err_mask s) = bypass_node s"
    "bypass_node (err_map s) = bypass_node s"
  using assms
  by (simp_all add: err_engines_def irq_teardown_def err_mask_def err_map_def err_regions_def
      err_scan_msi_def err_enable_def)

section \<open>Outcomes\<close>

text \<open>
  The kernel functions that report 0 or a negative error number, as their documentation says.
\<close>

definition kernel_rcs :: "pci_kernel \<Rightarrow> bool" where
  "kernel_rcs K \<longleftrightarrow> k_pci_enable_msix_exact K \<le> 0 \<and> k_pci_enable_msi K \<le> 0
     \<and> k_misc_register K ''xdma_control'' \<le> 0 \<and> k_misc_register K ''xdma_bypass'' \<le> 0"

text \<open>The driver attached to a card, and the leftovers of a failed \<open>probe\<close>.\<close>

definition attached :: "pci_kernel \<Rightarrow> u64 \<Rightarrow> drv \<Rightarrow> bool" where
  "attached K pdev t \<longleftrightarrow> length (bar (inst t)) = XDMA_BAR_NUM \<and> \<not> regions_in_use (inst t)
     \<and> got_regions (inst t) \<and> pci_dev (inst t) = pdev \<and> (\<exists>c. config_known K t c)
     \<and> \<not> (msi_enabled (inst t) \<and> msix_enabled (inst t))
     \<and> misc_name (misc_dev_node t) = ''xdma_control'' \<and> misc_parent (misc_dev_node t) = pdev
     \<and> misc_name (bypass_node t) = ''xdma_bypass'' \<and> misc_parent (bypass_node t) = pdev
     \<and> held t = accounted (inst t) \<union> {RMisc ''xdma_control'', RMisc ''xdma_bypass''}"

definition control_left :: "drv \<Rightarrow> resource set" where
  "control_left t = (if misc_name (bypass_node t) = ''xdma_bypass'' then {RMisc ''xdma_control''} else {})"

definition outcome :: "pci_kernel \<Rightarrow> u64 \<Rightarrow> resource set \<Rightarrow> drv \<Rightarrow> int \<Rightarrow> drv \<Rightarrow> bool" where
  "outcome K pdev R s rc t \<longleftrightarrow> (accesses_ok K s \<longrightarrow> accesses_ok K t)
     \<and> (rc = 0 \<longrightarrow> attached K pdev t \<and> drvdata t = drvdata s)
     \<and> (rc \<noteq> 0 \<longrightarrow> held t = R \<union> control_left t)"

lemma probe_nodes_outcome:
  assumes "tracks s" and "got_regions (inst s)" and "config_known K s c" and "windows_sane K"
    and "\<not> (msi_enabled (inst s) \<and> msix_enabled (inst s))" and "pci_dev (inst s) = pdev"
    and "i < XDMA_CHANNEL_NUM_MAX" and "j < XDMA_CHANNEL_NUM_MAX"
    and "h2c_regs (inst s) = mapped_ptr K c + of_nat (engine_offset False i)"
    and "c2h_regs (inst s) = mapped_ptr K c + of_nat (engine_offset True j)"
    and "kernel_rcs K" and "misc_name (bypass_node s) \<noteq> ''xdma_bypass''"
  shows "outcome K pdev (msix_left (inst s)) s (fst (probe_nodes K pdev s)) (snd (probe_nodes K pdev s))"
proof -
  let ?h = "h2c_regs (inst s) + 0x40" and ?g = "c2h_regs (inst s) + 0x40"
  let ?m = "\<lparr>misc_minor = MISC_DYNAMIC_MINOR, misc_name = ''xdma_control'', misc_fops = Xdma_fops, misc_parent = pdev\<rparr>"
  let ?b = "\<lparr>misc_minor = MISC_DYNAMIC_MINOR, misc_name = ''xdma_bypass'', misc_fops = Xdma_bypass_fops, misc_parent = pdev\<rparr>"
  let ?rm = "k_misc_register K ''xdma_control''" and ?rb = "k_misc_register K ''xdma_bypass''"
  define s1 where "s1 = call (MiscRegister ''xdma_control'' ?rm)
    ((call (Iowrite32 0xFFFFFFFF ?g) (call (Iowrite32 0xFFFFFFFF ?h) s))\<lparr>misc_dev_node := ?m\<rparr>)"
  define s2 where "s2 = call (MiscRegister ''xdma_bypass'' ?rb) (s1\<lparr>bypass_node := ?b\<rparr>)"
  have w: "in_window K ?h" "in_window K ?g"
    using config_reg_ok(1) [OF assms(3,4), of "engine_offset False i + 0x40"]
      config_reg_ok(1) [OF assms(3,4), of "engine_offset True j + 0x40"]
      engine_offset_bound [OF assms(7), of False] engine_offset_bound [OF assms(8), of True] assms(9,10)
    by (simp_all add: add.assoc)
  have eq: "probe_nodes K pdev s =
      (if ?rm < 0 then (?rm, err_engines s1) else if ?rb = 0 then (?rb, s2) else (?rb, err_engines s2))"
    by (simp add: probe_nodes_def Let_def layout_simps s1_def s2_def)
  have len: "length (bar (inst s)) = XDMA_BAR_NUM" "\<not> regions_in_use (inst s)" "held s = accounted (inst s)"
    using assms(1) by (simp_all add: tracks_def)
  have i12: "inst s1 = inst s" "inst s2 = inst s" "drvdata s2 = drvdata s" "bypass_node s1 = bypass_node s"
    "bypass_node s2 = ?b" "misc_dev_node s2 = ?m"
    by (simp_all add: s1_def s2_def)
  have acc: "accesses_ok K s \<Longrightarrow> accesses_ok K s1" "accesses_ok K s \<Longrightarrow> accesses_ok K s2"
    using w by (simp_all add: s1_def s2_def)
  have held1: "held s1 = accounted (inst s) \<union> (if ?rm = 0 then {RMisc ''xdma_control''} else {})"
    and held2: "held s2 = held s1 \<union> (if ?rb = 0 then {RMisc ''xdma_bypass''} else {})"
    using len by (auto simp: s1_def s2_def)
  consider (no_control) "?rm < 0" | (no_bypass) "?rm = 0" "?rb < 0" | (ok) "?rm = 0" "?rb = 0"
    using assms(11) by (fastforce simp: kernel_rcs_def)
  then show ?thesis
  proof cases
    case no_control
    then have "held (err_engines s1) = msix_left (inst s)"
      using err_engines_held [of s1 "{}"] held1 len i12 by simp
    with no_control eq assms(12) acc i12 len err_labels_accesses [of s1 K] err_labels_node [of s1] show ?thesis
      by (simp add: outcome_def control_left_def)
  next
    case no_bypass
    then have "held (err_engines s2) = msix_left (inst s) \<union> {RMisc ''xdma_control''}"
      using err_engines_held [of s2 "{RMisc ''xdma_control''}"] held1 held2 len i12 by simp
    with no_bypass eq acc i12 len err_labels_accesses [of s2 K] err_labels_node [of s2] show ?thesis
      by (simp add: outcome_def control_left_def)
  next
    case ok
    have "config_known K s2 c" using config_known_cong [of s2 s K c] assms(3) i12 by simp
    then have "attached K pdev s2"
      using assms(2,5,6) ok held1 held2 i12 len by (auto simp: attached_def)
    with ok eq acc i12 show ?thesis by (simp add: outcome_def)
  qed
qed

lemma engine_frame_tracks:
  assumes "engine_frame (inst s) (inst t)" and "held t = held s"
  shows "tracks t = tracks s" "got_regions (inst t) = got_regions (inst s)"
    "msi_enabled (inst t) = msi_enabled (inst s)" "msix_enabled (inst t) = msix_enabled (inst s)"
    "pci_dev (inst t) = pci_dev (inst s)" "bar (inst t) = bar (inst s)"
    "config_known K t c = config_known K s c" "msix_left (inst t) = msix_left (inst s)"
proof -
  obtain m n i j p q b where e: "inst t = (inst s)\<lparr>h2c_count := m, c2h_count := n, h2c_engine := i,
     c2h_engine := j, h2c_regs := p, c2h_regs := q, desc_bypass_enabled := b\<rparr>"
    using assms(1) unfolding engine_frame_def by blast
  show "tracks t = tracks s" "got_regions (inst t) = got_regions (inst s)"
    "msi_enabled (inst t) = msi_enabled (inst s)" "msix_enabled (inst t) = msix_enabled (inst s)"
    "pci_dev (inst t) = pci_dev (inst s)" "bar (inst t) = bar (inst s)"
    "msix_left (inst t) = msix_left (inst s)"
    by (simp_all add: e assms(2) tracks_def accounted_def msix_left_def)
  show "config_known K t c = config_known K s c"
    by (rule config_known_cong) (simp_all add: e)
qed

definition probe_mapped :: "pci_kernel \<Rightarrow> u64 \<Rightarrow> drv \<Rightarrow> (int \<times> drv) option" where
  "probe_mapped K pdev s = do {
     (rc, s) \<leftarrow> set_dma_mask K pdev s;
     if rc \<noteq> 0 then Some (rc, err_mask s)
     else do {
       (rc, s) \<leftarrow> probe_engines K s;
       if rc \<noteq> 0 then Some (rc, err_engines s)
       else Some (probe_nodes K pdev s) } }"

lemma probe_mapped_outcome:
  assumes "tracks s" and "got_regions (inst s)" and "config_known K s c" and "windows_sane K"
    and "\<not> (msi_enabled (inst s) \<and> msix_enabled (inst s))" and "pci_dev (inst s) = pdev" and "pdev \<noteq> 0"
    and "kernel_rcs K" and "misc_name (bypass_node s) \<noteq> ''xdma_bypass''"
  shows "\<exists>rc t. probe_mapped K pdev s = Some (rc, t) \<and> outcome K pdev (msix_left (inst s)) s rc t"
proof -
  let ?d = "k_dma_set_mask_and_coherent K"
  define s1 where "s1 = call (DmaSetMaskAndCoherent ?d) s"
  have 1: "inst s1 = inst s" "held s1 = held s" "bypass_node s1 = bypass_node s" "drvdata s1 = drvdata s"
    "accesses_ok K s1 = accesses_ok K s" "config_known K s1 c" "tracks s1"
    using assms(1,3) by (simp_all add: s1_def tracks_def)
  have len: "length (bar (inst s)) = XDMA_BAR_NUM" "\<not> regions_in_use (inst s)" "held s = accounted (inst s)"
    using assms(1) by (simp_all add: tracks_def)
  have eq: "probe_mapped K pdev s = (if ?d \<noteq> 0 then Some (?d, err_mask s1)
      else probe_engines K s1 \<bind> (\<lambda>(rc, s). if rc \<noteq> 0 then Some (rc, err_engines s)
             else Some (probe_nodes K pdev s)))"
    using assms(7) by (simp add: probe_mapped_def set_dma_mask_def s1_def Let_def)
  show ?thesis
  proof (cases "?d = 0")
    case False
    have "held (err_mask s1) = msix_left (inst s)"
      using err_mask_held [of s1 "{}"] 1 len by simp
    with False eq 1 len assms(9) err_labels_accesses [of s1 K] err_labels_node [of s1] show ?thesis
      by (simp add: outcome_def control_left_def)
  next
    case True
    obtain rc t where t: "probe_engines K s1 = Some (rc, t)"
      "engine_frame (inst s1) (inst t)" "held t = held s1" "drvdata t = drvdata s1"
      "bypass_node t = bypass_node s1" "accesses_ok K s1 \<longrightarrow> accesses_ok K t"
      "rc = 0 \<longrightarrow> (\<exists>i j. i < XDMA_CHANNEL_NUM_MAX \<and> j < XDMA_CHANNEL_NUM_MAX
         \<and> h2c_regs (inst t) = mapped_ptr K c + of_nat (engine_offset False i)
         \<and> c2h_regs (inst t) = mapped_ptr K c + of_nat (engine_offset True j))"
      using probe_engines_safe [OF 1(6) assms(4)] by blast
    note fr = engine_frame_tracks [OF t(2,3)]
    show ?thesis
    proof (cases "rc = 0")
      case False
      have tt: "held t = accounted (inst t)" "length (bar (inst t)) = XDMA_BAR_NUM" "\<not> regions_in_use (inst t)"
        using fr(1) 1(7) by (simp_all add: tracks_def)
      then have "held (err_engines t) = msix_left (inst s)"
        using err_engines_held [of t "{}"] fr(8) 1(1) by simp
      with False eq True t 1 tt assms(9) err_labels_accesses [of t K] err_labels_node [of t] show ?thesis
        by (simp add: outcome_def control_left_def)
    next
      case rc: True
      then obtain i j where ij: "i < XDMA_CHANNEL_NUM_MAX" "j < XDMA_CHANNEL_NUM_MAX"
        "h2c_regs (inst t) = mapped_ptr K c + of_nat (engine_offset False i)"
        "c2h_regs (inst t) = mapped_ptr K c + of_nat (engine_offset True j)" using t(7) by blast
      have "outcome K pdev (msix_left (inst t)) t (fst (probe_nodes K pdev t)) (snd (probe_nodes K pdev t))"
        using fr 1 assms t(5) by (intro probe_nodes_outcome [OF _ _ _ assms(4) _ _ ij]) simp_all
      then have "outcome K pdev (msix_left (inst s)) s (fst (probe_nodes K pdev t)) (snd (probe_nodes K pdev t))"
        using t(4,6) 1 fr(8) by (simp add: outcome_def)
      moreover have "probe_mapped K pdev s = Some (fst (probe_nodes K pdev t), snd (probe_nodes K pdev t))"
        using eq True rc t(1) by simp
      ultimately show ?thesis by blast
    qed
  qed
qed

lemma map_frame_tracks:
  assumes "map_frame s t" and "tracks s" and "held s = other_held s" and "maps_agree t"
  shows "tracks t" "got_regions (inst t) = got_regions (inst s)"
    "msi_enabled (inst t) = msi_enabled (inst s)" "msix_enabled (inst t) = msix_enabled (inst s)"
    "pci_dev (inst t) = pci_dev (inst s)" "msix_left (inst t) = msix_left (inst s)"
proof -
  obtain b c u y where e: "inst t =
      (inst s)\<lparr>bar := b, config_bar_idx := c, user_bar_idx := u, bypass_bar_idx := y\<rparr>"
    using assms(1) unfolding map_frame_def by blast
  show eqs: "got_regions (inst t) = got_regions (inst s)"
    "msi_enabled (inst t) = msi_enabled (inst s)" "msix_enabled (inst t) = msix_enabled (inst s)"
    "pci_dev (inst t) = pci_dev (inst s)" "msix_left (inst t) = msix_left (inst s)"
    by (simp_all add: e msix_left_def)
  have riu: "regions_in_use (inst t) = regions_in_use (inst s)" by (simp add: e)
  have oh: "other_held t = held s" using assms(1,3) by (simp add: map_frame_def)
  have maps: "held t = other_held t \<union> RMap ` (set (bar (inst t)) - {0})"
    using assms(4) by (auto simp: maps_agree_def other_held_def)
  have "other_held s = {RInst, RDevice} \<union> (if msi_enabled (inst s) then {RMsi} else {})
     \<union> (if msix_enabled (inst s) then {RMsix} else {}) \<union> (if got_regions (inst s) then {RRegions} else {})"
    using assms(2) by (auto simp: tracks_def accounted_def other_held_def)
  then have "held t = accounted (inst t)"
    using maps oh assms(3) eqs by (simp add: accounted_def)
  with riu assms(2,4) show "tracks t" by (simp add: tracks_def maps_agree_def)
qed

section \<open>The whole of probe\<close>

text \<open>The result of the interrupt scan, and whether it leaves MSI-X switched on.\<close>

definition scan_rc :: "pci_kernel \<Rightarrow> u64 \<Rightarrow> int" where
  "scan_rc K pdev =
     (if msi_msix_capable K pdev PCI_CAP_ID_MSIX then k_pci_enable_msix_exact K
      else if msi_msix_capable K pdev PCI_CAP_ID_MSI then k_pci_enable_msi K else 0)"

definition uses_msix :: "pci_kernel \<Rightarrow> u64 \<Rightarrow> bool" where
  "uses_msix K pdev \<longleftrightarrow> msi_msix_capable K pdev PCI_CAP_ID_MSIX \<and> k_pci_enable_msix_exact K = 0"

definition fail_leaks :: "pci_kernel \<Rightarrow> u64 \<Rightarrow> resource set" where
  "fail_leaks K pdev =
     (if k_pci_enable_device K = 0 \<and> uses_msix K pdev then {RMsix} else {})
     \<union> (if k_pci_enable_device K = 0 \<and> 0 \<le> scan_rc K pdev \<and> k_pci_request_regions K \<noteq> 0
        then {RDevice} else {})"

lemma probe_scan_for_msi_eq:
  assumes "pdev \<noteq> 0" and "kernel_rcs K"
  obtains t e where "probe_scan_for_msi K pdev s = Some (scan_rc K pdev, t)"
    and "inst t = (inst s)\<lparr>entry := e,
      msix_enabled := msix_enabled (inst s) \<or> msi_msix_capable K pdev PCI_CAP_ID_MSIX,
      msi_enabled := msi_enabled (inst s) \<or> (\<not> msi_msix_capable K pdev PCI_CAP_ID_MSIX
        \<and> msi_msix_capable K pdev PCI_CAP_ID_MSI)\<rparr>"
    and "drvdata t = drvdata s" and "misc_dev_node t = misc_dev_node s" and "bypass_node t = bypass_node s"
    and "accesses_ok K t = accesses_ok K s"
    and "held t = held s \<union> (if uses_msix K pdev then {RMsix} else {})
      \<union> (if \<not> msi_msix_capable K pdev PCI_CAP_ID_MSIX \<and> msi_msix_capable K pdev PCI_CAP_ID_MSI
           \<and> scan_rc K pdev = 0 then {RMsi} else {})"
proof -
  consider (msix) "msi_msix_capable K pdev PCI_CAP_ID_MSIX"
    | (msi) "\<not> msi_msix_capable K pdev PCI_CAP_ID_MSIX" "msi_msix_capable K pdev PCI_CAP_ID_MSI"
    | (none) "\<not> msi_msix_capable K pdev PCI_CAP_ID_MSIX" "\<not> msi_msix_capable K pdev PCI_CAP_ID_MSI"
    by blast
  then show ?thesis
  proof cases
    case msix
    with assms show ?thesis
      by (intro that [where t = "snd (the (probe_scan_for_msi K pdev s))" and e = "map (\<lambda>i. if i < MAX_NUM_ENGINES + MAX_USER_IRQ then i else entry (inst s) ! i)
              [0 ..< length (entry (inst s))]"])
        (simp_all add: probe_scan_for_msi_def scan_rc_def uses_msix_def Let_def)
  next
    case msi
    with assms show ?thesis
      by (intro that [where t = "snd (the (probe_scan_for_msi K pdev s))" and e = "entry (inst s)"])
        (simp_all add: probe_scan_for_msi_def scan_rc_def uses_msix_def Let_def)
  next
    case none
    with assms show ?thesis
      by (intro that [where t = "snd (the (probe_scan_for_msi K pdev s))" and e = "entry (inst s)"])
        (simp_all add: probe_scan_for_msi_def scan_rc_def uses_msix_def Let_def)
  qed
qed

lemma probe_unfold:
  assumes "pdev \<noteq> 0" and "k_kzalloc K \<noteq> 0"
  obtains s1 where "inst s1 = fresh_inst pdev" and "drvdata s1 = k_kzalloc K"
    and "misc_dev_node s1 = misc_dev_node s" and "bypass_node s1 = bypass_node s"
    and "held s1 = insert RInst (held s)" and "accesses_ok K s1 = accesses_ok K s"
    and "probe K pdev s = (if k_pci_enable_device K \<noteq> 0
      then Some (k_pci_enable_device K, err_enable (call (PciEnableDevice (k_pci_enable_device K)) s1))
      else probe_scan_for_msi K pdev (call PciSetMaster (call (PciEnableDevice 0) s1)) \<bind> (\<lambda>(rc, s).
        if rc < 0 then Some (rc, err_scan_msi s)
        else request_regions K pdev s \<bind> (\<lambda>(rc, s).
          if rc \<noteq> 0 then Some (rc, err_regions s)
          else case map_bars K s of (rc, s) \<Rightarrow>
            if rc \<noteq> 0 then Some (rc, err_map s) else probe_mapped K pdev s)))"
proof -
  let ?p = "k_kzalloc K"
  let ?s1 = "upd_inst (\<lambda>i. i\<lparr>pci_dev := pdev\<rparr>) (call (DevSetDrvdata ?p)
    ((call (Kzalloc ?p) s)\<lparr>inst := zeroed_inst\<lparr>config_bar_idx := -1, user_bar_idx := -1,
       bypass_bar_idx := -1, irq_line := -1, open_count := 0, desc_bypass_enabled := False\<rparr>,
       drvdata := ?p\<rparr>))"
  have a: "alloc_dev_instance K pdev s = Some (?p, ?s1)"
    using assms by (simp add: alloc_dev_instance_def Let_def)
  show ?thesis
  proof (rule that [of ?s1])
    show "inst ?s1 = fresh_inst pdev" by (simp add: fresh_inst_def zeroed_inst_def)
    show "probe K pdev s = (if k_pci_enable_device K \<noteq> 0
      then Some (k_pci_enable_device K, err_enable (call (PciEnableDevice (k_pci_enable_device K)) ?s1))
      else probe_scan_for_msi K pdev (call PciSetMaster (call (PciEnableDevice 0) ?s1)) \<bind> (\<lambda>(rc, s).
        if rc < 0 then Some (rc, err_scan_msi s)
        else request_regions K pdev s \<bind> (\<lambda>(rc, s).
          if rc \<noteq> 0 then Some (rc, err_regions s)
          else case map_bars K s of (rc, s) \<Rightarrow>
            if rc \<noteq> 0 then Some (rc, err_map s) else probe_mapped K pdev s)))"
      using assms(2) unfolding probe_def a probe_mapped_def Let_def by simp
  qed (use assms in simp_all)
qed

lemma fresh_inst_sel [simp]:
  "bar (fresh_inst pdev) = replicate XDMA_BAR_NUM 0" "config_bar_idx (fresh_inst pdev) = -1"
  "user_bar_idx (fresh_inst pdev) = -1" "bypass_bar_idx (fresh_inst pdev) = -1"
  "pci_dev (fresh_inst pdev) = pdev" "\<not> msi_enabled (fresh_inst pdev)" "\<not> msix_enabled (fresh_inst pdev)"
  "\<not> got_regions (fresh_inst pdev)" "\<not> regions_in_use (fresh_inst pdev)"
  by (simp_all add: fresh_inst_def zeroed_inst_def)

lemma probe_regions_outcome:
  assumes "unmapped s" and "tracks s" and "got_regions (inst s)" and "windows_sane K"
    and "\<not> (msi_enabled (inst s) \<and> msix_enabled (inst s))" and "pci_dev (inst s) = pdev" and "pdev \<noteq> 0"
    and "kernel_rcs K" and "misc_name (bypass_node s) \<noteq> ''xdma_bypass''"
  shows "\<exists>rc t. (case map_bars K s of (rc, s) \<Rightarrow>
      if rc \<noteq> 0 then Some (rc, err_map s) else probe_mapped K pdev s) = Some (rc, t)
    \<and> outcome K pdev (msix_left (inst s)) s rc t"
proof -
  obtain rc s' where m: "map_bars K s = (rc, s')" by (cases "map_bars K s")
  have oh: "held s = other_held s" using assms(1) by (simp add: unmapped_def)
  show ?thesis
  proof (cases "rc = 0")
    case True
    then obtain c where ok: "config_known K s' c" "maps_agree s'" "map_frame s s'"
      "windows_sane K \<longrightarrow> accesses_ok K s \<longrightarrow> accesses_ok K s'"
      using map_bars_ok [OF assms(1), of K s'] m by blast
    note fr = map_frame_tracks [OF ok(3) assms(2) oh ok(2)]
    have same: "bypass_node s' = bypass_node s" "drvdata s' = drvdata s"
      using ok(3) by (simp_all add: map_frame_def)
    have "\<exists>rc t. probe_mapped K pdev s' = Some (rc, t) \<and> outcome K pdev (msix_left (inst s')) s' rc t"
      using fr assms same by (intro probe_mapped_outcome [OF _ _ ok(1) assms(4)]) simp_all
    with True m fr(6) same ok(4) assms(4) show ?thesis by (auto simp: outcome_def)
  next
    case False
    note fl = map_bars_fail [OF assms(1) m False]
    obtain b c u y where e: "inst s' =
      (inst s)\<lparr>bar := b, config_bar_idx := c, user_bar_idx := u, bypass_bar_idx := y\<rparr>"
      and same: "bypass_node s' = bypass_node s"
      using fl unfolding map_frame_def by blast
    have b: "b = replicate XDMA_BAR_NUM 0" using fl e by simp
    have "tracks s'" "msix_left (inst s') = msix_left (inst s)"
      using fl assms(1,2) by (simp_all add: tracks_def accounted_def e b unmapped_def msix_left_def)
    then have "held (err_map s') = msix_left (inst s)" using err_map_held [of s'] fl by simp
    then show ?thesis
      using False m fl same assms(4,9) err_labels_accesses(3) [of s' K] err_labels_node(3) [of s']
      by (simp add: outcome_def control_left_def)
  qed
qed

lemma probe_to_scan:
  assumes "pdev \<noteq> 0" and "k_kzalloc K \<noteq> 0" and "kernel_rcs K" and "held s = {}"
    and "k_pci_enable_device K = 0"
  obtains t e where "inst t = (fresh_inst pdev)\<lparr>entry := e,
      msix_enabled := msi_msix_capable K pdev PCI_CAP_ID_MSIX,
      msi_enabled := \<not> msi_msix_capable K pdev PCI_CAP_ID_MSIX \<and> msi_msix_capable K pdev PCI_CAP_ID_MSI\<rparr>"
    and "drvdata t = k_kzalloc K" and "bypass_node t = bypass_node s" and "accesses_ok K t = accesses_ok K s"
    and "held t = {RInst, RDevice} \<union> (if uses_msix K pdev then {RMsix} else {})
        \<union> (if \<not> msi_msix_capable K pdev PCI_CAP_ID_MSIX \<and> msi_msix_capable K pdev PCI_CAP_ID_MSI
             \<and> scan_rc K pdev = 0 then {RMsi} else {})"
    and "probe K pdev s = (if scan_rc K pdev < 0 then Some (scan_rc K pdev, err_scan_msi t)
        else request_regions K pdev t \<bind> (\<lambda>(rc, s).
          if rc \<noteq> 0 then Some (rc, err_regions s)
          else case map_bars K s of (rc, s) \<Rightarrow>
            if rc \<noteq> 0 then Some (rc, err_map s) else probe_mapped K pdev s))"
proof (rule probe_unfold [OF assms(1,2), of s], goal_cases)
  case (1 s1)
  define s2 where "s2 = call PciSetMaster (call (PciEnableDevice 0) s1)"
  have 2: "inst s2 = fresh_inst pdev" "held s2 = {RInst, RDevice}" "drvdata s2 = k_kzalloc K"
    "bypass_node s2 = bypass_node s" "accesses_ok K s2 = accesses_ok K s"
    using 1 assms(4) by (auto simp: s2_def)
  obtain t e where scan: "probe_scan_for_msi K pdev s2 = Some (scan_rc K pdev, t)"
    and i: "inst t = (inst s2)\<lparr>entry := e,
      msix_enabled := msix_enabled (inst s2) \<or> msi_msix_capable K pdev PCI_CAP_ID_MSIX,
      msi_enabled := msi_enabled (inst s2) \<or> (\<not> msi_msix_capable K pdev PCI_CAP_ID_MSIX
        \<and> msi_msix_capable K pdev PCI_CAP_ID_MSI)\<rparr>"
    and d: "drvdata t = drvdata s2" "bypass_node t = bypass_node s2" "accesses_ok K t = accesses_ok K s2"
    and h: "held t = held s2 \<union> (if uses_msix K pdev then {RMsix} else {})
      \<union> (if \<not> msi_msix_capable K pdev PCI_CAP_ID_MSIX \<and> msi_msix_capable K pdev PCI_CAP_ID_MSI
           \<and> scan_rc K pdev = 0 then {RMsi} else {})"
    using probe_scan_for_msi_eq [OF assms(1,3), of s2] by blast
  show ?case
    by (rule 1(1) [of t e]) (use i d h 2 1(8) scan assms(5) in \<open>simp_all add: s2_def [symmetric]\<close>)
qed

lemma probe_to_regions:
  assumes "pdev \<noteq> 0" and "k_kzalloc K \<noteq> 0" and "kernel_rcs K" and "held s = {}"
    and "k_pci_enable_device K = 0" and "scan_rc K pdev = 0" and "k_pci_request_regions K = 0"
  obtains t where "unmapped t" and "tracks t" and "got_regions (inst t)"
    and "\<not> (msi_enabled (inst t) \<and> msix_enabled (inst t))" and "pci_dev (inst t) = pdev"
    and "msix_left (inst t) = fail_leaks K pdev" and "drvdata t = k_kzalloc K"
    and "bypass_node t = bypass_node s" and "accesses_ok K t = accesses_ok K s"
    and "probe K pdev s = (case map_bars K t of (rc, s) \<Rightarrow>
       if rc \<noteq> 0 then Some (rc, err_map s) else probe_mapped K pdev s)"
proof (rule probe_to_scan [OF assms(1-5)], goal_cases)
  case (1 t e)
  let ?u = "upd_inst (\<lambda>d. d\<lparr>got_regions := True\<rparr>) (call (PciRequestRegions 0) t)"
  have ms: "uses_msix K pdev = msi_msix_capable K pdev PCI_CAP_ID_MSIX"
    using assms(6) by (auto simp: uses_msix_def scan_rc_def)
  have "unmapped ?u" "tracks ?u"
    using 1(2,6) assms(6) ms by (auto simp: tracks_def accounted_def unmapped_def other_held_def)
  moreover have "msix_left (inst ?u) = fail_leaks K pdev"
    using assms 1(2) ms by (simp add: fail_leaks_def msix_left_def)
  ultimately show ?case
    using 1(2-7) assms by (intro 1(1) [of ?u]) (simp_all add: request_regions_def Let_def)
qed

text \<open>The paths that end before the regions are obtained.\<close>

lemma probe_early_outcome:
  assumes "pdev \<noteq> 0" and "k_kzalloc K \<noteq> 0" and "kernel_rcs K" and "held s = {}"
    and "misc_name (bypass_node s) \<noteq> ''xdma_bypass''"
    and "k_pci_enable_device K \<noteq> 0 \<or> scan_rc K pdev < 0 \<or> k_pci_request_regions K \<noteq> 0"
  shows "\<exists>rc t. probe K pdev s = Some (rc, t) \<and> (accesses_ok K s \<longrightarrow> accesses_ok K t) \<and> rc \<noteq> 0
    \<and> held t = fail_leaks K pdev \<union> control_left t"
proof (cases "k_pci_enable_device K = 0")
  case False
  show ?thesis
  proof (rule probe_unfold [OF assms(1,2), of s], goal_cases)
    case (1 s1)
    with False assms(4,5) show ?case by (simp add: err_enable_def fail_leaks_def control_left_def)
  qed
next
  case dev: True
  show ?thesis
  proof (rule probe_to_scan [OF assms(1-4) dev], goal_cases)
    case (1 t e)
    show ?case
    proof (cases "scan_rc K pdev < 0")
      case True
      have "held (err_scan_msi t) = fail_leaks K pdev"
        using True 1(1,5) dev by (auto simp: err_scan_msi_def err_enable_def fail_leaks_def)
      with True 1 assms(5) show ?thesis
        by (simp add: err_scan_msi_def err_enable_def control_left_def)
    next
      case False
      then have z: "scan_rc K pdev = 0" and busy: "k_pci_request_regions K \<noteq> 0"
        using assms(3,6) dev by (auto simp: scan_rc_def kernel_rcs_def split: if_splits)
      let ?u = "upd_inst (\<lambda>d. d\<lparr>regions_in_use := True\<rparr>) (call (PciRequestRegions (k_pci_request_regions K)) t)"
      have "uses_msix K pdev = msi_msix_capable K pdev PCI_CAP_ID_MSIX"
        using z by (auto simp: uses_msix_def scan_rc_def)
      then have "held (err_regions ?u) = fail_leaks K pdev"
        using 1(1,5) dev z busy
        by (auto simp: err_regions_def err_scan_msi_def err_enable_def fail_leaks_def)
      moreover have "probe K pdev s = Some (k_pci_request_regions K, err_regions ?u)"
        using 1(6) z busy assms(1) by (simp add: request_regions_def Let_def)
      moreover have "bypass_node (err_regions ?u) = bypass_node s"
        "accesses_ok K (err_regions ?u) = accesses_ok K s"
        using 1(3,4) by (simp_all add: err_regions_def err_scan_msi_def err_enable_def)
      ultimately show ?thesis using busy assms(5) by (simp add: control_left_def)
    qed
  qed
qed

lemma probe_outcome:
  assumes "pdev \<noteq> 0" and "k_kzalloc K \<noteq> 0" and "kernel_rcs K" and "windows_sane K" and "held s = {}"
    and "misc_name (bypass_node s) \<noteq> ''xdma_bypass''"
  shows "\<exists>rc t. probe K pdev s = Some (rc, t) \<and> (accesses_ok K s \<longrightarrow> accesses_ok K t)
    \<and> (rc = 0 \<longrightarrow> attached K pdev t \<and> drvdata t = k_kzalloc K)
    \<and> (rc \<noteq> 0 \<longrightarrow> held t = fail_leaks K pdev \<union> control_left t)"
proof (cases "k_pci_enable_device K \<noteq> 0 \<or> scan_rc K pdev < 0 \<or> k_pci_request_regions K \<noteq> 0")
  case True
  with probe_early_outcome [OF assms(1-3,5,6)] show ?thesis by blast
next
  case False
  then have go: "k_pci_enable_device K = 0" "scan_rc K pdev = 0" "k_pci_request_regions K = 0"
    using assms(3) by (auto simp: scan_rc_def kernel_rcs_def split: if_splits)
  show ?thesis
  proof (rule probe_to_regions [OF assms(1-3,5) go], goal_cases)
    case (1 t)
    have "\<exists>rc u. probe K pdev s = Some (rc, u) \<and> outcome K pdev (msix_left (inst t)) t rc u"
      unfolding 1(10) using 1 assms by (intro probe_regions_outcome) simp_all
    with 1(6,7,9) show ?case by (auto simp: outcome_def)
  qed
qed

text \<open>A card on which every step can succeed.\<close>

definition healthy :: "pci_kernel \<Rightarrow> u64 \<Rightarrow> (u64 \<Rightarrow> u32) \<Rightarrow> nat \<Rightarrow> bool" where
  "healthy K pdev f c \<longleftrightarrow> k_kzalloc K \<noteq> 0 \<and> k_pci_enable_device K = 0 \<and> scan_rc K pdev = 0
     \<and> k_pci_request_regions K = 0 \<and> k_dma_set_mask_and_coherent K = 0
     \<and> k_misc_register K ''xdma_control'' = 0 \<and> k_misc_register K ''xdma_bypass'' = 0
     \<and> (\<forall>log. \<forall>a \<in> bar_id_regs K \<union> engine_id_regs K c. k_ioread32 K log a = f a)
     \<and> (\<forall>i < XDMA_BAR_NUM. present K i \<longrightarrow> mapped_ptr K i \<noteq> 0)
     \<and> find (looks_like_config K f) (filter (present K) [0 ..< XDMA_BAR_NUM]) = Some c
     \<and> (\<exists>i < XDMA_CHANNEL_NUM_MAX. engine_at f (mapped_ptr K c) True i)
     \<and> (\<exists>i < XDMA_CHANNEL_NUM_MAX. engine_at f (mapped_ptr K c) False i)"

lemma probe_nodes_rc:
  "k_misc_register K ''xdma_control'' = 0 \<Longrightarrow> k_misc_register K ''xdma_bypass'' = 0 \<Longrightarrow>
   \<exists>t. probe_nodes K pdev s = (0, t)"
  by (simp add: probe_nodes_def Let_def)

lemma config_known_unique: "config_known K s c \<Longrightarrow> config_bar_idx (inst s) = int c' \<Longrightarrow> c = c'"
  by (simp add: config_known_def)

lemma probe_healthy:
  assumes "healthy K pdev f c" and "pdev \<noteq> 0" and "kernel_rcs K" and "windows_sane K" and "held s = {}"
  shows "\<exists>t. probe K pdev s = Some (0, t)"
proof -
  have h: "k_kzalloc K \<noteq> 0" "k_pci_enable_device K = 0" "scan_rc K pdev = 0" "k_pci_request_regions K = 0"
    "k_dma_set_mask_and_coherent K = 0" "k_misc_register K ''xdma_control'' = 0"
    "k_misc_register K ''xdma_bypass'' = 0" "\<forall>log. \<forall>a \<in> bar_id_regs K. k_ioread32 K log a = f a"
    "find (looks_like_config K f) (filter (present K) [0 ..< XDMA_BAR_NUM]) = Some c"
    "\<forall>i \<in> set (filter (present K) [0 ..< XDMA_BAR_NUM]). mapped_ptr K i \<noteq> 0"
    "\<forall>log. \<forall>a \<in> engine_id_regs K c. k_ioread32 K log a = f a"
    using assms(1) by (simp_all add: healthy_def)
  have engines: "filter (engine_at f (mapped_ptr K c) d) [0 ..< XDMA_CHANNEL_NUM_MAX] \<noteq> []" for d
    using assms(1) by (cases d) (auto simp: healthy_def filter_empty_conv)
  show ?thesis
  proof (rule probe_to_regions [OF assms(2) h(1) assms(3,5) h(2-4)], goal_cases)
    case (1 t)
    obtain rc u where m: "map_bars K t = (rc, u)" by (cases "map_bars K t")
    note mc = map_bars_stable [OF 1(1) h(8) m refl]
    have rc: "rc = 0" using mc h(9,10) by (metis option.distinct(1))
    then have cu: "config_bar_idx (inst u) = int c" using mc h(9) by auto
    obtain c' where "config_known K u c'" using map_bars_ok [OF 1(1), of K u] m rc by blast
    then have "config_known K u c" using config_known_unique cu by blast
    then have ck: "config_known K (call (DmaSetMaskAndCoherent 0) u) c" by simp
    obtain v where v: "probe_engines K (call (DmaSetMaskAndCoherent 0) u) = Some (0, v)"
      using probe_engines_stable [OF ck assms(4) h(11) refl refl] engines by auto
    obtain w where "probe_nodes K pdev v = (0, w)" using probe_nodes_rc h(6,7) by blast
    with 1(10) m rc h(5) v assms(2) show ?case
      by (simp add: probe_mapped_def set_dma_mask_def)
  qed
qed

section \<open>Properties\<close>

lemma alveo_rcs: "kernel_rcs alveo"
  by (simp add: kernel_rcs_def alveo_def)

lemma loaded_idle: "held loaded = {}" "misc_name (bypass_node loaded) \<noteq> ''xdma_bypass''" "accesses_ok K loaded"
  by (simp_all add: loaded_def accesses_ok_def held_def)

text \<open>
  C7. \<open>probe\<close> never faults, and every register it reads or writes, on whichever path it takes,
  lies inside a window the kernel mapped for it.
\<close>

theorem probe_in_bounds:
  assumes "pdev \<noteq> 0" and "kernel_rcs K" and "windows_sane K" and "held s = {}" and "accesses_ok K s"
    and "misc_name (bypass_node s) \<noteq> ''xdma_bypass''"
  shows "\<exists>rc t. probe K pdev s = Some (rc, t) \<and> accesses_ok K t"
proof (cases "k_kzalloc K = 0")
  case True
  with assms(1,5) show ?thesis by (simp add: probe_def alloc_dev_instance_def Let_def)
next
  case False
  from probe_outcome [OF assms(1) False assms(2,3,4,6)] assms(5) show ?thesis by blast
qed

theorem probe_in_bounds_witness: "\<exists>rc t. probe alveo 7 loaded = Some (rc, t) \<and> accesses_ok alveo t"
  using loaded_idle alveo_rcs alveo_windows by (intro probe_in_bounds) simp_all

text \<open>
  C2. What a failed \<open>probe\<close> leaves behind, exactly: MSI-X if it had been switched on (no error
  label switches it off), the enabled device if the regions were busy (as its comment
  intends), and the node \<open>/dev/xdma_control\<close> if only the second node could not be created.
  The instance, the regions, MSI and every BAR mapping are given back.
\<close>

theorem probe_failure_leftovers:
  assumes "pdev \<noteq> 0" and "kernel_rcs K" and "windows_sane K" and "held s = {}"
    and "misc_name (bypass_node s) \<noteq> ''xdma_bypass''" and "probe K pdev s = Some (rc, t)" and "rc \<noteq> 0"
  shows "held t =
    (if k_pci_enable_device K = 0 \<and> uses_msix K pdev then {RMsix} else {})
    \<union> (if k_pci_enable_device K = 0 \<and> 0 \<le> scan_rc K pdev \<and> k_pci_request_regions K \<noteq> 0
       then {RDevice} else {})
    \<union> (if misc_name (bypass_node t) = ''xdma_bypass'' then {RMisc ''xdma_control''} else {})"
proof -
  have "k_kzalloc K \<noteq> 0"
    using assms(1,6,7) by (auto simp: probe_def alloc_dev_instance_def Let_def)
  from probe_outcome [OF assms(1) this assms(2-5)] assms(6,7) show ?thesis
    by (auto simp: fail_leaks_def control_left_def)
qed

lemma probe_busy:
  assumes "pdev \<noteq> 0" and "k_kzalloc K \<noteq> 0" and "k_pci_enable_device K = 0" and "kernel_rcs K"
    and "scan_rc K pdev = 0" and "k_pci_request_regions K \<noteq> 0"
  shows "\<exists>t. probe K pdev s = Some (k_pci_request_regions K, t)"
proof (rule probe_unfold [OF assms(1,2), of s], goal_cases)
  case (1 s1)
  obtain s3 where "probe_scan_for_msi K pdev (call PciSetMaster (call (PciEnableDevice 0) s1)) = Some (0, s3)"
    using probe_scan_for_msi_eq [OF assms(1,4), of "call PciSetMaster (call (PciEnableDevice 0) s1)"]
      assms(5) by metis
  with 1(7) assms show ?case by (simp add: request_regions_def Let_def)
qed

lemma probe_busy_node:
  "probe (alveo\<lparr>k_pci_request_regions := -16\<rparr>) 7 loaded = Some (rc, t) \<Longrightarrow> misc_name (bypass_node t) \<noteq> ''xdma_bypass''"
proof -
  assume p: "probe (alveo\<lparr>k_pci_request_regions := -16\<rparr>) 7 loaded = Some (rc, t)"
  have "map_option (misc_name \<circ> bypass_node \<circ> snd) (probe (alveo\<lparr>k_pci_request_regions := -16\<rparr>) 7 loaded) = Some []"
    by code_simp
  with p show ?thesis by simp
qed

theorem probe_failure_leftovers_witness:
  "\<exists>t. probe (alveo\<lparr>k_pci_request_regions := -16\<rparr>) 7 loaded = Some (-16, t) \<and> held t = {RMsix, RDevice}"
proof -
  let ?K = "alveo\<lparr>k_pci_request_regions := -16\<rparr>"
  have "map_len ?K = map_len alveo" by (simp add: map_len_def fun_eq_iff)
  then have K: "kernel_rcs ?K" "windows_sane ?K"
    using alveo_rcs alveo_windows by (simp_all add: kernel_rcs_def windows_sane_def)
  have cap: "msi_msix_capable ?K 7 PCI_CAP_ID_MSIX"
    by (simp add: msi_msix_capable_def alveo_def arch_msi_check_device_def)
  then have m: "uses_msix ?K 7" "scan_rc ?K 7 = 0"
    by (simp_all add: uses_msix_def scan_rc_def alveo_def)
  obtain t where t: "probe ?K 7 loaded = Some (-16, t)"
    using probe_busy [of 7 ?K loaded] K m by (auto simp: alveo_def)
  have n: "misc_name (bypass_node t) \<noteq> ''xdma_bypass''"
    using probe_busy_node t by simp
  from probe_failure_leftovers [OF _ K loaded_idle(1,2) t] m n have "held t = {RMsix, RDevice}"
    by (auto simp: alveo_def)
  with t show ?thesis by blast
qed

text \<open>
  What a successful \<open>probe\<close> holds. When the instance could be allocated and \<open>probe\<close> reports
  0, both nodes exist and belong to this device, the driver data points to the instance, the
  configuration BAR is mapped, and the resources held are exactly the ones the instance's flags
  and BAR array account for, besides the two nodes.
\<close>

theorem probe_success:
  assumes "pdev \<noteq> 0" and "kernel_rcs K" and "windows_sane K" and "held s = {}"
    and "misc_name (bypass_node s) \<noteq> ''xdma_bypass''" and "probe K pdev s = Some (0, t)" and "k_kzalloc K \<noteq> 0"
  shows "attached K pdev t \<and> drvdata t = k_kzalloc K"
  using probe_outcome [OF assms(1,7,2-5)] assms(6) by auto

lemma alveo_rc:
  "k_kzalloc alveo = 0x1000" "k_pci_enable_device alveo = 0" "k_pci_request_regions alveo = 0"
  "k_dma_set_mask_and_coherent alveo = 0" "k_misc_register alveo n = 0" "k_ioread32 alveo log = alveo_reg"
  by (simp_all add: alveo_def)

lemma alveo_healthy: "healthy alveo 7 alveo_reg 1"
proof -
  have "msi_msix_capable alveo 7 PCI_CAP_ID_MSIX"
    by (simp add: msi_msix_capable_def alveo_def arch_msi_check_device_def)
  then have "scan_rc alveo 7 = 0" by (simp add: scan_rc_def alveo_def)
  moreover have "engine_at alveo_reg (mapped_ptr alveo 1) True 0" "engine_at alveo_reg (mapped_ptr alveo 1) False 0"
    "0 < XDMA_CHANNEL_NUM_MAX"
    by (simp_all add: alveo_bars engine_at_def engine_offset_def alveo_reg_def engine_id_matches_def xdma_consts)
  moreover have "find (looks_like_config alveo alveo_reg) (filter (present alveo) [0 ..< XDMA_BAR_NUM]) = Some 1"
    using alveo_config by (simp add: alveo_bars)
  moreover have "mapped_ptr alveo i \<noteq> 0" if "present alveo i" for i
  proof -
    have "i = 0 \<or> i = Suc 0 \<or> i = 2"
      using that by (auto simp: present_def alveo_def split: if_splits)
    then show ?thesis by (auto simp: alveo_bars)
  qed
  ultimately show ?thesis
    unfolding healthy_def by (auto simp: alveo_rc)
qed

lemma alveo_probe: "\<exists>t. probe alveo 7 loaded = Some (0, t)"
  using probe_healthy [OF alveo_healthy _ alveo_rcs alveo_windows loaded_idle(1)] by simp

theorem probe_success_witness:
  "\<exists>t. probe alveo 7 loaded = Some (0, t) \<and> RMisc ''xdma_bypass'' \<in> held t \<and> got_regions (inst t)"
proof -
  obtain t where t: "probe alveo 7 loaded = Some (0, t)" using alveo_probe by blast
  with probe_success [OF _ alveo_rcs alveo_windows loaded_idle(1,2) t] show ?thesis
    by (auto simp: alveo_def attached_def)
qed

text \<open>
  C15. \<open>probe\<close> attaches to every card that works: when the kernel's calls succeed, the identifier
  registers are stable, one BAR of sufficient size carries the XDMA identifiers and there is an
  engine in each direction, it reports 0 and the driver is attached.
\<close>

theorem probe_attaches:
  assumes "healthy K pdev f c" and "pdev \<noteq> 0" and "kernel_rcs K" and "windows_sane K" and "held s = {}"
    and "misc_name (bypass_node s) \<noteq> ''xdma_bypass''"
  shows "\<exists>t. probe K pdev s = Some (0, t) \<and> attached K pdev t"
proof -
  obtain t where "probe K pdev s = Some (0, t)" using probe_healthy [OF assms(1-5)] by blast
  moreover have "k_kzalloc K \<noteq> 0" using assms(1) by (simp add: healthy_def)
  ultimately show ?thesis using probe_outcome [OF assms(2) _ assms(3-6)] by auto
qed

theorem probe_attaches_witness: "\<exists>t. probe alveo 7 loaded = Some (0, t) \<and> attached alveo 7 t"
  using alveo_rcs alveo_windows loaded_idle by (intro probe_attaches [OF alveo_healthy]) simp_all

text \<open>
  \<open>probe\<close> reports success when it has no memory for the instance: the jump to \<open>err_alloc\<close>
  returns the initial \<open>rc\<close>, 0, with nothing held and no node created.
\<close>

theorem probe_no_memory:
  assumes "pdev \<noteq> 0" and "k_kzalloc K = 0"
  shows "\<exists>t. probe K pdev s = Some (0, t) \<and> held t = held s \<and> inst t = inst s
    \<and> misc_dev_node t = misc_dev_node s \<and> bypass_node t = bypass_node s"
  using assms by (simp add: probe_def alloc_dev_instance_def Let_def)

theorem probe_no_memory_witness:
  "\<exists>t. probe (alveo\<lparr>k_kzalloc := 0\<rparr>) 7 loaded = Some (0, t) \<and> held t = {}"
  using probe_no_memory [of 7 "alveo\<lparr>k_kzalloc := 0\<rparr>" loaded] loaded_idle by auto

text \<open>
  C4. Attaching and detaching is a round trip: after a successful \<open>probe\<close>, \<open>remove\<close> gives back
  everything that was acquired.
\<close>

theorem probe_remove_releases_all:
  assumes "pdev \<noteq> 0" and "kernel_rcs K" and "windows_sane K" and "held s = {}"
    and "misc_name (bypass_node s) \<noteq> ''xdma_bypass''" and "probe K pdev s = Some (0, t)"
    and "k_kzalloc K \<noteq> 0"
  shows "\<exists>u. remove pdev t = Some u \<and> held u = {}"
proof -
  have a: "attached K pdev t" "drvdata t = k_kzalloc K"
    using probe_outcome [OF assms(1,7,2-5)] assms(6) by auto
  then have "length (bar (inst t)) = XDMA_BAR_NUM" by (simp add: attached_def)
  with a assms(1,7) show ?thesis
    by (auto simp: remove_def attached_def accounted_def Let_def)
qed

theorem probe_remove_releases_all_witness:
  "\<exists>t u. probe alveo 7 loaded = Some (0, t) \<and> held t \<noteq> {} \<and> remove 7 t = Some u \<and> held u = {}"
proof -
  obtain t where t: "probe alveo 7 loaded = Some (0, t)" using alveo_probe by blast
  moreover have "attached alveo 7 t"
    using probe_outcome [of 7 alveo loaded] alveo_rcs alveo_windows loaded_idle(1,2) t
    by (auto simp: alveo_def)
  moreover have "\<exists>u. remove 7 t = Some u \<and> held u = {}"
    by (rule probe_remove_releases_all [OF _ alveo_rcs alveo_windows loaded_idle(1,2) t])
      (simp_all add: alveo_def)
  ultimately show ?thesis by (auto simp: attached_def)
qed
end
