(* ===== verification/Mem_Manager.thy ===== *)
theory Mem_Manager
  imports Shuhai_Prelude
begin

text \<open>
  The allocator of the DMA buffer, \<open>sw/src/fpga/MemoryManager.cpp\<close>: a linked list of chunks
  that tiles the buffer, first-fit allocation in multiples of a page, and deallocation by
  address. The linked list is a list of records in list order; the bytes of the buffer are a
  function from addresses to bytes, because \<open>free\<close> and the constructor clear memory.
\<close>

section \<open>Data\<close>

record mem_chunk =
  mc_addr :: u64
  mc_size :: u64
  mc_free :: bool

record memory_manager =
  mm_base :: u64
  mm_size :: u64
  mm_chunks :: "mem_chunk list"
  mm_ram :: "u64 \<Rightarrow> u8"

definition MemChunk :: "u64 \<Rightarrow> u64 \<Rightarrow> mem_chunk" where
  "MemChunk a n = \<lparr>mc_addr = a, mc_size = n, mc_free = True\<rparr>"

definition memset :: "(u64 \<Rightarrow> u8) \<Rightarrow> u64 \<Rightarrow> u8 \<Rightarrow> u64 \<Rightarrow> (u64 \<Rightarrow> u8)" where
  "memset m p v n = (\<lambda>x. if x - p < n then v else m x)"

section \<open>Operations\<close>

definition MemoryManager :: "(u64 \<Rightarrow> u8) \<Rightarrow> u64 \<Rightarrow> u64 \<Rightarrow> memory_manager" where
  "MemoryManager m b n =
     \<lparr>mm_base = b, mm_size = n, mm_chunks = [MemChunk b n], mm_ram = memset m b 0 n\<rparr>"

text \<open>
  The destructor: \<open>current\<close> is deleted, then the loop goes on with the node after it. The result
  is the sequence of deleted nodes.
\<close>

fun delete_loop :: "mem_chunk list \<Rightarrow> mem_chunk list \<Rightarrow> mem_chunk list" where
  "delete_loop [] deleted = deleted"
| "delete_loop (current # next) deleted = delete_loop next (deleted @ [current])"

definition MemoryManager_delete :: "memory_manager \<Rightarrow> mem_chunk list" where
  "MemoryManager_delete mm = delete_loop (mm_chunks mm) []"

definition roundedSize :: "u64 \<Rightarrow> u64" where
  "roundedSize allocSize = ((allocSize + 4095) div 4096) * 4096"

text \<open>
  \<open>std::atomic<bool>::compare_exchange_weak\<close>: on success the desired value is stored; on
  failure, which C++ also allows spuriously, the expected value is overwritten with the value
  found. The result is the flag, the new value and the new expected value.
\<close>

definition compare_exchange_weak :: "bool \<Rightarrow> bool \<Rightarrow> bool \<Rightarrow> bool \<Rightarrow> bool \<times> bool \<times> bool" where
  "compare_exchange_weak v expected desired spurious =
     (if v = expected \<and> \<not> spurious then (True, desired, expected) else (False, v, v))"

text \<open>
  The search loop of \<open>allocate\<close>. \<open>w k\<close> says whether the \<open>k\<close>-th compare-and-exchange fails
  spuriously, \<open>r\<close> is the rounded size and \<open>e\<close> the local \<open>exp\<close>. A null result is \<^term>\<open>None\<close>.
\<close>

fun allocate_loop ::
  "(nat \<Rightarrow> bool) \<Rightarrow> nat \<Rightarrow> u64 \<Rightarrow> bool \<Rightarrow> mem_chunk list \<Rightarrow> u64 option \<times> mem_chunk list" where
  "allocate_loop w k r e [] = (None, [])"
| "allocate_loop w k r e (c # cs) =
     (if mc_free c \<and> r \<le> mc_size c then
        (case compare_exchange_weak (mc_free c) e False (w k) of
           (True, f, e') \<Rightarrow>
             (if mc_size c > r then
                (Some (mc_addr c),
                 c\<lparr>mc_free := f, mc_size := r\<rparr> # MemChunk (mc_addr c + r) (mc_size c - r) # cs)
              else (Some (mc_addr c), c\<lparr>mc_free := f\<rparr> # cs))
         | (False, f, e') \<Rightarrow>
             (case allocate_loop w (Suc k) r e' cs of
                (p, cs') \<Rightarrow> (p, c\<lparr>mc_free := f\<rparr> # cs')))
      else (case allocate_loop w k r e cs of (p, cs') \<Rightarrow> (p, c # cs')))"

definition allocate :: "(nat \<Rightarrow> bool) \<Rightarrow> u64 \<Rightarrow> memory_manager \<Rightarrow> u64 option \<times> memory_manager" where
  "allocate w allocSize mm =
     (case allocate_loop w 0 (roundedSize allocSize) True (mm_chunks mm) of
        (p, cs) \<Rightarrow> (p, mm\<lparr>mm_chunks := cs\<rparr>))"

fun free_loop :: "u64 \<Rightarrow> mem_chunk list \<Rightarrow> (u64 \<Rightarrow> u8) \<Rightarrow> mem_chunk list \<times> (u64 \<Rightarrow> u8)" where
  "free_loop ptr [] m = ([], m)"
| "free_loop ptr (c # cs) m =
     (if mc_addr c = ptr then
        (case free_loop ptr cs (memset m (mc_addr c) 0 (mc_size c)) of
           (cs', m') \<Rightarrow> (c\<lparr>mc_free := True\<rparr> # cs', m'))
      else (case free_loop ptr cs m of (cs', m') \<Rightarrow> (c # cs', m')))"

definition mm_free :: "u64 \<Rightarrow> memory_manager \<Rightarrow> memory_manager" where
  "mm_free ptr mm =
     (case free_loop ptr (mm_chunks mm) (mm_ram mm) of
        (cs, m) \<Rightarrow> mm\<lparr>mm_chunks := cs, mm_ram := m\<rparr>)"


section \<open>The shape of the chunk list\<close>

text \<open>
  The invariant: read from the base address, the chunks follow one another without gaps or
  overlaps up to the end of the buffer.
\<close>

fun tiles :: "nat \<Rightarrow> mem_chunk list \<Rightarrow> nat \<Rightarrow> bool" where
  "tiles a [] e \<longleftrightarrow> a = e"
| "tiles a (c # cs) e \<longleftrightarrow> unat (mc_addr c) = a \<and> tiles (a + unat (mc_size c)) cs e"

definition mm_end :: "memory_manager \<Rightarrow> nat" where
  "mm_end mm = unat (mm_base mm) + unat (mm_size mm)"

definition mm_inv :: "memory_manager \<Rightarrow> bool" where
  "mm_inv mm \<longleftrightarrow> mm_chunks mm \<noteq> [] \<and> mm_end mm \<le> 2 ^ 64
     \<and> tiles (unat (mm_base mm)) (mm_chunks mm) (mm_end mm)"

definition chunk_range :: "mem_chunk \<Rightarrow> nat set" where
  "chunk_range c = {unat (mc_addr c) ..< unat (mc_addr c) + unat (mc_size c)}"

text \<open>What the two outcomes of a successful search put in the place of a chunk.\<close>

definition carve :: "u64 \<Rightarrow> mem_chunk \<Rightarrow> mem_chunk list" where
  "carve r c =
     (if mc_size c > r
      then [c\<lparr>mc_free := False, mc_size := r\<rparr>, MemChunk (mc_addr c + r) (mc_size c - r)]
      else [c\<lparr>mc_free := False\<rparr>])"

lemma tiles_append: "tiles a (xs @ ys) e \<longleftrightarrow> (\<exists>m. tiles a xs m \<and> tiles m ys e)"
  by (induction xs arbitrary: a) auto

lemma tiles_le: "tiles a cs e \<Longrightarrow> a \<le> e"
  by (induction cs arbitrary: a) (auto dest: add_leD1)

lemma tiles_chunk_range: "tiles a cs e \<Longrightarrow> c \<in> set cs \<Longrightarrow> chunk_range c \<subseteq> {a ..< e}"
proof (induction cs arbitrary: a)
  case (Cons d ds)
  then have rest: "tiles (a + unat (mc_size d)) ds e" and ad: "unat (mc_addr d) = a"
    by auto
  show ?case
  proof (cases "c = d")
    case True
    with ad tiles_le [OF rest] show ?thesis by (auto simp: chunk_range_def)
  next
    case False
    with Cons rest have "chunk_range c \<subseteq> {a + unat (mc_size d) ..< e}" by auto
    then show ?thesis by auto
  qed
qed simp

lemma tiles_disjoint:
  assumes "tiles a (xs @ c # ys) e" and "d \<in> set xs \<union> set ys"
  shows "chunk_range c \<inter> chunk_range d = {}"
proof -
  from assms(1) obtain m where xs: "tiles a xs m" and c: "tiles m (c # ys) e"
    by (auto simp: tiles_append)
  from c have ys: "tiles (m + unat (mc_size c)) ys e" and m: "unat (mc_addr c) = m" by auto
  from assms(2) consider "d \<in> set xs" | "d \<in> set ys" by blast
  then show ?thesis
  proof cases
    case 1
    from tiles_chunk_range [OF xs 1] m show ?thesis by (auto simp: chunk_range_def)
  next
    case 2
    from tiles_chunk_range [OF ys 2] m show ?thesis by (auto simp: chunk_range_def)
  qed
qed

lemma tiles_carve:
  assumes "tiles a (xs @ c # ys) e" and "e \<le> 2 ^ 64" and "r \<le> mc_size c"
  shows "tiles a (xs @ carve r c @ ys) e"
proof -
  from assms(1) obtain m where xs: "tiles a xs m" and c: "tiles m (c # ys) e"
    by (auto simp: tiles_append)
  then have le: "m + unat (mc_size c) \<le> e" and m: "unat (mc_addr c) = m"
    by (auto dest: tiles_le)
  have "tiles m (carve r c @ ys) e"
  proof (cases "mc_size c > r")
    case True
    then have lt: "unat r < unat (mc_size c)" by (simp add: word_less_nat_alt)
    have "unat (mc_addr c + r) = m + unat r"
      using lt le assms(2) m unat_add_no_wrap [of "mc_addr c" r] by simp
    moreover have "unat (mc_size c - r) = unat (mc_size c) - unat r"
      using assms(3) by (rule unat_minus_le)
    ultimately show ?thesis
      using True c m lt by (simp add: carve_def MemChunk_def)
  next
    case False
    with c show ?thesis by (simp add: carve_def)
  qed
  with xs show ?thesis by (auto simp: tiles_append)
qed

section \<open>What the search loop does\<close>

text \<open>
  One iteration: either the chunk is taken, or the search goes on behind it and the chunk stays
  as it was.
\<close>

lemma mc_free_noop [simp]: "mc_free c \<Longrightarrow> c\<lparr>mc_free := True\<rparr> = c"
  by (cases c) simp

lemma allocate_loop_step:
  obtains (taken) "mc_free c" "r \<le> mc_size c" "e" "\<not> w k"
      "allocate_loop w k r e (c # cs) = (Some (mc_addr c), carve r c @ cs)"
  | (skip) k' e' where "mc_free c \<Longrightarrow> r \<le> mc_size c \<Longrightarrow> e \<Longrightarrow> w k"
      "(\<forall>j. \<not> w j) \<and> e \<Longrightarrow> e'"
      "allocate_loop w k r e (c # cs) =
         (case allocate_loop w k' r e' cs of (p, cs') \<Rightarrow> (p, c # cs'))"
proof (cases "mc_free c \<and> r \<le> mc_size c")
  case fit: True
  show ?thesis
  proof (cases "e \<and> \<not> w k")
    case True
    with fit taken show ?thesis
      by (simp add: compare_exchange_weak_def carve_def)
  next
    case False
    with fit skip [of True "Suc k"] show ?thesis
      by (auto simp: compare_exchange_weak_def split: prod.splits)
  qed
next
  case False
  with skip [of e k] show ?thesis by auto
qed

lemma allocate_loop_None: "allocate_loop w k r e cs = (None, cs') \<Longrightarrow> cs' = cs"
proof (induction cs arbitrary: k e cs')
  case (Cons c cs)
  show ?case
    by (rule allocate_loop_step [of c r e w k cs])
      (use Cons in \<open>auto split: prod.splits\<close>)
qed simp

lemma allocate_loop_Some:
  "allocate_loop w k r e cs = (Some p, cs') \<Longrightarrow>
   \<exists>pre c post. cs = pre @ c # post \<and> mc_free c \<and> r \<le> mc_size c \<and> p = mc_addr c
     \<and> cs' = pre @ carve r c @ post"
proof (induction cs arbitrary: k e cs')
  case (Cons c cs)
  show ?case
  proof (rule allocate_loop_step [of c r e w k cs])
    assume "mc_free c" "r \<le> mc_size c"
      "allocate_loop w k r e (c # cs) = (Some (mc_addr c), carve r c @ cs)"
    with Cons.prems show ?thesis by (intro exI [of _ "[]"]) auto
  next
    fix k' e'
    assume "allocate_loop w k r e (c # cs) =
      (case allocate_loop w k' r e' cs of (p, cs') \<Rightarrow> (p, c # cs'))"
    with Cons.prems obtain cs'' where
      "allocate_loop w k' r e' cs = (Some p, cs'')" and cs': "cs' = c # cs''"
      by (auto split: prod.splits)
    from Cons.IH [OF this(1)] obtain pre d post where
      "cs = pre @ d # post" "mc_free d" "r \<le> mc_size d" "p = mc_addr d"
      "cs'' = pre @ carve r d @ post" by blast
    with cs' show ?thesis by (intro exI [of _ "c # pre"]) auto
  qed
qed simp

text \<open>
  When no exchange fails spuriously (x86's \<open>lock cmpxchg\<close>), the search is first fit and fails
  only when no free chunk is large enough.
\<close>

definition fits :: "u64 \<Rightarrow> mem_chunk \<Rightarrow> bool" where
  "fits r c \<longleftrightarrow> mc_free c \<and> r \<le> mc_size c"

lemma allocate_loop_first_fit:
  assumes "\<And>j. \<not> w j" and "\<forall>d \<in> set pre. \<not> fits r d" and "fits r c"
  shows "allocate_loop w k r True (pre @ c # post) = (Some (mc_addr c), pre @ carve r c @ post)"
  using assms(2)
proof (induction pre)
  case Nil
  with assms(1,3) show ?case
    by (simp add: compare_exchange_weak_def carve_def fits_def)
next
  case (Cons d pre)
  then show ?case by (auto simp: fits_def)
qed

lemma allocate_loop_no_fit:
  "\<forall>d \<in> set cs. \<not> fits r d \<Longrightarrow> allocate_loop w k r e cs = (None, cs)"
  by (induction cs) (auto simp: fits_def)

section \<open>The operations on the manager\<close>

lemma allocate_cases:
  obtains (fail) "allocate w n mm = (None, mm)"
  | (ok) pre c post where "mm_chunks mm = pre @ c # post" "mc_free c" "roundedSize n \<le> mc_size c"
      "allocate w n mm =
         (Some (mc_addr c), mm\<lparr>mm_chunks := pre @ carve (roundedSize n) c @ post\<rparr>)"
proof (cases "allocate_loop w 0 (roundedSize n) True (mm_chunks mm)")
  case (Pair p cs)
  show ?thesis
  proof (cases p)
    case None
    with Pair fail show ?thesis by (auto simp: allocate_def dest: allocate_loop_None)
  next
    case (Some a)
    with Pair ok allocate_loop_Some [of w 0 "roundedSize n" True "mm_chunks mm" a cs]
    show ?thesis by (auto simp: allocate_def)
  qed
qed

lemma free_loop_eq:
  "free_loop ptr cs m =
     (map (\<lambda>c. if mc_addr c = ptr then c\<lparr>mc_free := True\<rparr> else c) cs,
      foldl (\<lambda>m c. memset m (mc_addr c) 0 (mc_size c)) m (filter (\<lambda>c. mc_addr c = ptr) cs))"
  by (induction ptr cs m rule: free_loop.induct) (auto split: prod.splits)

lemma mm_free_sel [simp]:
  "mm_chunks (mm_free ptr mm) =
     map (\<lambda>c. if mc_addr c = ptr then c\<lparr>mc_free := True\<rparr> else c) (mm_chunks mm)"
  "mm_base (mm_free ptr mm) = mm_base mm" "mm_size (mm_free ptr mm) = mm_size mm"
  "mm_ram (mm_free ptr mm) = foldl (\<lambda>m c. memset m (mc_addr c) 0 (mc_size c)) (mm_ram mm)
     (filter (\<lambda>c. mc_addr c = ptr) (mm_chunks mm))"
  by (simp_all add: mm_free_def free_loop_eq)

lemma tiles_map:
  assumes "\<And>c. mc_addr (f c) = mc_addr c" "\<And>c. mc_size (f c) = mc_size c"
  shows "tiles a (map f cs) e \<longleftrightarrow> tiles a cs e"
  by (induction cs arbitrary: a) (simp_all add: assms)

lemma mm_inv_MemoryManager: "unat b + unat n \<le> 2 ^ 64 \<Longrightarrow> mm_inv (MemoryManager m b n)"
  by (simp add: mm_inv_def mm_end_def MemoryManager_def MemChunk_def)

lemma mm_inv_allocate: "mm_inv mm \<Longrightarrow> mm_inv (snd (allocate w n mm))"
proof (cases rule: allocate_cases [of w n mm])
  case (ok pre c post)
  assume "mm_inv mm"
  with ok tiles_carve [of "unat (mm_base mm)" pre c post "mm_end mm" "roundedSize n"]
  show ?thesis by (auto simp: mm_inv_def mm_end_def carve_def)
qed simp

lemma mm_inv_free: "mm_inv mm \<Longrightarrow> mm_inv (mm_free ptr mm)"
  by (simp add: mm_inv_def mm_end_def tiles_map)


section \<open>The allocator's contract\<close>

text \<open>
  The blocks the manager counts as taken, as pairs of address and length; blocks of length 0 own
  no memory and are left out. What a client has been given is the list of pointers it got back
  (\<open>client_run\<close> below); the contract relates the two.
\<close>

definition live_of :: "mem_chunk list \<Rightarrow> (nat \<times> nat) set" where
  "live_of cs = set (map (\<lambda>c. (unat (mc_addr c), unat (mc_size c)))
     (filter (\<lambda>c. \<not> mc_free c \<and> mc_size c \<noteq> 0) cs))"

definition live_blocks :: "memory_manager \<Rightarrow> (nat \<times> nat) set" where
  "live_blocks mm = live_of (mm_chunks mm)"

definition arena :: "memory_manager \<Rightarrow> nat set" where
  "arena mm = {unat (mm_base mm) ..< mm_end mm}"

definition block_span :: "nat \<times> nat \<Rightarrow> nat set" where
  "block_span b = {fst b ..< fst b + snd b}"

definition disjoint_blocks :: "(nat \<times> nat) list \<Rightarrow> bool" where
  "disjoint_blocks bs \<longleftrightarrow> sorted_wrt (\<lambda>b b'. block_span b \<inter> block_span b' = {}) bs"

text \<open>
  A client's calls, and running a sequence of them: \<open>run_ops\<close> keeps the state only, \<open>client_run\<close>
  also the pointers the client holds, each with the request it answers, in the order in which they
  were returned. A pointer is held until it is passed to \<open>free\<close>.
\<close>

datatype 'q mm_op = Alloc 'q | Free u64

fun run_ops :: "('q \<Rightarrow> 's \<Rightarrow> u64 option \<times> 's) \<Rightarrow> (u64 \<Rightarrow> 's \<Rightarrow> 's) \<Rightarrow> 'q mm_op list \<Rightarrow> 's \<Rightarrow> 's" where
  "run_ops alloc dealloc [] s = s"
| "run_ops alloc dealloc (Alloc q # ops) s = run_ops alloc dealloc ops (snd (alloc q s))"
| "run_ops alloc dealloc (Free p # ops) s = run_ops alloc dealloc ops (dealloc p s)"

fun client_run :: "('q \<Rightarrow> 's \<Rightarrow> u64 option \<times> 's) \<Rightarrow> (u64 \<Rightarrow> 's \<Rightarrow> 's) \<Rightarrow> 'q mm_op list \<Rightarrow>
    's \<Rightarrow> (u64 \<times> 'q) list \<Rightarrow> 's \<times> (u64 \<times> 'q) list" where
  "client_run alloc dealloc [] s held = (s, held)"
| "client_run alloc dealloc (Alloc q # ops) s held =
     (case alloc q s of
        (None, s') \<Rightarrow> client_run alloc dealloc ops s' held
      | (Some p, s') \<Rightarrow> client_run alloc dealloc ops s' (held @ [(p, q)]))"
| "client_run alloc dealloc (Free p # ops) s held =
     client_run alloc dealloc ops (dealloc p s) (filter (\<lambda>h. fst h \<noteq> p) held)"

text \<open>The blocks behind the pointers held, \<open>g\<close> being the length granted for a request.\<close>

definition held_blocks :: "('q \<Rightarrow> nat) \<Rightarrow> (u64 \<times> 'q) list \<Rightarrow> (nat \<times> nat) list" where
  "held_blocks g held = map (\<lambda>(p, q). (unat p, g q)) held"

lemma held_blocks_simps [simp]:
  "held_blocks g [] = []" "held_blocks g (held @ held') = held_blocks g held @ held_blocks g held'"
  "held_blocks g [(p, q)] = [(unat p, g q)]"
  by (simp_all add: held_blocks_def)

lemma held_blocks_filter:
  "held_blocks g (filter (\<lambda>h. fst h \<noteq> p) held) = filter (\<lambda>b. fst b \<noteq> unat p) (held_blocks g held)"
  by (induction held) (auto simp: held_blocks_def word_unat_eq_iff)

lemma disjoint_blocks_snoc:
  "disjoint_blocks (bs @ [b]) \<longleftrightarrow> disjoint_blocks bs \<and> (\<forall>b' \<in> set bs. block_span b' \<inter> block_span b = {})"
  by (auto simp: disjoint_blocks_def sorted_wrt_append)

lemma disjoint_blocks_filter: "disjoint_blocks bs \<Longrightarrow> disjoint_blocks (filter P bs)"
  by (simp add: disjoint_blocks_def sorted_wrt_filter)

lemma disjoint_blocks_nth:
  assumes "disjoint_blocks bs" and "i < length bs" and "j < length bs" and "i \<noteq> j"
  shows "block_span (bs ! i) \<inter> block_span (bs ! j) = {}"
  using assms sorted_wrt_nth_less [of _ bs i j] sorted_wrt_nth_less [of _ bs j i]
  by (cases i j rule: linorder_cases) (auto simp: disjoint_blocks_def)

lemma block_span_empty: "snd b = 0 \<Longrightarrow> block_span b = {}"
  by (simp add: block_span_def)

lemma fst_client_run: "fst (client_run alloc dealloc ops s held) = run_ops alloc dealloc ops s"
  by (induction alloc dealloc ops s held rule: client_run.induct) (auto split: prod.split option.split)

locale region_allocator =
  fixes alloc :: "'q \<Rightarrow> 's \<Rightarrow> u64 option \<times> 's"
    and dealloc :: "u64 \<Rightarrow> 's \<Rightarrow> 's"
    and granted :: "'q \<Rightarrow> nat"
    and live :: "'s \<Rightarrow> (nat \<times> nat) set"
    and area :: "'s \<Rightarrow> nat set"
    and invar :: "'s \<Rightarrow> bool"
  assumes alloc_invar: "invar s \<Longrightarrow> invar (snd (alloc q s))"
    and dealloc_invar: "invar s \<Longrightarrow> invar (dealloc p s)"
    and alloc_area: "area (snd (alloc q s)) = area s"
    and dealloc_area: "area (dealloc p s) = area s"
    and alloc_fail: "alloc q s = (None, s') \<Longrightarrow> s' = s"
    and alloc_live: "invar s \<Longrightarrow> alloc q s = (Some p, s') \<Longrightarrow>
      live s' = (if granted q = 0 then live s else insert (unat p, granted q) (live s))"
    and alloc_fresh: "invar s \<Longrightarrow> alloc q s = (Some p, s') \<Longrightarrow> b \<in> live s \<Longrightarrow>
      block_span (unat p, granted q) \<inter> block_span b = {}"
    and alloc_within: "invar s \<Longrightarrow> alloc q s = (Some p, s') \<Longrightarrow>
      block_span (unat p, granted q) \<subseteq> area s"
    and dealloc_live: "invar s \<Longrightarrow> live (dealloc p s) = {b \<in> live s. fst b \<noteq> unat p}"
begin

lemma alloc_held:
  assumes "invar s" and "alloc q s = (Some p, s')"
    and "live s = {b \<in> set (held_blocks granted held). snd b \<noteq> 0}"
    and "disjoint_blocks (held_blocks granted held)"
  shows "live s' = {b \<in> set (held_blocks granted (held @ [(p, q)])). snd b \<noteq> 0}
    \<and> disjoint_blocks (held_blocks granted (held @ [(p, q)]))"
proof -
  have "block_span b \<inter> block_span (unat p, granted q) = {}"
    if "b \<in> set (held_blocks granted held)" for b
  proof (cases "snd b = 0")
    case True
    then show ?thesis by (simp add: block_span_empty)
  next
    case False
    with that assms(3) have "b \<in> live s" by simp
    from alloc_fresh [OF assms(1,2) this] show ?thesis by (simp add: Int_commute)
  qed
  then show ?thesis
    using alloc_live [OF assms(1,2)] assms(3,4) by (auto simp: disjoint_blocks_snoc)
qed

text \<open>
  At every point of a client's run the pointers it holds name pairwise disjoint blocks of the
  area, and the blocks the allocator counts as taken are exactly those.
\<close>

lemma client_run_held:
  assumes "client_run alloc dealloc ops s held = (s', held')" and "invar s"
    and "live s = {b \<in> set (held_blocks granted held). snd b \<noteq> 0}"
    and "disjoint_blocks (held_blocks granted held)"
    and "\<forall>b \<in> set (held_blocks granted held). block_span b \<subseteq> area s"
  shows "invar s' \<and> live s' = {b \<in> set (held_blocks granted held'). snd b \<noteq> 0}
    \<and> disjoint_blocks (held_blocks granted held')
    \<and> (\<forall>b \<in> set (held_blocks granted held'). block_span b \<subseteq> area s)"
  using assms
proof (induction ops arbitrary: s held)
  case (Cons op ops)
  show ?case
  proof (cases op)
    case (Alloc q)
    obtain r t where al: "alloc q s = (r, t)" by (cases "alloc q s")
    have inv: "invar t" and ar: "area t = area s"
      using alloc_invar [OF Cons.prems(2), of q] alloc_area [of q s] al by simp_all
    show ?thesis
    proof (cases r)
      case None
      with al have "t = s" by (intro alloc_fail [of q s]) simp
      with Cons.IH [of s held] Cons.prems Alloc al None show ?thesis by simp
    next
      case (Some p)
      with al have al: "alloc q s = (Some p, t)" by simp
      have "\<forall>b \<in> set (held_blocks granted (held @ [(p, q)])). block_span b \<subseteq> area t"
        using Cons.prems(5) alloc_within [OF Cons.prems(2) al] by (simp add: ar)
      moreover have "client_run alloc dealloc ops t (held @ [(p, q)]) = (s', held')"
        using Cons.prems(1) by (simp add: Alloc al)
      ultimately show ?thesis
        using Cons.IH [OF _ inv] alloc_held [OF Cons.prems(2) al Cons.prems(3,4)] unfolding ar by blast
    qed
  next
    case (Free p)
    let ?h = "filter (\<lambda>h. fst h \<noteq> p) held"
    have "live (dealloc p s) = {b \<in> set (held_blocks granted ?h). snd b \<noteq> 0}"
      using Cons.prems(2,3) by (auto simp: dealloc_live held_blocks_filter)
    with Cons.IH [of "dealloc p s" ?h] Cons.prems Free show ?thesis
      by (simp add: dealloc_invar dealloc_area held_blocks_filter disjoint_blocks_filter)
  qed
qed simp

end

text \<open>The memory manager meets the contract.\<close>

lemma live_of_append [simp]: "live_of (xs @ ys) = live_of xs \<union> live_of ys"
  by (auto simp: live_of_def)

lemma live_of_Cons:
  "live_of (c # cs) = (if \<not> mc_free c \<and> mc_size c \<noteq> 0
     then insert (unat (mc_addr c), unat (mc_size c)) (live_of cs) else live_of cs)"
  by (auto simp: live_of_def)

lemma live_of_carve:
  "r \<le> mc_size c \<Longrightarrow>
   live_of (carve r c) = (if unat r = 0 then {} else {(unat (mc_addr c), unat r)})"
  by (cases "mc_size c > r") (auto simp: carve_def MemChunk_def live_of_def unat_eq_0)

lemma live_blocks_carve:
  assumes "mm_chunks mm = pre @ c # post" and "mc_free c" and "r \<le> mc_size c"
  shows "live_blocks (mm\<lparr>mm_chunks := pre @ carve r c @ post\<rparr>) =
    (if unat r = 0 then live_blocks mm else insert (unat (mc_addr c), unat r) (live_blocks mm))"
  using assms by (auto simp: live_blocks_def live_of_carve live_of_Cons)

lemma allocate_SomeD:
  assumes "allocate w n mm = (Some p, mm')"
  obtains pre c post where "mm_chunks mm = pre @ c # post" "mc_free c" "roundedSize n \<le> mc_size c"
    "p = mc_addr c" "mm' = mm\<lparr>mm_chunks := pre @ carve (roundedSize n) c @ post\<rparr>"
  using assms by (cases rule: allocate_cases [of w n mm]) auto

lemma span_carved:
  "unat r \<le> unat (mc_size c) \<Longrightarrow> block_span (unat (mc_addr c), unat r) \<subseteq> chunk_range c"
  by (auto simp: block_span_def chunk_range_def)

lemma allocate_fresh:
  assumes "mm_inv mm" and "allocate w n mm = (Some p, mm')" and "b \<in> live_blocks mm"
  shows "block_span (unat p, unat (roundedSize n)) \<inter> block_span b = {}"
proof -
  from assms(2) obtain pre c post where c: "mm_chunks mm = pre @ c # post" "mc_free c"
    "roundedSize n \<le> mc_size c" "p = mc_addr c" by (rule allocate_SomeD)
  from assms(3) obtain d where d: "d \<in> set (mm_chunks mm)" "\<not> mc_free d" "block_span b = chunk_range d"
    by (auto simp: live_blocks_def live_of_def block_span_def chunk_range_def)
  with c have "d \<in> set pre \<union> set post" by auto
  with assms(1) c(1) have "chunk_range c \<inter> chunk_range d = {}"
    by (metis mm_inv_def tiles_disjoint)
  with c d span_carved [of "roundedSize n" c] show ?thesis
    by (auto simp: word_le_nat_alt)
qed

lemma allocate_within:
  assumes "mm_inv mm" and "allocate w n mm = (Some p, mm')"
  shows "block_span (unat p, unat (roundedSize n)) \<subseteq> arena mm"
proof -
  from assms(2) obtain pre c post where c: "mm_chunks mm = pre @ c # post"
    "roundedSize n \<le> mc_size c" "p = mc_addr c" by (rule allocate_SomeD)
  have "chunk_range c \<subseteq> arena mm"
    using assms(1) c(1) tiles_chunk_range [of "unat (mm_base mm)" "mm_chunks mm" "mm_end mm" c]
    by (simp add: mm_inv_def arena_def)
  with c span_carved [of "roundedSize n" c] show ?thesis
    by (auto simp: word_le_nat_alt)
qed

lemma live_blocks_free: "live_blocks (mm_free p mm) = {b \<in> live_blocks mm. fst b \<noteq> unat p}"
proof -
  have inj: "unat a = unat p \<longleftrightarrow> a = p" for a :: u64
    by (rule word_unat_eq_iff [symmetric])
  have "live_of (map (\<lambda>c. if mc_addr c = p then c\<lparr>mc_free := True\<rparr> else c) cs) =
      {b \<in> live_of cs. fst b \<noteq> unat p}" for cs
  proof (induction cs)
    case (Cons c cs)
    show ?case
    proof (cases "mc_addr c = p")
      case True
      with Cons.IH show ?thesis by (simp only: list.map live_of_Cons) force
    next
      case False
      then have "fst (unat (mc_addr c), unat (mc_size c)) \<noteq> unat p" by (simp add: inj)
      with False Cons.IH show ?thesis by (simp only: list.map live_of_Cons if_False) force
    qed
  qed (simp add: live_of_def)
  then show ?thesis by (simp add: live_blocks_def)
qed

interpretation mm: region_allocator
  "\<lambda>(w, n). allocate w n" mm_free "\<lambda>(w, n). unat (roundedSize n)" live_blocks arena mm_inv
proof (unfold_locales, goal_cases)
  case (1 s q) then show ?case by (cases q) (simp add: mm_inv_allocate)
next
  case (2 s p) then show ?case by (rule mm_inv_free)
next
  case (3 q s) show ?case
    by (cases q, cases rule: allocate_cases [of "fst q" "snd q" s]) (auto simp: arena_def mm_end_def)
next
  case (4 p s) show ?case by (simp add: arena_def mm_end_def)
next
  case (5 q s s') then show ?case
    by (cases q, cases rule: allocate_cases [of "fst q" "snd q" s]) auto
next
  case (6 s q p s') then show ?case
    by (cases q) (auto elim!: allocate_SomeD simp: live_blocks_carve)
next
  case (7 s q p s' b) then show ?case by (cases q) (auto dest: allocate_fresh)
next
  case (8 s q p s') then show ?case by (cases q) (auto dest: allocate_within)
next
  case (9 s p) show ?case by (rule live_blocks_free)
qed


section \<open>Memory contents and alignment\<close>

lemma foldl_memset:
  "foldl (\<lambda>m c. memset m (mc_addr c) 0 (mc_size c)) m cs x =
     (if \<exists>c \<in> set cs. x - mc_addr c < mc_size c then 0 else m x)"
  by (induction cs arbitrary: m) (auto simp: memset_def)

lemma mm_inv_chunk_bound:
  assumes "mm_inv mm" and "c \<in> set (mm_chunks mm)"
  shows "unat (mc_addr c) + unat (mc_size c) \<le> 2 ^ 64"
proof (cases "mc_size c = 0")
  case True
  then show ?thesis using unat_less_u64 [of "mc_addr c"] by simp
next
  case False
  then have "unat (mc_addr c) + unat (mc_size c) - 1 \<in> chunk_range c"
    using unat_gt_0 [of "mc_size c"] by (simp add: chunk_range_def)
  with assms tiles_chunk_range [of "unat (mm_base mm)" "mm_chunks mm" "mm_end mm" c]
  have "unat (mc_addr c) + unat (mc_size c) - 1 < mm_end mm"
    by (auto simp: mm_inv_def)
  moreover have "mm_end mm \<le> 2 ^ 64" using assms(1) by (simp add: mm_inv_def)
  moreover have "0 < unat (mc_size c)" using False by (simp add: unat_gt_0)
  ultimately show ?thesis by linarith
qed

lemma in_chunk_iff:
  assumes "mm_inv mm" and "c \<in> set (mm_chunks mm)"
  shows "x - mc_addr c < mc_size c \<longleftrightarrow> unat x \<in> chunk_range c"
  using word_in_window_iff [OF mm_inv_chunk_bound [OF assms]] by (auto simp: chunk_range_def)

lemma mm_ram_free:
  assumes "mm_inv mm"
  shows "mm_ram (mm_free p mm) x =
    (if \<exists>c \<in> set (mm_chunks mm). mc_addr c = p \<and> unat x \<in> chunk_range c then 0 else mm_ram mm x)"
  using in_chunk_iff [OF assms] by (auto simp: foldl_memset)

lemma distinct_chunks_disjoint:
  assumes "mm_inv mm" and "c \<in> set (mm_chunks mm)" and "d \<in> set (mm_chunks mm)" and "c \<noteq> d"
  shows "chunk_range c \<inter> chunk_range d = {}"
proof -
  from assms(2) obtain xs ys where eq: "mm_chunks mm = xs @ c # ys"
    by (meson split_list)
  with assms(3,4) have "d \<in> set xs \<union> set ys" by auto
  with assms(1) eq show ?thesis by (metis mm_inv_def tiles_disjoint)
qed

definition paged :: "memory_manager \<Rightarrow> bool" where
  "paged mm \<longleftrightarrow> (\<forall>c \<in> set (mm_chunks mm). 4096 dvd unat (mc_addr c) \<and> 4096 dvd unat (mc_size c))"

lemma unat_page_round: "unat ((x :: u64) div 4096 * 4096) = unat x div 4096 * 4096"
proof -
  have "unat x div 4096 * 4096 \<le> unat x" by simp
  then have "unat x div 4096 * 4096 < 2 ^ 64"
    using unat_less_u64 [of x] by linarith
  then show ?thesis by (simp add: unat_word_ariths unat_div)
qed

lemma unat_roundedSize:
  "unat n + 4095 < 2 ^ 64 \<Longrightarrow> unat (roundedSize n) = (unat n + 4095) div 4096 * 4096"
  by (simp add: roundedSize_def unat_page_round unat_add_no_wrap)

lemma roundedSize_paged: "4096 dvd unat (roundedSize n)"
  by (simp add: roundedSize_def unat_page_round)

lemma paged_allocate:
  assumes "mm_inv mm" and "paged mm"
  shows "paged (snd (allocate w n mm))"
proof (cases rule: allocate_cases [of w n mm])
  case fail
  with assms show ?thesis by simp
next
  case (ok pre c post)
  let ?r = "roundedSize n"
  have c: "4096 dvd unat (mc_addr c)" "4096 dvd unat (mc_size c)"
    using assms(2) ok(1) by (auto simp: paged_def)
  have "4096 dvd unat (mc_addr d) \<and> 4096 dvd unat (mc_size d)" if d: "d \<in> set (carve ?r c)" for d
  proof (cases "mc_size c > ?r")
    case True
    have "unat (mc_addr c) + unat (mc_size c) \<le> 2 ^ 64"
      using mm_inv_chunk_bound [OF assms(1), of c] ok(1) by simp
    then have "unat (mc_addr c + ?r) = unat (mc_addr c) + unat ?r"
      using True by (intro unat_add_no_wrap) (simp add: word_less_nat_alt)
    moreover have "unat (mc_size c - ?r) = unat (mc_size c) - unat ?r"
      using ok(3) by (rule unat_minus_le)
    ultimately show ?thesis
      using d True c roundedSize_paged [of n]
      by (auto simp: carve_def MemChunk_def dvd_diff_nat)
  next
    case False
    with d c show ?thesis by (simp add: carve_def)
  qed
  with assms(2) ok show ?thesis by (auto simp: paged_def)
qed

lemma paged_free: "paged mm \<Longrightarrow> paged (mm_free p mm)"
  by (auto simp: paged_def)

lemma run_ops_paged:
  "mm_inv mm \<Longrightarrow> paged mm \<Longrightarrow> paged (run_ops (\<lambda>(w, n). allocate w n) mm_free ops mm)"
proof (induction ops arbitrary: mm)
  case (Cons op ops)
  show ?case
  proof (cases op)
    case (Alloc q)
    with Cons show ?thesis by (cases q) (simp add: mm_inv_allocate paged_allocate)
  next
    case (Free p)
    with Cons show ?thesis by (simp add: mm_inv_free paged_free del: mm_free_sel)
  qed
qed simp

lemma live_blocks_new [simp]: "live_blocks (MemoryManager m b n) = {}"
  by (simp add: live_blocks_def MemoryManager_def MemChunk_def live_of_def)

lemma client_run_aligned:
  assumes "client_run (\<lambda>(w, n). allocate w n) mm_free ops mm held = (mm', held')"
    and "mm_inv mm" and "paged mm" and "\<forall>(p, q) \<in> set held. 4096 dvd unat p"
  shows "\<forall>(p, q) \<in> set held'. 4096 dvd unat p"
  using assms
proof (induction ops arbitrary: mm held)
  case (Cons op ops)
  show ?case
  proof (cases op)
    case (Alloc q)
    obtain w n where q: "q = (w, n)" by (cases q)
    obtain r t where al: "allocate w n mm = (r, t)" by (cases "allocate w n mm")
    have t: "mm_inv t" "paged t"
      using mm_inv_allocate [OF Cons.prems(2), of w n] paged_allocate [OF Cons.prems(2,3), of w n] al
      by simp_all
    show ?thesis
    proof (cases r)
      case None
      with Cons.IH [of t held] Cons.prems Alloc al q t show ?thesis by simp
    next
      case (Some p)
      with al have "4096 dvd unat p"
        using Cons.prems(3) by (auto simp: paged_def elim!: allocate_SomeD)
      with Cons.IH [of t "held @ [(p, q)]"] Cons.prems Alloc al q t Some show ?thesis by simp
    qed
  next
    case (Free p)
    with Cons.IH [of "mm_free p mm" "filter (\<lambda>h. fst h \<noteq> p) held"] Cons.prems show ?thesis
      by (simp add: mm_inv_free paged_free del: mm_free_sel)
  qed
qed simp

lemma client_run_new:
  assumes "client_run (\<lambda>(w, n). allocate w n) mm_free ops (MemoryManager m b n) [] = (mm, held)"
    and "unat b + unat n \<le> 2 ^ 64"
  shows "mm_inv mm
    \<and> live_blocks mm = {x \<in> set (held_blocks (\<lambda>(w, k). unat (roundedSize k)) held). snd x \<noteq> 0}
    \<and> disjoint_blocks (held_blocks (\<lambda>(w, k). unat (roundedSize k)) held)
    \<and> (\<forall>x \<in> set (held_blocks (\<lambda>(w, k). unat (roundedSize k)) held).
         block_span x \<subseteq> {unat b ..< unat b + unat n})"
  using mm.client_run_held [OF assms(1) mm_inv_MemoryManager [OF assms(2)]]
  by (simp add: disjoint_blocks_def arena_def mm_end_def) (simp add: MemoryManager_def)

lemma roundedSize_covers: "unat k + 4095 < 2 ^ 64 \<Longrightarrow> unat k \<le> unat (roundedSize k)"
  using div_mult_mod_eq [of "unat k + 4095" 4096] mod_less_divisor [of 4096 "unat k + 4095"]
  by (simp add: unat_roundedSize)

lemma allocate_None_iff:
  assumes "\<And>j. \<not> w j"
  shows "fst (allocate w n mm) = None \<longleftrightarrow> \<not> (\<exists>c \<in> set (mm_chunks mm). fits (roundedSize n) c)"
proof (cases "\<exists>c \<in> set (mm_chunks mm). fits (roundedSize n) c")
  case True
  then obtain pre c post where "mm_chunks mm = pre @ c # post" "fits (roundedSize n) c"
    "\<forall>d \<in> set pre. \<not> fits (roundedSize n) d" by (rule split_list_first_propE)
  with True show ?thesis
    using allocate_loop_first_fit [of w pre "roundedSize n" c] assms by (simp add: allocate_def)
next
  case False
  then show ?thesis using allocate_loop_no_fit [of "mm_chunks mm" "roundedSize n"] by (simp add: allocate_def)
qed

lemma alloc_then_free:
  assumes "mm_inv mm" and "allocate w n mm = (Some p, mm')" and "roundedSize n \<noteq> 0"
  shows "live_blocks (mm_free p mm') = live_blocks mm"
proof -
  have "live_blocks mm' = insert (unat p, unat (roundedSize n)) (live_blocks mm)"
    using mm.alloc_live [OF assms(1), of "(w, n)" p mm'] assms(2,3) by (simp add: unat_eq_0)
  moreover have "fst b \<noteq> unat p" if "b \<in> live_blocks mm" for b
  proof
    assume "fst b = unat p"
    moreover have "0 < snd b" using that by (auto simp: live_blocks_def live_of_def unat_gt_0)
    ultimately have "unat p \<in> block_span (unat p, unat (roundedSize n)) \<inter> block_span b"
      using assms(3) by (simp add: block_span_def unat_gt_0)
    with allocate_fresh [OF assms(1,2) that] show False by simp
  qed
  ultimately show ?thesis by (auto simp: live_blocks_free)
qed

lemma allocate_result:
  obtains (none) mm' where "allocate w n mm = (None, mm')"
  | (some) p mm' where "allocate w n mm = (Some p, mm')"
  by (metis option.exhaust surj_pair)

lemma mm_ram_free_live:
  assumes "mm_inv mm" and "b \<in> live_blocks mm" and "unat x \<in> block_span b"
  shows "mm_ram (mm_free p mm) x = (if fst b = unat p then 0 else mm_ram mm x)"
proof -
  from assms(2) obtain d where d: "d \<in> set (mm_chunks mm)" "b = (unat (mc_addr d), unat (mc_size d))"
    by (auto simp: live_blocks_def live_of_def)
  then have x: "unat x \<in> chunk_range d" using assms(3) by (simp add: block_span_def chunk_range_def)
  have "(\<exists>e \<in> set (mm_chunks mm). mc_addr e = p \<and> unat x \<in> chunk_range e) \<longleftrightarrow> mc_addr d = p"
    using x d(1) distinct_chunks_disjoint [OF assms(1) d(1)] by blast
  then show ?thesis by (subst mm_ram_free [OF assms(1)]) (simp add: d(2) word_unat_eq_iff)
qed

section \<open>Properties\<close>

text \<open>
  C1. No two callers are given the same memory. Whatever sequence of \<open>allocate\<close> and \<open>free\<close> calls is
  made on a new manager (with any sizes, any pointers freed, and exchanges failing spuriously at
  will), the pointers returned and not freed since name blocks, of the size requested rounded up to
  pages, that lie inside the buffer and are pairwise disjoint; each block covers the request unless
  the rounding wraps at 64 bits. The blocks the manager counts as taken are exactly those, and its
  chunk list still tiles the buffer.
\<close>

theorem run_ops_blocks_disjoint:
  assumes "unat b + unat n \<le> 2 ^ 64"
    and "client_run (\<lambda>(w, n). allocate w n) mm_free ops (MemoryManager m b n) [] = (mm, held)"
  shows "(\<forall>i < length held. \<forall>j < length held. i \<noteq> j \<longrightarrow>
        block_span (unat (fst (held ! i)), unat (roundedSize (snd (snd (held ! i)))))
        \<inter> block_span (unat (fst (held ! j)), unat (roundedSize (snd (snd (held ! j))))) = {})
    \<and> (\<forall>(p, w, k) \<in> set held.
        block_span (unat p, unat (roundedSize k)) \<subseteq> {unat b ..< unat b + unat n}
        \<and> (unat k + 4095 < 2 ^ 64 \<longrightarrow> unat k \<le> unat (roundedSize k)))
    \<and> live_blocks mm = (\<lambda>(p, w, k). (unat p, unat (roundedSize k))) ` {(p, w, k) \<in> set held. roundedSize k \<noteq> 0}
    \<and> mm_inv mm"
proof -
  let ?bs = "held_blocks (\<lambda>(w :: nat \<Rightarrow> bool, k). unat (roundedSize k)) held"
  note run = client_run_new [OF assms(2,1)]
  have nth: "?bs ! i = (unat (fst (held ! i)), unat (roundedSize (snd (snd (held ! i)))))"
    if "i < length held" for i using that by (simp add: held_blocks_def split: prod.split)
  have len: "length ?bs = length held" by (simp add: held_blocks_def)
  have "block_span (unat p, unat (roundedSize k)) \<subseteq> {unat b ..< unat b + unat n}"
    if "(p, w, k) \<in> set held" for p w k
    using run that by (auto simp: held_blocks_def)
  moreover have "live_blocks mm =
      (\<lambda>(p, w, k). (unat p, unat (roundedSize k))) ` {(p, w, k) \<in> set held. roundedSize k \<noteq> 0}"
  proof -
    have "{x \<in> set ?bs. snd x \<noteq> 0} =
        (\<lambda>(p, w, k). (unat p, unat (roundedSize k))) ` {(p, w, k) \<in> set held. roundedSize k \<noteq> 0}"
      by (auto simp: held_blocks_def unat_gt_0 image_iff split_beta)
    with run show ?thesis by simp
  qed
  moreover have "block_span (unat (fst (held ! i)), unat (roundedSize (snd (snd (held ! i)))))
      \<inter> block_span (unat (fst (held ! j)), unat (roundedSize (snd (snd (held ! j))))) = {}"
    if "i < length held" "j < length held" "i \<noteq> j" for i j
    using run disjoint_blocks_nth [of ?bs i j] that by (simp add: nth len)
  ultimately show ?thesis using run roundedSize_covers by blast
qed

theorem run_ops_blocks_disjoint_witness:
  "\<exists>mm. client_run (\<lambda>(w, n). allocate w n) mm_free
      [Alloc (\<lambda>_. False, 5000), Alloc (\<lambda>_. False, 1), Free 0x10000, Alloc (\<lambda>_. False, 4096)]
      (MemoryManager (\<lambda>_. 7) 0x10000 0x8000) [] = (mm, [(0x12000, \<lambda>_. False, 1), (0x10000, \<lambda>_. False, 4096)])
    \<and> live_blocks mm = {(0x12000, 4096), (0x10000, 4096)}
    \<and> block_span (0x12000, 4096) \<inter> block_span (0x10000, 4096) = {}"
proof -
  have r: "roundedSize 5000 = 8192" "roundedSize 1 = 4096" "roundedSize 4096 = 4096"
    by (simp_all add: roundedSize_def)
  have "\<exists>mm. client_run (\<lambda>(w, n). allocate w n) mm_free
      [Alloc (\<lambda>_. False, 5000), Alloc (\<lambda>_. False, 1), Free 0x10000, Alloc (\<lambda>_. False, 4096)]
      (MemoryManager (\<lambda>_. 7) 0x10000 0x8000) [] = (mm, [(0x12000, \<lambda>_. False, 1), (0x10000, \<lambda>_. False, 4096)])"
    by (simp add: allocate_def MemoryManager_def MemChunk_def compare_exchange_weak_def r mm_free_def)
  then obtain mm where run: "client_run (\<lambda>(w, n). allocate w n) mm_free
      [Alloc (\<lambda>_. False, 5000), Alloc (\<lambda>_. False, 1), Free 0x10000, Alloc (\<lambda>_. False, 4096)]
      (MemoryManager (\<lambda>_. 7) 0x10000 0x8000) [] = (mm, [(0x12000, \<lambda>_. False, 1), (0x10000, \<lambda>_. False, 4096)])"
    by blast
  note th = run_ops_blocks_disjoint [OF _ run]
  have "{(p :: u64, w :: nat \<Rightarrow> bool, k) \<in> set [(0x12000, \<lambda>_. False, 1), (0x10000, \<lambda>_. False, 4096)].
      roundedSize k \<noteq> 0} = {(0x12000, \<lambda>_. False, 1), (0x10000, \<lambda>_. False, 4096)}"
    by (auto simp: r)
  then have "live_blocks mm = {(0x12000, 4096), (0x10000, 4096)}"
    using th by (simp add: r)
  moreover have "block_span (0x12000, 4096) \<inter> block_span (0x10000, 4096) = {}"
    using th [THEN conjunct1, rule_format, of 0 1] by (simp add: r)
  ultimately show ?thesis using run by blast
qed

text \<open>
  C13. \<open>allocate\<close> and \<open>free\<close> refine the abstract operations on the set of live blocks. A successful
  \<open>allocate\<close> adds exactly one block, of the rounded size (none when that is 0), which lies in the
  buffer and overlaps no live block; freeing it gives back the set there was. A failing one changes
  nothing, and without spurious failures it fails only when no free chunk is large enough. \<open>free\<close>
  removes exactly the blocks at its argument, clears their bytes and keeps those of every other live
  block; \<open>allocate\<close> touches no byte. Both keep the chunk list a tiling of the buffer.
\<close>

theorem allocate_refines:
  assumes "mm_inv mm"
  shows "(case allocate w n mm of
       (None, mm') \<Rightarrow> mm' = mm \<and> ((\<forall>j. \<not> w j) \<longrightarrow> (\<forall>c \<in> set (mm_chunks mm). mc_free c \<longrightarrow> mc_size c < roundedSize n))
     | (Some p, mm') \<Rightarrow>
         live_blocks mm' = (if roundedSize n = 0 then live_blocks mm
                            else insert (unat p, unat (roundedSize n)) (live_blocks mm))
         \<and> (\<forall>b \<in> live_blocks mm. block_span (unat p, unat (roundedSize n)) \<inter> block_span b = {})
         \<and> block_span (unat p, unat (roundedSize n)) \<subseteq> arena mm
         \<and> mm_ram mm' = mm_ram mm \<and> mm_inv mm'
         \<and> (roundedSize n \<noteq> 0 \<longrightarrow> live_blocks (mm_free p mm') = live_blocks mm))
    \<and> live_blocks (mm_free q mm) = {b \<in> live_blocks mm. fst b \<noteq> unat q}
    \<and> (\<forall>b \<in> live_blocks mm. \<forall>x. unat x \<in> block_span b \<longrightarrow>
         mm_ram (mm_free q mm) x = (if fst b = unat q then 0 else mm_ram mm x))
    \<and> mm_inv (mm_free q mm)"
proof -
  have none_ok: "mm' = mm \<and> ((\<forall>j. \<not> w j) \<longrightarrow> (\<forall>c \<in> set (mm_chunks mm). mc_free c \<longrightarrow> mc_size c < roundedSize n))"
    if "allocate w n mm = (None, mm')" for mm'
    using that mm.alloc_fail [of "(w, n)" mm mm'] allocate_None_iff [of w n mm]
    by (auto simp: fits_def not_le)
  have some_ok: "live_blocks mm' = (if roundedSize n = 0 then live_blocks mm
        else insert (unat p, unat (roundedSize n)) (live_blocks mm))
      \<and> (\<forall>b \<in> live_blocks mm. block_span (unat p, unat (roundedSize n)) \<inter> block_span b = {})
      \<and> block_span (unat p, unat (roundedSize n)) \<subseteq> arena mm
      \<and> mm_ram mm' = mm_ram mm \<and> mm_inv mm'
      \<and> (roundedSize n \<noteq> 0 \<longrightarrow> live_blocks (mm_free p mm') = live_blocks mm)"
    if al: "allocate w n mm = (Some p, mm')" for p mm'
    using mm.alloc_live [OF assms, of "(w, n)" p mm'] allocate_fresh [OF assms al]
      allocate_within [OF assms al] mm_inv_allocate [OF assms, of w n] alloc_then_free [OF assms al] al
    by (auto elim: allocate_SomeD simp: unat_eq_0)
  note free = live_blocks_free [of q mm] mm_ram_free_live [OF assms, of _ _ q] mm_inv_free [OF assms, of q]
  show ?thesis
  proof (cases rule: allocate_result [of w n mm])
    case (none mm')
    show ?thesis unfolding none prod.case option.case using none_ok [OF none] free by blast
  next
    case (some p mm')
    show ?thesis unfolding some prod.case option.case using some_ok [OF some] free by blast
  qed
qed

theorem allocate_refines_witness:
  "live_blocks (snd (allocate (\<lambda>_. False) 5000 (MemoryManager (\<lambda>_. 7) 0x10000 0x8000)))
     = {(0x10000, 8192)}
   \<and> live_blocks (mm_free 0x10000 (snd (allocate (\<lambda>_. False) 5000 (MemoryManager (\<lambda>_. 7) 0x10000 0x8000)))) = {}
   \<and> mm_ram (mm_free 0x10000 (snd (allocate (\<lambda>_. False) 5000 (MemoryManager (\<lambda>_. 7) 0x10000 0x8000)))) 0x10010 = 0"
proof -
  let ?mm = "MemoryManager (\<lambda>_. 7) 0x10000 0x8000"
  have inv: "mm_inv ?mm" by (rule mm_inv_MemoryManager) simp
  obtain mm' where al: "allocate (\<lambda>_. False) 5000 ?mm = (Some 0x10000, mm')"
    by (simp add: allocate_def MemoryManager_def MemChunk_def roundedSize_def compare_exchange_weak_def)
  have r: "roundedSize 5000 = 8192" by (simp add: roundedSize_def)
  have 1: "live_blocks mm' = {(0x10000, 8192)}" "mm_inv mm'" "live_blocks (mm_free 0x10000 mm') = {}"
    using allocate_refines [OF inv, of "\<lambda>_. False" 5000] by (simp_all add: al r del: mm_free_sel)
  have "\<forall>b \<in> live_blocks mm'. \<forall>x. unat x \<in> block_span b \<longrightarrow>
      mm_ram (mm_free 0x10000 mm') x = (if fst b = unat (0x10000 :: u64) then 0 else mm_ram mm' x)"
    using allocate_refines [OF 1(2), of "\<lambda>_. False" 1 "0x10000"] by blast
  then have "mm_ram (mm_free 0x10000 mm') 0x10010 = 0" unfolding 1 by (simp add: block_span_def del: mm_free_sel)
  with 1 show ?thesis by (simp add: al del: mm_free_sel)
qed

text \<open>
  Without spurious failures the search is first fit: the block taken is the first free chunk
  large enough, it is cut to the rounded size and the rest becomes a new free chunk; when there
  is no such chunk the result is null and nothing changes.
\<close>

theorem allocate_first_fit:
  assumes "\<And>j. \<not> w j" and "\<forall>d \<in> set pre. \<not> fits (roundedSize n) d"
  shows "(fits (roundedSize n) c \<longrightarrow>
      allocate w n (mm\<lparr>mm_chunks := pre @ c # post\<rparr>) =
        (Some (mc_addr c), mm\<lparr>mm_chunks := pre @ carve (roundedSize n) c @ post\<rparr>))
    \<and> allocate w n (mm\<lparr>mm_chunks := pre\<rparr>) = (None, mm\<lparr>mm_chunks := pre\<rparr>)"
  using allocate_loop_first_fit [OF assms(1) assms(2)] allocate_loop_no_fit [OF assms(2)]
  by (simp add: allocate_def)

theorem allocate_first_fit_witness:
  "allocate (\<lambda>_. False) 1 (MemoryManager (\<lambda>_. 7) 0x10000 0x8000) =
     (Some 0x10000, (MemoryManager (\<lambda>_. 7) 0x10000 0x8000)\<lparr>mm_chunks :=
        [\<lparr>mc_addr = 0x10000, mc_size = 4096, mc_free = False\<rparr>, MemChunk 0x11000 0x7000]\<rparr>)"
proof -
  let ?mm = "MemoryManager (\<lambda>_. 7) 0x10000 0x8000" and ?c = "MemChunk 0x10000 0x8000"
  have r: "roundedSize 1 = 4096" by (simp add: roundedSize_def)
  have f: "fits (roundedSize 1) ?c" by (simp add: fits_def r MemChunk_def)
  have "allocate (\<lambda>_. False) 1 (?mm\<lparr>mm_chunks := [] @ ?c # []\<rparr>) =
      (Some (mc_addr ?c), ?mm\<lparr>mm_chunks := [] @ carve (roundedSize 1) ?c @ []\<rparr>)"
    using allocate_first_fit [where w = "\<lambda>_. False" and pre = "[]" and n = 1 and c = ?c
        and mm = ?mm and post = "[]"] f by simp
  then show ?thesis by (simp add: r carve_def MemChunk_def MemoryManager_def)
qed

text \<open>
  \<open>free\<close> clears exactly the chunk that starts at the pointer: its bytes read zero, the bytes
  of every other live block are kept, and exactly the blocks at that address stop being live.
\<close>

theorem mm_free_clears:
  assumes "mm_inv mm" and "c \<in> set (mm_chunks mm)" and "mc_addr c = p"
  shows "(\<forall>x. unat x \<in> chunk_range c \<longrightarrow> mm_ram (mm_free p mm) x = 0)
    \<and> (\<forall>b \<in> live_blocks mm. fst b \<noteq> unat p \<longrightarrow>
         (\<forall>x. unat x \<in> block_span b \<longrightarrow> mm_ram (mm_free p mm) x = mm_ram mm x))
    \<and> live_blocks (mm_free p mm) = {b \<in> live_blocks mm. fst b \<noteq> unat p}
    \<and> mm_inv (mm_free p mm)"
proof -
  have "mm_ram (mm_free p mm) x = mm_ram mm x"
    if "b \<in> live_blocks mm" "fst b \<noteq> unat p" "unat x \<in> block_span b" for b x
    using mm_ram_free_live [OF assms(1) that(1,3), of p] that(2) by simp
  moreover have "mm_ram (mm_free p mm) x = 0" if "unat x \<in> chunk_range c" for x
    using that assms(2,3) by (subst mm_ram_free [OF assms(1)]) auto
  ultimately show ?thesis
    using live_blocks_free [of p mm] mm_inv_free [OF assms(1)] by blast
qed

theorem mm_free_clears_witness:
  "mm_ram (mm_free 0x10000 (MemoryManager (\<lambda>_. 7) 0x10000 0x8000)) 0x10010 = 0"
proof -
  let ?mm = "MemoryManager (\<lambda>_. 7) 0x10000 0x8000" and ?c = "MemChunk 0x10000 0x8000"
  have inv: "mm_inv ?mm" by (rule mm_inv_MemoryManager) simp
  have c: "?c \<in> set (mm_chunks ?mm)" "mc_addr ?c = 0x10000"
    by (simp_all add: MemoryManager_def MemChunk_def)
  have x: "unat (0x10010 :: u64) \<in> chunk_range ?c" by (simp add: chunk_range_def MemChunk_def)
  show ?thesis using mm_free_clears [OF inv c] x by blast
qed

text \<open>
  Freed memory can be had again: after \<open>free\<close> on the address of a chunk, a request that
  rounds to at most the chunk's size succeeds.
\<close>

theorem allocate_after_free:
  assumes "\<And>j. \<not> w j" and "c \<in> set (mm_chunks mm)" and "roundedSize n \<le> mc_size c"
  shows "\<exists>p mm'. allocate w n (mm_free (mc_addr c) mm) = (Some p, mm')"
proof -
  let ?cs = "mm_chunks (mm_free (mc_addr c) mm)"
  have "\<exists>d \<in> set ?cs. fits (roundedSize n) d"
    using assms(2,3)
    by (intro bexI [of _ "c\<lparr>mc_free := True\<rparr>"]) (auto simp: fits_def intro!: image_eqI [of _ _ c])
  then obtain pre d post where eq: "?cs = pre @ d # post" and d: "fits (roundedSize n) d"
    and pre: "\<forall>x \<in> set pre. \<not> fits (roundedSize n) x"
    by (rule split_list_first_propE)
  show ?thesis
    using allocate_loop_first_fit [OF assms(1) pre d] eq by (simp add: allocate_def)
qed

theorem allocate_after_free_witness:
  "\<exists>p mm'. allocate (\<lambda>_. False) 0x8000
     (mm_free 0x10000 (snd (allocate (\<lambda>_. False) 0x8000 (MemoryManager (\<lambda>_. 7) 0x10000 0x8000))))
     = (Some p, mm')"
proof -
  let ?mm = "snd (allocate (\<lambda>_. False) 0x8000 (MemoryManager (\<lambda>_. 7) 0x10000 0x8000))"
    and ?c = "\<lparr>mc_addr = 0x10000, mc_size = 0x8000, mc_free = False\<rparr>"
  have "?c \<in> set (mm_chunks ?mm)" "roundedSize 0x8000 \<le> mc_size ?c"
    by (simp_all add: allocate_def MemoryManager_def MemChunk_def roundedSize_def
        compare_exchange_weak_def)
  from allocate_after_free [of "\<lambda>_. False", OF _ this] show ?thesis by simp
qed

text \<open>
  The rounding of a request: up to the next multiple of a page while that fits in 64 bits;
  above, the addition wraps and the request becomes one for 0 bytes.
\<close>

theorem roundedSize_bounds:
  "(unat n + 4095 < 2 ^ 64 \<longrightarrow> unat n \<le> unat (roundedSize n)
      \<and> unat (roundedSize n) < unat n + 4096 \<and> 4096 dvd unat (roundedSize n))
   \<and> (2 ^ 64 \<le> unat n + 4095 \<longrightarrow> roundedSize n = 0)"
proof (cases "unat n + 4095 < 2 ^ 64")
  case True
  have "x \<le> (x + 4095) div 4096 * 4096 \<and> (x + 4095) div 4096 * 4096 < x + 4096" for x :: nat
    using div_mult_mod_eq [of "x + 4095" 4096] mod_less_divisor [of 4096 "x + 4095"] by linarith
  with True show ?thesis by (simp add: unat_roundedSize)
next
  case False
  have "unat (n + 4095) = (unat n + 4095) mod 2 ^ 64" by (simp add: unat_word_ariths)
  also have "\<dots> = unat n + 4095 - 2 ^ 64"
    using False unat_less_u64 [of n] by (simp add: mod_if)
  finally have "unat (n + 4095) < 4096" using unat_less_u64 [of n] by simp
  then have "unat ((n + 4095) div 4096 * 4096) = 0" by (simp add: unat_page_round)
  then have "roundedSize n = 0" by (simp add: roundedSize_def unat_eq_0)
  with False show ?thesis by simp
qed

theorem roundedSize_bounds_witness:
  "unat (roundedSize 5000) = 8192 \<and> roundedSize (- 1) = 0"
  using roundedSize_bounds [of 5000] roundedSize_bounds [of "- 1"]
  by (simp add: roundedSize_def)

text \<open>
  On a buffer that starts and ends on page boundaries every pointer \<open>allocate\<close> returns, at
  any point of any run, is page aligned.
\<close>

theorem allocate_page_aligned:
  assumes "unat b + unat n \<le> 2 ^ 64" and "4096 dvd unat b" and "4096 dvd unat n"
    and "allocate w k (run_ops (\<lambda>(w, n). allocate w n) mm_free ops (MemoryManager m b n)) = (Some p, mm')"
  shows "4096 dvd unat p"
proof -
  let ?mm = "run_ops (\<lambda>(w, n). allocate w n) mm_free ops (MemoryManager m b n)"
  have "paged (MemoryManager m b n)"
    using assms(2,3) by (simp add: paged_def MemoryManager_def MemChunk_def)
  then have "paged ?mm" by (rule run_ops_paged [OF mm_inv_MemoryManager [OF assms(1)]])
  moreover from assms(4) obtain pre c post where "mm_chunks ?mm = pre @ c # post" "p = mc_addr c"
    by (rule allocate_SomeD)
  ultimately show ?thesis by (simp add: paged_def)
qed

theorem allocate_page_aligned_witness:
  "fst (allocate (\<lambda>_. False) 1 (run_ops (\<lambda>(w, n). allocate w n) mm_free [Alloc (\<lambda>_. False, 5000)]
     (MemoryManager (\<lambda>_. 7) 0x10000 0x8000))) = Some 0x12000 \<and> 4096 dvd unat (0x12000 :: u64)"
proof -
  have al: "allocate (\<lambda>_. False) 1 (run_ops (\<lambda>(w, n). allocate w n) mm_free [Alloc (\<lambda>_. False, 5000)]
      (MemoryManager (\<lambda>_. 7) 0x10000 0x8000)) = (Some 0x12000,
        snd (allocate (\<lambda>_. False) 1 (run_ops (\<lambda>(w, n). allocate w n) mm_free
          [Alloc (\<lambda>_. False, 5000)] (MemoryManager (\<lambda>_. 7) 0x10000 0x8000))))"
    by (simp add: allocate_def MemoryManager_def MemChunk_def roundedSize_def
        compare_exchange_weak_def)
  from allocate_page_aligned [OF _ _ _ al] have "4096 dvd unat (0x12000 :: u64)" by simp
  with al show ?thesis by (metis fst_conv)
qed

text \<open>
  Requests that round to 0 bytes break the link between pointer and block: on a new manager
  the pointer returned for 0 bytes is returned again for the next request, and freeing the
  former takes the latter's block away.
\<close>

theorem allocate_zero_aliases:
  assumes "\<And>j. \<not> w j" and "roundedSize z = 0" and "0 < roundedSize k" and "roundedSize k \<le> n"
    and "allocate w z (MemoryManager m b n) = (p, mm1)" and "allocate w k mm1 = (q, mm2)"
  shows "p = Some b \<and> q = Some b \<and> live_blocks mm2 = {(unat b, unat (roundedSize k))}
    \<and> live_blocks (mm_free b mm2) = {}"
proof -
  from assms(3,4) have n: "0 < n" by (rule less_le_trans)
  have mm1: "p = Some b" "mm1 = (MemoryManager m b n)\<lparr>mm_chunks :=
      [\<lparr>mc_addr = b, mc_size = 0, mc_free = False\<rparr>, MemChunk b n]\<rparr>"
    using assms(1,5) n
    by (auto simp: allocate_def MemoryManager_def MemChunk_def assms(2) compare_exchange_weak_def)
  have "q = Some b \<and> mm2 = mm1\<lparr>mm_chunks :=
      \<lparr>mc_addr = b, mc_size = 0, mc_free = False\<rparr> # carve (roundedSize k) (MemChunk b n)\<rparr>"
    using assms(1,3,4,6)
    by (auto simp: mm1 allocate_def MemChunk_def compare_exchange_weak_def carve_def)
  moreover have "live_blocks mm2 = {(unat b, unat (roundedSize k))}"
    using calculation assms(3,4) live_of_carve [of "roundedSize k" "MemChunk b n"]
    by (simp add: live_blocks_def live_of_Cons MemChunk_def unat_eq_0)
  ultimately show ?thesis using mm1 by (simp add: live_blocks_free)
qed

theorem allocate_zero_aliases_witness:
  "live_blocks (mm_free 0x10000 (snd (allocate (\<lambda>_. False) 4096
     (snd (allocate (\<lambda>_. False) 0 (MemoryManager (\<lambda>_. 7) 0x10000 0x8000)))))) = {}"
  using allocate_zero_aliases [where w = "\<lambda>_. False" and z = 0 and k = 4096
      and n = "0x8000" and m = "\<lambda>_. 7" and b = "0x10000",
      OF _ _ _ _ prod.collapse [symmetric] prod.collapse [symmetric]]
  by (simp add: roundedSize_def)

end
