(* ===== verification/Xdma_Ioctl.thy ===== *)
theory Xdma_Ioctl
  imports Xdma_Kernel
begin

text \<open>
  The file operations of the device nodes of \<open>sw/driver/xdma_driver.c\<close>: pinning the huge-page
  buffer and handing out its physical addresses (\<open>ioctl\<close>), mapping a BAR into user space
  (\<open>mmap\<close>), \<open>open\<close> and \<open>release\<close>. The kernel's answers are the record \<open>uapi\<close>; arrays the driver
  allocates live in an explicit heap, so that reading an entry that was never written, one out of
  bounds or one of a freed array is a fault, \<^term>\<open>None\<close>.
\<close>

section \<open>Commands\<close>

definition IOC :: "u32 \<Rightarrow> char \<Rightarrow> u32 \<Rightarrow> u32 \<Rightarrow> u32" where
  "IOC dir type nr sz =
     push_bit 30 dir OR push_bit 16 sz OR push_bit 8 (of_nat (of_char type)) OR nr"

text \<open>The size field is the size of a pointer: the argument types of the macros are pointers.\<close>

definition IOCTL_XDMA_BUFFER_SET :: u32 where "IOCTL_XDMA_BUFFER_SET = IOC 1 CHR ''q'' 1 8"
definition IOCTL_XDMA_MAPPING_GET :: u32 where "IOCTL_XDMA_MAPPING_GET = IOC 2 CHR ''q'' 2 8"
definition IOCTL_XDMA_RELEASE :: u32 where "IOCTL_XDMA_RELEASE = IOC 0 CHR ''q'' 3 0"

definition EFAULT :: int where "EFAULT = 14"
definition EACCES :: int where "EACCES = 13"
definition EINVAL :: int where "EINVAL = 22"
definition EAGAIN :: int where "EAGAIN = 11"
definition PAGE_SIZE :: u64 where "PAGE_SIZE = 4096"
definition PAGE_SHIFT :: nat where "PAGE_SHIFT = 12"

section \<open>State\<close>

record xdma_huge =
  huge_addr :: u64
  huge_sz :: u64

record xdma_huge_mapping =
  map_npages :: u64
  map_dma_addr :: u64

type_synonym kheap = "u64 \<Rightarrow> u64 option list option"

record uapi =
  u_copy_from_user_huge :: "u64 \<Rightarrow> int \<times> xdma_huge"
  u_copy_from_user_map :: "u64 \<Rightarrow> int \<times> xdma_huge_mapping"
  u_copy_to_user_map :: "u64 \<Rightarrow> int"
  u_copy_to_user_addrs :: "u64 \<Rightarrow> int"
  u_alloc :: "kheap \<Rightarrow> u64 \<Rightarrow> u64"
  u_get_user_pages :: "u64 \<Rightarrow> u64 \<Rightarrow> int \<times> u64 list"
  u_page_to_phys :: "u64 \<Rightarrow> u64"
  u_io_remap_pfn_range :: "u64 \<Rightarrow> u64 \<Rightarrow> u64 \<Rightarrow> int"
  u_resource_start :: "u64 \<Rightarrow> nat \<Rightarrow> u64"
  u_resource_len :: "u64 \<Rightarrow> nat \<Rightarrow> u64"

text \<open>
  \<open>refs\<close> counts the references the driver holds on a page, \<open>reserved\<close> and \<open>dirty\<close> are the page
  flags it sets, \<open>to_user\<close> what it copied out: the address and the values.
\<close>

record xio =
  xinst :: dev_inst
  heap :: kheap
  refs :: "u64 \<Rightarrow> int"
  reserved :: "u64 set"
  dirty :: "u64 set"
  to_user :: "(u64 \<times> u64 option list) list"

definition read_elem :: "xio \<Rightarrow> u64 \<Rightarrow> nat \<Rightarrow> u64 option" where
  "read_elem s p i = (case heap s p of None \<Rightarrow> None | Some xs \<Rightarrow> if i < length xs then xs ! i else None)"

definition write_elem :: "u64 \<Rightarrow> nat \<Rightarrow> u64 \<Rightarrow> xio \<Rightarrow> xio option" where
  "write_elem p i v s = (case heap s p of None \<Rightarrow> None
     | Some xs \<Rightarrow> if i < length xs then Some (s\<lparr>heap := (heap s)(p \<mapsto> xs[i := Some v])\<rparr>) else None)"

text \<open>\<open>vmalloc\<close> and \<open>kmalloc\<close> of an array of \<open>n\<close> eight-byte entries; NULL when there is no room.\<close>

definition alloc_array :: "uapi \<Rightarrow> u64 \<Rightarrow> xio \<Rightarrow> u64 \<times> xio" where
  "alloc_array U n s =
     (let p = u_alloc U (heap s) n in
      if p = 0 then (0, s) else (p, s\<lparr>heap := (heap s)(p \<mapsto> replicate (unat n) None)\<rparr>))"

definition free_array :: "u64 \<Rightarrow> xio \<Rightarrow> xio" where
  "free_array p s = s\<lparr>heap := (heap s)(p := None)\<rparr>"

definition array_contents :: "xio \<Rightarrow> u64 \<Rightarrow> u64 option list" where
  "array_contents s p = (case heap s p of None \<Rightarrow> [] | Some xs \<Rightarrow> xs)"

abbreviation upd_xinst :: "(dev_inst \<Rightarrow> dev_inst) \<Rightarrow> xio \<Rightarrow> xio" where
  "upd_xinst f s \<equiv> s\<lparr>xinst := f (xinst s)\<rparr>"

section \<open>Operations\<close>

text \<open>
  \<open>get_user_pages\<close> takes a reference on each page and stores the pages at the front of the
  array, if there is one.
\<close>

definition get_user_pages :: "uapi \<Rightarrow> u64 \<Rightarrow> u64 \<Rightarrow> u64 \<Rightarrow> xio \<Rightarrow> int \<times> xio" where
  "get_user_pages U start npages p s =
     (case u_get_user_pages U start npages of (rc, pgs) \<Rightarrow>
        if rc \<le> 0 then (rc, s)
        else (rc, s\<lparr>refs := foldl (\<lambda>r pg. r(pg := r pg + 1)) (refs s) pgs,
                    heap := (heap s)(p := map_option (\<lambda>xs. map Some pgs @ drop (length pgs) xs) (heap s p))\<rparr>))"

text \<open>The loop that marks the pages: \<open>n\<close> iterations are left, \<open>i\<close> and \<open>j\<close> are the loop's counters.\<close>

fun reserve_loop :: "nat \<Rightarrow> nat \<Rightarrow> nat \<Rightarrow> xio \<Rightarrow> (nat \<times> xio) option" where
  "reserve_loop 0 i j s = Some (j, s)"
| "reserve_loop (Suc n) i j s = do {
     pg \<leftarrow> read_elem s (huge_pages (xinst s)) i;
     let s = s\<lparr>reserved := insert pg (reserved s)\<rparr>;
     reserve_loop n (i + 1) (if i mod 512 = 0 then j + 1 else j) s }"

definition ioctl_do_buffer_set :: "uapi \<Rightarrow> u64 \<Rightarrow> xio \<Rightarrow> (int \<times> xio) option" where
  "ioctl_do_buffer_set U arg s =
     (let (rc, huge) = u_copy_from_user_huge U arg in
      if rc \<noteq> 0 then Some (rc, s)
      else
        let buffer_start = huge_addr huge;
            bufsize = huge_sz huge;
            npages = 1 + (bufsize - 1) div PAGE_SIZE;
            (p, s) = alloc_array U npages s;
            s = upd_xinst (\<lambda>d. d\<lparr>huge_pages := p\<rparr>) s;
            (rc, s) = get_user_pages U buffer_start npages p s
        in if rc = 0 then Some (-1, s)
           else do {
             let npages = (of_int rc :: u64);
             (j, s) \<leftarrow> reserve_loop (unat npages) 0 0 s;
             Some (0, upd_xinst (\<lambda>d. d\<lparr>huge_user_addr := huge_addr huge, huge_size := npages * 4096,
                        huge_npages := npages, huge_hnpages := of_nat j\<rparr>) s) })"

fun collect_loop :: "uapi \<Rightarrow> nat \<Rightarrow> nat \<Rightarrow> nat \<Rightarrow> u64 \<Rightarrow> xio \<Rightarrow> xio option" where
  "collect_loop U 0 i j p s = Some s"
| "collect_loop U (Suc n) i j p s =
     (if i mod 512 = 0 then do {
        pg \<leftarrow> read_elem s (huge_pages (xinst s)) i;
        s \<leftarrow> write_elem p j (u_page_to_phys U pg) s;
        collect_loop U n (i + 1) (j + 1) p s }
      else collect_loop U n (i + 1) j p s)"

definition ioctl_do_mapping_get :: "uapi \<Rightarrow> u64 \<Rightarrow> xio \<Rightarrow> (int \<times> xio) option" where
  "ioctl_do_mapping_get U arg s =
     (let (rc, umap) = u_copy_from_user_map U arg in
      if rc \<noteq> 0 then Some (rc, s)
      else if map_npages umap < huge_hnpages (xinst s) then Some (- EFAULT, s)
      else do {
        let umap = umap\<lparr>map_npages := huge_hnpages (xinst s)\<rparr>;
        let npages = sint (ucast (huge_npages (xinst s)) :: u32);
        let (dma_addr, s) = alloc_array U (map_npages umap) s;
        s \<leftarrow> collect_loop U (nat npages) 0 0 dma_addr s;
        if u_copy_to_user_map U arg \<noteq> 0 then Some (- EACCES, free_array dma_addr s)
        else
          let s = s\<lparr>to_user := to_user s @ [(arg, [Some (map_npages umap), Some (map_dma_addr umap)])]\<rparr> in
          if u_copy_to_user_addrs U (map_dma_addr umap) \<noteq> 0 then Some (- EACCES, free_array dma_addr s)
          else
            let s = s\<lparr>to_user := to_user s
                 @ [(map_dma_addr umap, take (unat (map_npages umap)) (array_contents s dma_addr))]\<rparr>
            in Some (0, free_array dma_addr s) })"

fun release_loop :: "nat \<Rightarrow> nat \<Rightarrow> xio \<Rightarrow> xio option" where
  "release_loop 0 i s = Some s"
| "release_loop (Suc n) i s = do {
     pg \<leftarrow> read_elem s (huge_pages (xinst s)) i;
     let s = (if pg \<notin> reserved s then s\<lparr>dirty := insert pg (dirty s)\<rparr> else s);
     let s = s\<lparr>refs := (refs s)(pg := refs s pg - 1)\<rparr>;
     release_loop n (i + 1) s }"

definition ioctl_release_mapping :: "xio \<Rightarrow> (int \<times> xio) option" where
  "ioctl_release_mapping s = do {
     let npages = sint (ucast (huge_npages (xinst s)) :: u32);
     s \<leftarrow> release_loop (nat npages) 0 s;
     if huge_pages (xinst s) \<noteq> 0 \<and> heap s (huge_pages (xinst s)) = None then None
     else Some (0, free_array (huge_pages (xinst s)) s) }"

text \<open>\<open>s\<close> carries the instance \<open>file->private_data\<close> points at.\<close>

definition char_xdma_ioctl :: "uapi \<Rightarrow> u32 \<Rightarrow> u64 \<Rightarrow> xio \<Rightarrow> (int \<times> xio) option" where
  "char_xdma_ioctl U cmd arg s =
     (if cmd = IOCTL_XDMA_BUFFER_SET then ioctl_do_buffer_set U arg s
      else if cmd = IOCTL_XDMA_MAPPING_GET then ioctl_do_mapping_get U arg s
      else if cmd = IOCTL_XDMA_RELEASE then ioctl_release_mapping s
      else Some (0, s))"

text \<open>
  \<open>container_of\<close> on the \<open>cdev\<close> member of \<open>struct dev_inst\<close>, which follows a long, a pointer and an
  int padded to the alignment of a pointer.
\<close>

definition offsetof_cdev :: u64 where "offsetof_cdev = 24"

definition xdma_open :: "u64 \<Rightarrow> int \<times> u64" where
  "xdma_open i_cdev = (0, i_cdev - offsetof_cdev)"

definition xdma_release :: int where
  "xdma_release = 0"

record vma =
  vm_start :: u64
  vm_end :: u64
  vm_pgoff :: u64

text \<open>
  A user-space mapping of device memory: where it starts, its first page frame and its size. The
  driver's state gives the instance and the node's parent; \<open>None\<close> is a failed \<open>BUG_ON\<close> or a BAR
  index outside the resource table.
\<close>

record io_mapping =
  io_vaddr :: u64
  io_pfn :: u64
  io_size :: u64

definition mmap_bar :: "uapi \<Rightarrow> miscdevice \<Rightarrow> int \<Rightarrow> vma \<Rightarrow> drv \<Rightarrow> (int \<times> io_mapping option) option" where
  "mmap_bar U node idx v s =
     (if misc_parent node = 0 \<or> drvdata s = 0 then None
      else
        let off = push_bit PAGE_SHIFT (vm_pgoff v);
            vsize = vm_end v - vm_start v
        in if idx < 0 then None
           else
             let phys = u_resource_start U (pci_dev (inst s)) (nat idx);
                 psize = u_resource_len U (pci_dev (inst s)) (nat idx)
             in if vsize > psize then Some (- EINVAL, None)
                else
                  let rc = u_io_remap_pfn_range U (vm_start v) (drop_bit PAGE_SHIFT phys) vsize
                  in if rc \<noteq> 0 then Some (- EAGAIN, None)
                     else Some (0, Some \<lparr>io_vaddr = vm_start v, io_pfn = drop_bit PAGE_SHIFT phys,
                                         io_size = vsize\<rparr>))"

definition xdma_mmap :: "uapi \<Rightarrow> vma \<Rightarrow> drv \<Rightarrow> (int \<times> io_mapping option) option" where
  "xdma_mmap U v s = mmap_bar U (misc_dev_node s) (user_bar_idx (inst s)) v s"

definition xdma_bypass_mmap :: "uapi \<Rightarrow> vma \<Rightarrow> drv \<Rightarrow> (int \<times> io_mapping option) option" where
  "xdma_bypass_mmap U v s = mmap_bar U (bypass_node s) (bypass_bar_idx (inst s)) v s"

section \<open>Counting huge pages\<close>

lemma hnpages_Suc:
  "(Suc n + 511) div 512 = (n + 511) div 512 + (if n mod 512 = 0 then 1 else 0)"
proof -
  have "Suc (n + 511) = n + 512" by simp
  then have "Suc (n + 511) mod 512 = n mod 512" by (metis mod_add_self2)
  then show ?thesis unfolding add_Suc div_Suc [of "n + 511" 512] by simp
qed

lemma hnpages_list:
  "filter (\<lambda>k. k mod 512 = 0) [0 ..< n] = map (\<lambda>k. 512 * k) [0 ..< (n + 511) div 512]"
proof (induction n)
  case (Suc n)
  have "512 * ((n + 511) div 512) = n" if "n mod 512 = 0"
  proof -
    define q where "q = n div 512"
    have q: "n = 512 * q" using that mult_div_mod_eq [of 512 n] by (simp only: q_def)
    have "(n + 511) div 512 = q" unfolding q by (rule div_nat_eqI) simp_all
    with q show ?thesis by simp
  qed
  with Suc hnpages_Suc [of n] show ?case by simp
qed simp

lemma hnpages_count:
  "length (filter (\<lambda>k. k mod 512 = 0) [0 ..< n]) = (n + 511) div 512"
  by (simp add: hnpages_list)

section \<open>Arrays\<close>

text \<open>The array at \<open>p\<close> starts with the entries \<open>vs\<close>.\<close>

definition holds_array :: "xio \<Rightarrow> u64 \<Rightarrow> u64 list \<Rightarrow> bool" where
  "holds_array s p vs \<longleftrightarrow> (\<exists>rest. heap s p = Some (map Some vs @ rest))"

lemma holds_array_read: "holds_array s p vs \<Longrightarrow> i < length vs \<Longrightarrow> read_elem s p i = Some (vs ! i)"
  by (auto simp: holds_array_def read_elem_def nth_append)

lemma reserve_loop_spec:
  assumes "holds_array s (huge_pages (xinst s)) vs" and "i + n \<le> length vs"
  shows "reserve_loop n i j s = Some (j + length (filter (\<lambda>k. k mod 512 = 0) [i ..< i + n]),
    s\<lparr>reserved := reserved s \<union> set (take n (drop i vs))\<rparr>)"
  using assms
proof (induction n arbitrary: i j s)
  case (Suc n)
  let ?s = "s\<lparr>reserved := insert (vs ! i) (reserved s)\<rparr>"
  have "holds_array ?s (huge_pages (xinst ?s)) vs" using Suc.prems by (simp add: holds_array_def)
  moreover have "take (Suc n) (drop i vs) = vs ! i # take n (drop (Suc i) vs)"
    using Suc.prems(2) by (simp add: Cons_nth_drop_Suc [symmetric])
  moreover have "[i ..< i + Suc n] = i # [Suc i ..< Suc i + n]" by (simp add: upt_rec)
  ultimately show ?case
    using Suc.IH [of ?s "Suc i"] Suc.prems holds_array_read [OF Suc.prems(1), of i] by simp
qed simp


lemma collect_loop_spec:
  assumes "holds_array s (huge_pages (xinst s)) vs" and "heap s p = Some xs" and "p \<noteq> huge_pages (xinst s)"
    and "i + n \<le> length vs" and "j + length (filter (\<lambda>k. k mod 512 = 0) [i ..< i + n]) \<le> length xs"
  shows "collect_loop U n i j p s = Some (s\<lparr>heap := (heap s)(p \<mapsto> take j xs
      @ map (\<lambda>k. Some (u_page_to_phys U (vs ! k))) (filter (\<lambda>k. k mod 512 = 0) [i ..< i + n])
      @ drop (j + length (filter (\<lambda>k. k mod 512 = 0) [i ..< i + n])) xs)\<rparr>)"
  using assms
proof (induction n arbitrary: i j s xs)
  case 0
  then show ?case by (simp add: fun_upd_idem)
next
  case (Suc n)
  have u: "[i ..< Suc (i + n)] = i # [Suc i ..< Suc (i + n)]" by (rule upt_conv_Cons) simp
  show ?case
  proof (cases "i mod 512 = 0")
    case False
    with Suc.IH [of s xs "Suc i" j] Suc.prems show ?thesis by (simp add: u del: upt_Suc)
  next
    case True
    let ?v = "Some (u_page_to_phys U (vs ! i))"
    let ?s = "s\<lparr>heap := (heap s)(p \<mapsto> xs[j := ?v])\<rparr>"
    have j: "j < length xs" using Suc.prems(5) True by (simp add: u del: upt_Suc)
    have "read_elem s (huge_pages (xinst s)) i = Some (vs ! i)"
      using Suc.prems by (intro holds_array_read) simp_all
    moreover have "write_elem p j (u_page_to_phys U (vs ! i)) s = Some ?s"
      using Suc.prems(2) j by (simp add: write_elem_def)
    moreover have "holds_array ?s (huge_pages (xinst ?s)) vs"
      using Suc.prems(1,3) by (simp add: holds_array_def)
    then have "collect_loop U n (Suc i) (Suc j) p ?s = Some (?s\<lparr>heap := (heap ?s)(p \<mapsto> take (Suc j) (xs[j := ?v])
      @ map (\<lambda>k. Some (u_page_to_phys U (vs ! k))) (filter (\<lambda>k. k mod 512 = 0) [Suc i ..< Suc i + n])
      @ drop (Suc j + length (filter (\<lambda>k. k mod 512 = 0) [Suc i ..< Suc i + n])) (xs[j := ?v]))\<rparr>)"
      using Suc.prems True by (intro Suc.IH) (simp_all add: u del: upt_Suc)
    moreover have "take (Suc j) (xs[j := ?v]) = take j xs @ [?v]"
      using j by (simp add: take_Suc_conv_app_nth)
    ultimately show ?thesis using True by (simp add: u fun_upd_def del: upt_Suc cong: if_cong)
  qed
qed

definition shift_refs :: "int \<Rightarrow> u64 list \<Rightarrow> (u64 \<Rightarrow> int) \<Rightarrow> u64 \<Rightarrow> int" where
  "shift_refs c pgs r = (\<lambda>q. r q + c * int (count_list pgs q))"

lemma foldl_refs: "foldl (\<lambda>r pg. r(pg := r pg + c)) r pgs = shift_refs c pgs r"
  by (induction pgs arbitrary: r) (auto simp: shift_refs_def fun_eq_iff algebra_simps)

lemma shift_refs_Cons: "shift_refs c (pg # pgs) r = shift_refs c pgs (r(pg := r pg + c))"
  by (auto simp: shift_refs_def fun_eq_iff algebra_simps)

lemma shift_refs_back [simp]: "shift_refs (-1) pgs (shift_refs 1 pgs r) = r"
  by (simp add: shift_refs_def)

lemma release_loop_spec:
  assumes "holds_array s (huge_pages (xinst s)) vs" and "i + n \<le> length vs" and "set vs \<subseteq> reserved s"
  shows "release_loop n i s = Some (s\<lparr>refs := shift_refs (-1) (take n (drop i vs)) (refs s)\<rparr>)"
  using assms
proof (induction n arbitrary: i s)
  case 0
  then show ?case by (simp add: shift_refs_def)
next
  case (Suc n)
  let ?s = "s\<lparr>refs := (refs s)(vs ! i := refs s (vs ! i) - 1)\<rparr>"
  have "holds_array ?s (huge_pages (xinst ?s)) vs" using Suc.prems by (simp add: holds_array_def)
  moreover have "take (Suc n) (drop i vs) = vs ! i # take n (drop (Suc i) vs)"
    using Suc.prems(2) by (simp add: Cons_nth_drop_Suc [symmetric])
  moreover have "vs ! i \<in> reserved s" using Suc.prems(2,3) by auto
  ultimately show ?case
    using Suc.IH [of ?s "Suc i"] Suc.prems holds_array_read [OF Suc.prems(1), of i]
    by (simp add: shift_refs_Cons fun_upd_def)
qed

section \<open>A pinned buffer\<close>

text \<open>
  The state between a successful \<open>IOCTL_XDMA_BUFFER_SET\<close> and \<open>IOCTL_XDMA_RELEASE\<close>: the page array
  holds the pinned pages, all of them reserved, and the instance counts them.
\<close>

definition buffer_ok :: "xio \<Rightarrow> u64 list \<Rightarrow> bool" where
  "buffer_ok s pgs \<longleftrightarrow> holds_array s (huge_pages (xinst s)) pgs \<and> huge_pages (xinst s) \<noteq> 0
     \<and> length pgs < 2 ^ 31 \<and> huge_npages (xinst s) = of_nat (length pgs)
     \<and> huge_hnpages (xinst s) = of_nat ((length pgs + 511) div 512)
     \<and> huge_size (xinst s) = of_nat (length pgs) * 4096 \<and> set pgs \<subseteq> reserved s"

text \<open>
  What the kernel documents: an allocator returns NULL or memory not in use, and
  \<open>get_user_pages\<close> reports how many pages it stored, at most as many as asked for.
\<close>

definition kernel_ok :: "uapi \<Rightarrow> bool" where
  "kernel_ok U \<longleftrightarrow> (\<forall>h n. u_alloc U h n \<noteq> 0 \<longrightarrow> h (u_alloc U h n) = None)
     \<and> (\<forall>a n rc pgs. u_get_user_pages U a n = (rc, pgs) \<longrightarrow> 0 < rc \<longrightarrow>
          int (length pgs) = rc \<and> length pgs \<le> unat n \<and> rc < 2 ^ 31)"

lemma buffer_npages:
  assumes "buffer_ok s pgs"
  shows "nat (sint (ucast (huge_npages (xinst s)) :: u32)) = length pgs"
proof -
  have b: "length pgs < 2 ^ 31" and e: "huge_npages (xinst s) = of_nat (length pgs)"
    using assms by (simp_all add: buffer_ok_def)
  have "ucast (of_nat (length pgs) :: u64) = (of_nat (length pgs) :: u32)"
    by (rule word_unat_eq_iff [THEN iffD2]) (use b in \<open>simp add: unsigned_ucast_eq unat_of_nat take_bit_nat_eq_self\<close>)
  moreover have "sint (of_nat (length pgs) :: u32) = int (length pgs)"
    using b by (simp add: signed_of_nat signed_take_bit_int_eq_self_iff)
  ultimately show ?thesis by (simp add: e)
qed

lemma buffer_hnpages:
  assumes "buffer_ok s pgs"
  shows "unat (huge_hnpages (xinst s)) = (length pgs + 511) div 512"
proof -
  have "(length pgs + 511) div 512 \<le> length pgs + 511" by (rule div_le_dividend)
  also have "\<dots> < 2 ^ 64" using assms by (simp add: buffer_ok_def)
  finally have "(length pgs + 511) div 512 < 2 ^ 64" .
  then show ?thesis using assms by (simp add: buffer_ok_def unat_of_nat)
qed

lemma buffer_set_eq:
  assumes "kernel_ok U" and "u_copy_from_user_huge U arg = (0, huge)"
    and "n = 1 + (huge_sz huge - 1) div PAGE_SIZE" and "p = u_alloc U (heap s) n" and "p \<noteq> 0"
    and "u_get_user_pages U (huge_addr huge) n = (rc, pgs)" and "0 < rc"
  shows "ioctl_do_buffer_set U arg s = Some (0, s\<lparr>
      heap := (heap s)(p \<mapsto> map Some pgs @ replicate (unat n - length pgs) None),
      refs := shift_refs 1 pgs (refs s), reserved := reserved s \<union> set pgs,
      xinst := (xinst s)\<lparr>huge_pages := p, huge_user_addr := huge_addr huge,
        huge_size := of_nat (length pgs) * 4096, huge_npages := of_nat (length pgs),
        huge_hnpages := of_nat ((length pgs + 511) div 512)\<rparr>\<rparr>)"
proof -
  have "int (length pgs) = rc \<and> length pgs \<le> unat n \<and> rc < 2 ^ 31"
    using assms(1,6,7) unfolding kernel_ok_def by blast
  then have rc: "rc = int (length pgs)" and le: "length pgs \<le> unat n" and lt: "length pgs < 2 ^ 31"
    by auto
  define t where "t = s\<lparr>heap := (heap s)(p \<mapsto> map Some pgs @ replicate (unat n - length pgs) None),
      refs := shift_refs 1 pgs (refs s), xinst := (xinst s)\<lparr>huge_pages := p\<rparr>\<rparr>"
  have al: "alloc_array U n s = (p, s\<lparr>heap := (heap s)(p \<mapsto> replicate (unat n) None)\<rparr>)"
    using assms(4,5) by (simp add: alloc_array_def Let_def)
  have gup: "get_user_pages U (huge_addr huge) n p (upd_xinst (\<lambda>d. d\<lparr>huge_pages := p\<rparr>)
      (s\<lparr>heap := (heap s)(p \<mapsto> replicate (unat n) None)\<rparr>)) = (rc, t)"
    using assms(6,7) foldl_refs [of 1] by (simp add: get_user_pages_def t_def)
  have np: "unat (of_int rc :: u64) = length pgs" using lt by (simp add: rc unat_of_nat)
  have "holds_array t (huge_pages (xinst t)) pgs" by (auto simp: holds_array_def t_def)
  from reserve_loop_spec [OF this, of 0 "length pgs" 0]
  have lp: "reserve_loop (length pgs) 0 0 t =
      Some ((length pgs + 511) div 512, t\<lparr>reserved := reserved t \<union> set pgs\<rparr>)"
    by (simp add: hnpages_count)
  show ?thesis
    using assms(2,3,7) al gup np lp rc by (simp add: ioctl_do_buffer_set_def t_def Let_def)
qed

lemma buffer_set_buffer_ok:
  assumes "kernel_ok U" and "u_copy_from_user_huge U arg = (0, huge)"
    and "n = 1 + (huge_sz huge - 1) div PAGE_SIZE" and "u_alloc U (heap s) n \<noteq> 0"
    and "u_get_user_pages U (huge_addr huge) n = (rc, pgs)" and "0 < rc"
  shows "\<exists>t xs. ioctl_do_buffer_set U arg s = Some (0, t) \<and> buffer_ok t pgs
    \<and> refs t = shift_refs 1 pgs (refs s) \<and> to_user t = to_user s \<and> dirty t = dirty s
    \<and> heap s (huge_pages (xinst t)) = None \<and> heap t = (heap s)(huge_pages (xinst t) \<mapsto> xs)"
proof -
  have k: "int (length pgs) = rc \<and> length pgs \<le> unat n \<and> rc < 2 ^ 31"
    and fresh: "heap s (u_alloc U (heap s) n) = None"
    using assms(1,4,5,6) unfolding kernel_ok_def by blast+
  from k have "length pgs < 2 ^ 31" by auto
  note eq = buffer_set_eq [OF assms(1-3) refl assms(4-6)]
  show ?thesis
    by (intro exI conjI, rule eq)
      (use fresh assms(4) \<open>length pgs < 2 ^ 31\<close> in \<open>auto simp: buffer_ok_def holds_array_def\<close>)
qed

text \<open>The physical addresses of the huge pages: one for every 512 pages of the buffer.\<close>

definition huge_addrs :: "uapi \<Rightarrow> u64 list \<Rightarrow> u64 list" where
  "huge_addrs U pgs = map (\<lambda>k. u_page_to_phys U (pgs ! (512 * k))) [0 ..< (length pgs + 511) div 512]"

lemma mapping_get_eq:
  assumes "kernel_ok U" and "buffer_ok s pgs" and "u_copy_from_user_map U arg = (0, umap)"
    and "huge_hnpages (xinst s) \<le> map_npages umap"
    and "u_alloc U (heap s) (huge_hnpages (xinst s)) \<noteq> 0"
  shows "ioctl_do_mapping_get U arg s =
    (if u_copy_to_user_map U arg \<noteq> 0 then Some (- EACCES, s)
     else if u_copy_to_user_addrs U (map_dma_addr umap) \<noteq> 0
     then Some (- EACCES, s\<lparr>to_user := to_user s
      @ [(arg, [Some (huge_hnpages (xinst s)), Some (map_dma_addr umap)])]\<rparr>)
     else Some (0, s\<lparr>to_user := to_user s
      @ [(arg, [Some (huge_hnpages (xinst s)), Some (map_dma_addr umap)]),
         (map_dma_addr umap, map Some (huge_addrs U pgs))]\<rparr>))"
proof -
  define p where "p = u_alloc U (heap s) (huge_hnpages (xinst s))"
  let ?h = "(length pgs + 511) div 512"
  have fresh: "heap s p = None" and p: "p \<noteq> 0"
    using assms(1,5) unfolding kernel_ok_def p_def by blast+
  have hp: "holds_array s (huge_pages (xinst s)) pgs" using assms(2) by (simp add: buffer_ok_def)
  then have ne: "p \<noteq> huge_pages (xinst s)" using fresh by (auto simp: holds_array_def)
  let ?s = "s\<lparr>heap := (heap s)(p \<mapsto> replicate ?h None)\<rparr>"
  have al: "alloc_array U (huge_hnpages (xinst s)) s = (p, ?s)"
    using p buffer_hnpages [OF assms(2)] by (simp add: alloc_array_def p_def Let_def)
  have "collect_loop U (length pgs) 0 0 p ?s = Some (?s\<lparr>heap := (heap ?s)(p \<mapsto> map Some (huge_addrs U pgs))\<rparr>)"
    using collect_loop_spec [of ?s pgs p "replicate ?h None" 0 "length pgs" 0 U] hp ne
    by (simp add: holds_array_def hnpages_list huge_addrs_def comp_def)
  then have cl: "collect_loop U (length pgs) 0 0 p ?s = Some (s\<lparr>heap := (heap s)(p \<mapsto> map Some (huge_addrs U pgs))\<rparr>)"
    by simp
  have "(heap s)(p := None) = heap s" using fresh by (simp add: fun_upd_idem)
  then show ?thesis
    using assms(3) leD [OF assms(4)] al cl buffer_npages [OF assms(2)] buffer_hnpages [OF assms(2)]
    by (simp add: ioctl_do_mapping_get_def Let_def free_array_def array_contents_def huge_addrs_def)
qed

lemma release_eq:
  assumes "buffer_ok s pgs"
  shows "ioctl_release_mapping s = Some (0, s\<lparr>refs := shift_refs (-1) pgs (refs s),
      heap := (heap s)(huge_pages (xinst s) := None)\<rparr>)"
proof -
  have "release_loop (length pgs) 0 s = Some (s\<lparr>refs := shift_refs (-1) pgs (refs s)\<rparr>)"
    using release_loop_spec [of s pgs 0 "length pgs"] assms by (simp add: buffer_ok_def)
  then show ?thesis
    using assms buffer_npages [OF assms]
    by (auto simp: ioctl_release_mapping_def buffer_ok_def holds_array_def free_array_def)
qed

section \<open>A concrete kernel\<close>

text \<open>A buffer of 513 pages; the allocator has two slots.\<close>

definition demo_pages :: "u64 list" where
  "demo_pages = map (\<lambda>i. 0xE000 + of_nat i) [0 ..< 513]"

definition demo_uapi :: uapi where
  "demo_uapi = \<lparr>u_copy_from_user_huge = (\<lambda>a. (0, \<lparr>huge_addr = 0x10000000, huge_sz = 0x201000\<rparr>)),
     u_copy_from_user_map = (\<lambda>a. (0, \<lparr>map_npages = 2, map_dma_addr = 0x9000\<rparr>)),
     u_copy_to_user_map = (\<lambda>a. 0), u_copy_to_user_addrs = (\<lambda>a. 0),
     u_alloc = (\<lambda>h n. if h 0x5000 = None then 0x5000 else if h 0x6000 = None then 0x6000 else 0),
     u_get_user_pages = (\<lambda>a n. if n = 513 then (513, demo_pages) else (0, [])),
     u_page_to_phys = (\<lambda>pg. pg * 4096),
     u_io_remap_pfn_range = (\<lambda>v f n. 0),
     u_resource_start = (\<lambda>d i. 0xd0000000), u_resource_len = (\<lambda>d i. 0x10000)\<rparr>"

definition demo_xio :: xio where
  "demo_xio = \<lparr>xinst = zeroed_inst, heap = (\<lambda>p. None), refs = (\<lambda>p. 0), reserved = {}, dirty = {}, to_user = []\<rparr>"

lemma demo_kernel_ok: "kernel_ok demo_uapi"
  by (auto simp: kernel_ok_def demo_uapi_def demo_pages_def split: if_splits)

lemma demo_sel:
  "u_copy_from_user_huge demo_uapi a = (0, \<lparr>huge_addr = 0x10000000, huge_sz = 0x201000\<rparr>)"
  "u_alloc demo_uapi (heap demo_xio) n = 0x5000" "u_get_user_pages demo_uapi b 513 = (513, demo_pages)"
  by (simp_all add: demo_uapi_def demo_xio_def)

lemma demo_map:
  "u_copy_from_user_map demo_uapi a = (0, \<lparr>map_npages = 2, map_dma_addr = 0x9000\<rparr>)"
  "u_copy_to_user_map demo_uapi a = 0" "u_copy_to_user_addrs demo_uapi a = 0"
  "u_page_to_phys demo_uapi pg = pg * 4096"
  by (simp_all add: demo_uapi_def)

lemma demo_addrs: "huge_addrs demo_uapi demo_pages = [0xE000000, 0xE200000]"
proof -
  have "[0 ..< (length demo_pages + 511) div 512] = [0, 1]" by (simp add: demo_pages_def upt_rec)
  then show ?thesis by (simp add: huge_addrs_def demo_pages_def demo_map)
qed

lemma demo_npages: "1 + 0x200FFF div PAGE_SIZE = (513 :: u64)"
  by (simp add: PAGE_SIZE_def)

lemma demo_buffer:
  "\<exists>t. buffer_ok t demo_pages \<and> to_user t = to_user demo_xio
    \<and> (\<exists>xs. heap t = (heap demo_xio)(huge_pages (xinst t) \<mapsto> xs))"
proof -
  have "u_alloc demo_uapi (heap demo_xio) 513 \<noteq> 0" by (simp add: demo_sel)
  moreover have "513 = 1 + (huge_sz \<lparr>huge_addr = 0x10000000, huge_sz = 0x201000\<rparr> - 1) div PAGE_SIZE"
    using demo_npages by simp
  ultimately show ?thesis
    using buffer_set_buffer_ok [OF demo_kernel_ok demo_sel(1) [of 0], of 513 demo_xio 513 demo_pages] demo_sel(3)
    by auto
qed

section \<open>Properties\<close>

text \<open>
  C16. Pinning. A successful \<open>IOCTL_XDMA_BUFFER_SET\<close> asks for as many pages as cover the buffer,
  takes one reference on each page it gets, reserves them, and records their number and the
  number of 2 MB pages they make up, rounded up; it uses one fresh array and nothing else of
  the heap.
\<close>

theorem buffer_set_pins:
  assumes "kernel_ok U" and "u_copy_from_user_huge U arg = (0, huge)" and "0 < huge_sz huge"
    and "n = 1 + (huge_sz huge - 1) div PAGE_SIZE" and "u_alloc U (heap s) n \<noteq> 0"
    and "u_get_user_pages U (huge_addr huge) n = (rc, pgs)" and "0 < rc"
  shows "unat n = (unat (huge_sz huge) + 4095) div 4096
    \<and> (\<exists>t. char_xdma_ioctl U IOCTL_XDMA_BUFFER_SET arg s = Some (0, t) \<and> buffer_ok t pgs
       \<and> refs t = shift_refs 1 pgs (refs s)
       \<and> (\<exists>p xs. heap s p = None \<and> heap t = (heap s)(p \<mapsto> xs)))"
proof -
  let ?z = "unat (huge_sz huge)"
  have z: "0 < ?z" using assms(3) by (simp add: unat_gt_0)
  have m1: "unat (huge_sz huge - 1) = ?z - 1"
    using z unat_minus_le [of 1 "huge_sz huge"] by (simp add: word_le_nat_alt)
  have "?z - 1 < 2 ^ 64" using unat_less_u64 [of "huge_sz huge"] by simp
  then have "(?z - 1) div 4096 < 2 ^ 52" by (simp add: less_mult_imp_div_less)
  then have "unat n = 1 + (?z - 1) div 4096"
    using unat_add_no_wrap [of 1 "(huge_sz huge - 1) div PAGE_SIZE"]
    by (simp add: assms(4) PAGE_SIZE_def unat_div m1)
  also have "\<dots> = (?z + 4095) div 4096"
  proof -
    have "?z + 4095 = (?z - 1) + 4096" using z by simp
    moreover have "((?z - 1) + 4096) div 4096 = (?z - 1) div 4096 + 1" by (rule div_add_self2) simp
    ultimately show ?thesis by (simp only: add.commute)
  qed
  finally have n: "unat n = (?z + 4095) div 4096" .
  have "char_xdma_ioctl U IOCTL_XDMA_BUFFER_SET arg s = ioctl_do_buffer_set U arg s"
    by (simp add: char_xdma_ioctl_def)
  with n buffer_set_buffer_ok [OF assms(1,2,4-7)] show ?thesis by auto
qed

theorem buffer_set_pins_witness:
  "\<exists>t. char_xdma_ioctl demo_uapi IOCTL_XDMA_BUFFER_SET 0x8000 demo_xio = Some (0, t) \<and> buffer_ok t demo_pages"
  using buffer_set_pins [of demo_uapi "0x8000" "\<lparr>huge_addr = 0x10000000, huge_sz = 0x201000\<rparr>" 513
      demo_xio 513 demo_pages]
  by (auto simp: demo_sel demo_npages demo_kernel_ok)

text \<open>
  C17. The mapping. While a buffer is pinned, \<open>IOCTL_XDMA_MAPPING_GET\<close> hands the caller the
  physical address of every 512th page, in order: entry \<open>k\<close> is the address of the 2 MB page
  that holds page \<open>512 * k\<close>. It writes the temporary array within its bounds, copies out no entry
  it has not written, frees the array and changes nothing else; a caller whose array is too
  small gets \<open>-EFAULT\<close>.
\<close>

theorem mapping_get_addresses:
  assumes "kernel_ok U" and "buffer_ok s pgs" and "u_copy_from_user_map U arg = (0, umap)"
    and "u_alloc U (heap s) (huge_hnpages (xinst s)) \<noteq> 0"
    and "u_copy_to_user_map U arg = 0" and "u_copy_to_user_addrs U (map_dma_addr umap) = 0"
  shows "char_xdma_ioctl U IOCTL_XDMA_MAPPING_GET arg s =
    (if unat (map_npages umap) < (length pgs + 511) div 512 then Some (- EFAULT, s)
     else Some (0, s\<lparr>to_user := to_user s
       @ [(arg, [Some (of_nat ((length pgs + 511) div 512)), Some (map_dma_addr umap)]),
          (map_dma_addr umap, map Some (huge_addrs U pgs))]\<rparr>))"
proof -
  have disp: "char_xdma_ioctl U IOCTL_XDMA_MAPPING_GET arg s = ioctl_do_mapping_get U arg s"
    by (simp add: char_xdma_ioctl_def IOCTL_XDMA_BUFFER_SET_def IOCTL_XDMA_MAPPING_GET_def IOC_def)
  have hn: "huge_hnpages (xinst s) = of_nat ((length pgs + 511) div 512)"
    using assms(2) by (simp add: buffer_ok_def)
  have lt: "map_npages umap < huge_hnpages (xinst s) \<longleftrightarrow> unat (map_npages umap) < (length pgs + 511) div 512"
    by (simp add: word_less_nat_alt buffer_hnpages [OF assms(2)])
  show ?thesis
  proof (cases "map_npages umap < huge_hnpages (xinst s)")
    case True
    then have "ioctl_do_mapping_get U arg s = Some (- EFAULT, s)"
      using assms(3) by (simp add: ioctl_do_mapping_get_def)
    with True lt disp show ?thesis by simp
  next
    case False
    then have le: "huge_hnpages (xinst s) \<le> map_npages umap" by (simp add: not_less)
    from False lt disp hn mapping_get_eq [OF assms(1-3) le assms(4)] assms(5,6) show ?thesis by simp
  qed
qed

theorem mapping_get_addresses_witness:
  "\<exists>s t. buffer_ok s demo_pages
    \<and> char_xdma_ioctl demo_uapi IOCTL_XDMA_MAPPING_GET 0x8100 s = Some (0, t)
    \<and> to_user t = [(0x8100, [Some 2, Some 0x9000]), (0x9000, [Some 0xE000000, Some 0xE200000])]"
proof -
  obtain s where s: "buffer_ok s demo_pages" "to_user s = to_user demo_xio"
    "\<exists>xs. heap s = (heap demo_xio)(huge_pages (xinst s) \<mapsto> xs)"
    using demo_buffer by blast
  then have alloc: "u_alloc demo_uapi (heap s) (huge_hnpages (xinst s)) \<noteq> 0"
    by (auto simp: demo_uapi_def demo_xio_def)
  from mapping_get_addresses [of demo_uapi s demo_pages "0x8100" "\<lparr>map_npages = 2, map_dma_addr = 0x9000\<rparr>"]
  have "char_xdma_ioctl demo_uapi IOCTL_XDMA_MAPPING_GET 0x8100 s = Some (0, s\<lparr>to_user :=
      [(0x8100, [Some 2, Some 0x9000]), (0x9000, [Some 0xE000000, Some 0xE200000])]\<rparr>)"
    using s(1,2) alloc demo_kernel_ok by (simp add: demo_map demo_addrs demo_pages_def [THEN arg_cong [of _ _ length]] demo_xio_def)
  with s(1) show ?thesis by fastforce
qed

fun mapping_gets :: "uapi \<Rightarrow> u64 list \<Rightarrow> xio \<Rightarrow> xio option" where
  "mapping_gets U [] s = Some s"
| "mapping_gets U (a # as) s = do {
     (rc, s) \<leftarrow> char_xdma_ioctl U IOCTL_XDMA_MAPPING_GET a s;
     mapping_gets U as s }"

lemma ioctl_dispatch:
  "char_xdma_ioctl U IOCTL_XDMA_BUFFER_SET arg s = ioctl_do_buffer_set U arg s"
  "char_xdma_ioctl U IOCTL_XDMA_MAPPING_GET arg s = ioctl_do_mapping_get U arg s"
  "char_xdma_ioctl U IOCTL_XDMA_RELEASE arg s = ioctl_release_mapping s"
  by (simp_all add: char_xdma_ioctl_def IOCTL_XDMA_BUFFER_SET_def IOCTL_XDMA_MAPPING_GET_def
      IOCTL_XDMA_RELEASE_def IOC_def)

text \<open>One request for the mapping only copies out, whatever its outcome.\<close>

lemma mapping_get_frame:
  assumes "kernel_ok U" and "buffer_ok s pgs" and "u_alloc U (heap s) (huge_hnpages (xinst s)) \<noteq> 0"
  shows "\<exists>rc u. ioctl_do_mapping_get U arg s = Some (rc, s\<lparr>to_user := u\<rparr>)"
proof -
  obtain rc umap where c: "u_copy_from_user_map U arg = (rc, umap)" by (cases "u_copy_from_user_map U arg")
  have id: "s = s\<lparr>to_user := to_user s\<rparr>" by simp
  consider (bad) "rc \<noteq> 0" | (small) "rc = 0" "map_npages umap < huge_hnpages (xinst s)"
    | (ok) "rc = 0" "huge_hnpages (xinst s) \<le> map_npages umap" by fastforce
  then show ?thesis
  proof cases
    case bad
    then have "ioctl_do_mapping_get U arg s = Some (rc, s)" using c by (simp add: ioctl_do_mapping_get_def)
    with id show ?thesis by metis
  next
    case small
    then have "ioctl_do_mapping_get U arg s = Some (- EFAULT, s)"
      using c by (simp add: ioctl_do_mapping_get_def)
    with id show ?thesis by metis
  next
    case ok
    note eq = mapping_get_eq [OF assms(1,2) _ ok(2) assms(3), of arg]
    show ?thesis using eq c ok(1) by (auto split: if_splits intro: exI [of _ "to_user s"])
  qed
qed

lemma buffer_ok_to_user [simp]: "buffer_ok (s\<lparr>to_user := u\<rparr>) pgs = buffer_ok s pgs"
  by (simp add: buffer_ok_def holds_array_def)

lemma mapping_gets_frame:
  assumes "kernel_ok U" and "buffer_ok s pgs" and "u_alloc U (heap s) (huge_hnpages (xinst s)) \<noteq> 0"
  shows "\<exists>u. mapping_gets U as s = Some (s\<lparr>to_user := u\<rparr>)"
  using assms(2,3)
proof (induction "as" arbitrary: s)
  case Nil
  have "s = s\<lparr>to_user := to_user s\<rparr>" by simp
  then show ?case by (metis mapping_gets.simps(1))
next
  case (Cons a "as")
  obtain rc u where "ioctl_do_mapping_get U a s = Some (rc, s\<lparr>to_user := u\<rparr>)"
    using mapping_get_frame [OF assms(1) Cons.prems] by blast
  with Cons.IH [of "s\<lparr>to_user := u\<rparr>"] Cons.prems show ?case by (simp add: ioctl_dispatch)
qed

text \<open>
  C12. A session is a round trip: \<open>IOCTL_XDMA_BUFFER_SET\<close>, any number of \<open>IOCTL_XDMA_MAPPING_GET\<close>,
  and \<open>IOCTL_XDMA_RELEASE\<close> run without a fault, and at the end the page references and the heap are
  what they were before, provided the two allocations the driver does not check succeed: \<open>vmalloc\<close>
  of the page array, and \<open>kmalloc\<close> of the address array on the heap that holds the page array.
  Since the pages stay reserved, none is ever marked dirty.
\<close>

theorem ioctl_session:
  assumes "kernel_ok U" and "u_copy_from_user_huge U arg = (0, huge)"
    and "n = 1 + (huge_sz huge - 1) div PAGE_SIZE"
    and "u_get_user_pages U (huge_addr huge) n = (rc, pgs)" and "0 < rc"
    and "p = u_alloc U (heap s) n" and "p \<noteq> 0"
    and "u_alloc U ((heap s)(p \<mapsto> map Some pgs @ replicate (unat n - length pgs) None))
           (of_nat ((length pgs + 511) div 512)) \<noteq> 0"
  shows "\<exists>s1 s2 s3. char_xdma_ioctl U IOCTL_XDMA_BUFFER_SET arg s = Some (0, s1)
    \<and> mapping_gets U as s1 = Some s2 \<and> char_xdma_ioctl U IOCTL_XDMA_RELEASE arg' s2 = Some (0, s3)
    \<and> refs s3 = refs s \<and> heap s3 = heap s \<and> dirty s3 = dirty s \<and> set pgs \<subseteq> reserved s3"
proof -
  have "u_alloc U (heap s) n \<noteq> 0" using assms(6,7) by simp
  from buffer_set_buffer_ok [OF assms(1-3) this assms(4,5)]
  obtain s1 xs where 1: "ioctl_do_buffer_set U arg s = Some (0, s1)" "buffer_ok s1 pgs"
    "refs s1 = shift_refs 1 pgs (refs s)" "dirty s1 = dirty s"
    "heap s (huge_pages (xinst s1)) = None" "heap s1 = (heap s)(huge_pages (xinst s1) \<mapsto> xs)"
    by blast
  have "heap s1 = (heap s)(p \<mapsto> map Some pgs @ replicate (unat n - length pgs) None)"
    using buffer_set_eq [OF assms(1-3,6,7,4,5)] 1(1) by auto
  then have al: "u_alloc U (heap s1) (huge_hnpages (xinst s1)) \<noteq> 0"
    using assms(8) 1(2) by (simp add: buffer_ok_def)
  obtain u where 2: "mapping_gets U as s1 = Some (s1\<lparr>to_user := u\<rparr>)"
    using mapping_gets_frame [OF assms(1) 1(2) al] by blast
  have "buffer_ok (s1\<lparr>to_user := u\<rparr>) pgs" using 1(2) by simp
  note 3 = release_eq [OF this]
  have "set pgs \<subseteq> reserved s1" using 1(2) by (simp add: buffer_ok_def)
  moreover have "(heap s1)(huge_pages (xinst s1) := None) = heap s" using 1(5,6) by (simp add: fun_upd_idem)
  ultimately show ?thesis using 1 2 3 by (simp add: ioctl_dispatch)
qed

theorem ioctl_session_witness:
  "\<exists>s1 s2 s3. char_xdma_ioctl demo_uapi IOCTL_XDMA_BUFFER_SET 0x8000 demo_xio = Some (0, s1)
    \<and> mapping_gets demo_uapi [0x8100, 0x8200] s1 = Some s2
    \<and> char_xdma_ioctl demo_uapi IOCTL_XDMA_RELEASE 0 s2 = Some (0, s3) \<and> refs s3 = (\<lambda>p. 0)"
proof -
  have "u_alloc demo_uapi ((heap demo_xio)(0x5000 \<mapsto> xs)) n \<noteq> 0" for xs n
    by (simp add: demo_uapi_def demo_xio_def)
  moreover have "refs demo_xio = (\<lambda>p. 0)" by (simp add: demo_xio_def)
  ultimately show ?thesis
    using ioctl_session [OF demo_kernel_ok demo_sel(1) refl _ _ refl, of 513 demo_pages demo_xio "0x8000"
      "[0x8100, 0x8200]" 0]
    by (auto simp: demo_sel demo_npages)
qed

text \<open>
  C23. Two ways to crash. \<open>IOCTL_XDMA_RELEASE\<close> does not forget the array it frees, so releasing a
  second time reads freed memory; and an error number from \<open>get_user_pages\<close>, which is negative,
  is taken for a page count, so the loop over the pages reads entries that were never written.
\<close>

theorem ioctl_faults:
  assumes "buffer_ok s pgs" and "pgs \<noteq> []"
    and "u_copy_from_user_huge U arg = (0, huge)"
    and "u_get_user_pages U (huge_addr huge) (1 + (huge_sz huge - 1) div PAGE_SIZE) = (rc, junk)"
    and "- (2 ^ 31) \<le> rc" and "rc < 0" and "heap t 0 = None"
  shows "(\<exists>s1. char_xdma_ioctl U IOCTL_XDMA_RELEASE a s = Some (0, s1)
      \<and> char_xdma_ioctl U IOCTL_XDMA_RELEASE b s1 = None)
    \<and> char_xdma_ioctl U IOCTL_XDMA_BUFFER_SET arg t = None"
proof
  let ?s1 = "s\<lparr>refs := shift_refs (-1) pgs (refs s), heap := (heap s)(huge_pages (xinst s) := None)\<rparr>"
  have "nat (sint (ucast (huge_npages (xinst ?s1)) :: u32)) = length pgs"
    using buffer_npages [OF assms(1)] by simp
  moreover obtain n where "length pgs = Suc n" using assms(2) by (cases pgs) auto
  ultimately have "ioctl_release_mapping ?s1 = None"
    by (simp add: ioctl_release_mapping_def read_elem_def)
  with release_eq [OF assms(1)]
  show "\<exists>s1. char_xdma_ioctl U IOCTL_XDMA_RELEASE a s = Some (0, s1)
      \<and> char_xdma_ioctl U IOCTL_XDMA_RELEASE b s1 = None"
    by (simp add: ioctl_dispatch)
next
  define n where "n = 1 + (huge_sz huge - 1) div PAGE_SIZE"
  define p where "p = fst (alloc_array U n t)"
  define u where "u = upd_xinst (\<lambda>d. d\<lparr>huge_pages := p\<rparr>) (snd (alloc_array U n t))"
  have unread: "read_elem u (huge_pages (xinst u)) 0 = None"
    using assms(7) by (auto simp: u_def p_def alloc_array_def Let_def read_elem_def)
  have "(of_int rc :: u64) \<noteq> 0"
  proof
    assume "(of_int rc :: u64) = 0"
    then have "(2 :: int) ^ 64 dvd rc" by (simp add: word_of_int_eq_0_iff)
    with assms(5,6) show False using zdvd_not_zless [of "- rc" "2 ^ 64"] by simp
  qed
  then obtain k where "unat (of_int rc :: u64) = Suc k" by (metis not0_implies_Suc unat_eq_zero)
  with unread have "reserve_loop (unat (of_int rc :: u64)) 0 0 u = None" by simp
  moreover have "get_user_pages U (huge_addr huge) n p u = (rc, u)"
    using assms(4,6) by (simp add: get_user_pages_def n_def)
  ultimately show "char_xdma_ioctl U IOCTL_XDMA_BUFFER_SET arg t = None"
    using assms(3,6)
    by (auto simp: ioctl_dispatch ioctl_do_buffer_set_def n_def [symmetric] p_def u_def Let_def split: prod.split)
qed

theorem ioctl_faults_witness:
  "\<exists>s s1. char_xdma_ioctl demo_uapi IOCTL_XDMA_RELEASE 0 s = Some (0, s1)
    \<and> char_xdma_ioctl demo_uapi IOCTL_XDMA_RELEASE 0 s1 = None
    \<and> char_xdma_ioctl (demo_uapi\<lparr>u_get_user_pages := (\<lambda>a n. (-14, []))\<rparr>) IOCTL_XDMA_BUFFER_SET 0x8000 demo_xio = None"
proof -
  let ?U = "demo_uapi\<lparr>u_get_user_pages := (\<lambda>a n. (-14, []))\<rparr>"
  obtain s where s: "buffer_ok s demo_pages" using demo_buffer by blast
  have ne: "demo_pages \<noteq> []" by (simp add: demo_pages_def)
  have h: "u_copy_from_user_huge ?U 0x8000 = (0, \<lparr>huge_addr = 0x10000000, huge_sz = 0x201000\<rparr>)"
    by (simp add: demo_sel)
  have "(\<exists>s1. char_xdma_ioctl ?U IOCTL_XDMA_RELEASE 0 s = Some (0, s1)
      \<and> char_xdma_ioctl ?U IOCTL_XDMA_RELEASE 0 s1 = None)
    \<and> char_xdma_ioctl ?U IOCTL_XDMA_BUFFER_SET 0x8000 demo_xio = None"
    by (rule ioctl_faults [OF s ne h, of "-14" "[]"]) (simp_all add: demo_xio_def)
  then show ?thesis by (auto simp: ioctl_dispatch)
qed

text \<open>
  C34. Neither allocation of the two commands is checked. When \<open>vmalloc\<close> has no room for the page
  array of \<open>IOCTL_XDMA_BUFFER_SET\<close>, the loop that reserves the pages \<open>get_user_pages\<close> reports reads
  through the null pointer; when \<open>kmalloc\<close> has no room for the address array of
  \<open>IOCTL_XDMA_MAPPING_GET\<close>, the first address is written through it.
\<close>

theorem ioctl_no_memory:
  assumes "kernel_ok U"
    and "u_copy_from_user_huge U arg = (0, huge)" and "n = 1 + (huge_sz huge - 1) div PAGE_SIZE"
    and "u_get_user_pages U (huge_addr huge) n = (rc, pgs)" and "0 < rc"
    and "u_alloc U (heap s) n = 0" and "heap s 0 = None"
    and "buffer_ok t pgs'" and "pgs' \<noteq> []"
    and "u_copy_from_user_map U arg' = (0, umap)" and "huge_hnpages (xinst t) \<le> map_npages umap"
    and "u_alloc U (heap t) (huge_hnpages (xinst t)) = 0" and "heap t 0 = None"
  shows "char_xdma_ioctl U IOCTL_XDMA_BUFFER_SET arg s = None
    \<and> char_xdma_ioctl U IOCTL_XDMA_MAPPING_GET arg' t = None"
proof
  have k: "int (length pgs) = rc" "rc < 2 ^ 31"
    using assms(1,4,5) unfolding kernel_ok_def by blast+
  then have np: "unat (of_int rc :: u64) = length pgs" by (auto simp: unat_of_nat)
  obtain l where l: "length pgs = Suc l" using k(1) assms(5) by (cases pgs) auto
  with assms(2-7) np show "char_xdma_ioctl U IOCTL_XDMA_BUFFER_SET arg s = None"
    by (simp add: ioctl_dispatch ioctl_do_buffer_set_def alloc_array_def get_user_pages_def read_elem_def
        Let_def)
next
  obtain l where "length pgs' = Suc l" using assms(9) by (cases pgs') auto
  moreover have "read_elem t (huge_pages (xinst t)) 0 = Some (pgs' ! 0)"
    using assms(8,9) by (intro holds_array_read) (auto simp: buffer_ok_def)
  ultimately have "collect_loop U (length pgs') 0 0 0 t = None"
    using assms(13) by (simp add: write_elem_def)
  then show "char_xdma_ioctl U IOCTL_XDMA_MAPPING_GET arg' t = None"
    using assms(10,12) leD [OF assms(11)] buffer_npages [OF assms(8)]
    by (simp add: ioctl_dispatch ioctl_do_mapping_get_def alloc_array_def Let_def)
qed

theorem ioctl_no_memory_witness:
  "char_xdma_ioctl (demo_uapi\<lparr>u_alloc := (\<lambda>h n. 0)\<rparr>) IOCTL_XDMA_BUFFER_SET 0x8000 demo_xio = None
   \<and> (\<exists>t. buffer_ok t demo_pages
        \<and> char_xdma_ioctl (demo_uapi\<lparr>u_alloc := (\<lambda>h n. 0)\<rparr>) IOCTL_XDMA_MAPPING_GET 0x8100 t = None)"
proof -
  let ?U = "demo_uapi\<lparr>u_alloc := (\<lambda>h n. 0)\<rparr>"
  obtain t xs where t: "buffer_ok t demo_pages" "heap t = (heap demo_xio)(huge_pages (xinst t) \<mapsto> xs)"
    using demo_buffer by blast
  have U: "kernel_ok ?U" using demo_kernel_ok by (simp add: kernel_ok_def)
  have ne: "demo_pages \<noteq> []" by (simp add: demo_pages_def)
  have hn: "huge_hnpages (xinst t) = 2" using t(1) by (simp add: buffer_ok_def demo_pages_def)
  have "heap t 0 = None" using t by (auto simp: demo_xio_def buffer_ok_def)
  moreover have "heap demo_xio 0 = None" by (simp add: demo_xio_def)
  moreover have "u_copy_from_user_huge ?U 0x8000 = (0, \<lparr>huge_addr = 0x10000000, huge_sz = 0x201000\<rparr>)"
    "u_copy_from_user_map ?U 0x8100 = (0, \<lparr>map_npages = 2, map_dma_addr = 0x9000\<rparr>)"
    "u_get_user_pages ?U 0x10000000 513 = (513, demo_pages)"
    by (simp_all add: demo_sel demo_map)
  ultimately show ?thesis
    using ioctl_no_memory [OF U _ refl _ _ _ _ t(1) ne, of "0x8000" _ 513 demo_pages demo_xio "0x8100"] t(1) hn
    by (auto simp: demo_npages)
qed

text \<open>
  Command numbers and error returns. The three commands have the numbers user space computes
  from the header; any other command is accepted with result 0 and no effect; and when user
  memory cannot be read, the result is the positive number of bytes not copied rather than a
  negative error number.
\<close>

theorem ioctl_commands:
  "IOCTL_XDMA_BUFFER_SET = 0x40087101 \<and> IOCTL_XDMA_MAPPING_GET = 0x80087102 \<and> IOCTL_XDMA_RELEASE = 0x7103
   \<and> (cmd \<notin> {0x40087101, 0x80087102, 0x7103} \<longrightarrow> char_xdma_ioctl U cmd arg s = Some (0, s))
   \<and> (0 < fst (u_copy_from_user_huge U arg) \<longrightarrow>
        char_xdma_ioctl U IOCTL_XDMA_BUFFER_SET arg s = Some (fst (u_copy_from_user_huge U arg), s))
   \<and> (0 < fst (u_copy_from_user_map U arg) \<longrightarrow>
        char_xdma_ioctl U IOCTL_XDMA_MAPPING_GET arg s = Some (fst (u_copy_from_user_map U arg), s))"
proof -
  have codes: "IOCTL_XDMA_BUFFER_SET = 0x40087101" "IOCTL_XDMA_MAPPING_GET = 0x80087102" "IOCTL_XDMA_RELEASE = 0x7103"
    by (simp_all add: IOCTL_XDMA_BUFFER_SET_def IOCTL_XDMA_MAPPING_GET_def IOCTL_XDMA_RELEASE_def IOC_def)
  have "char_xdma_ioctl U cmd arg s = Some (0, s)" if "cmd \<notin> {0x40087101, 0x80087102, 0x7103}"
    using that by (simp add: char_xdma_ioctl_def codes)
  moreover have "ioctl_do_buffer_set U arg s = Some (fst (u_copy_from_user_huge U arg), s)"
    if "0 < fst (u_copy_from_user_huge U arg)"
    using that by (cases "u_copy_from_user_huge U arg") (simp add: ioctl_do_buffer_set_def)
  moreover have "ioctl_do_mapping_get U arg s = Some (fst (u_copy_from_user_map U arg), s)"
    if "0 < fst (u_copy_from_user_map U arg)"
    using that by (cases "u_copy_from_user_map U arg") (simp add: ioctl_do_mapping_get_def)
  ultimately show ?thesis using codes by (simp add: ioctl_dispatch)
qed

theorem ioctl_commands_witness:
  "char_xdma_ioctl demo_uapi 0x1234 0 demo_xio = Some (0, demo_xio)
   \<and> char_xdma_ioctl (demo_uapi\<lparr>u_copy_from_user_huge := (\<lambda>a. (16, \<lparr>huge_addr = 0, huge_sz = 0\<rparr>))\<rparr>)
       IOCTL_XDMA_BUFFER_SET 0 demo_xio = Some (16, demo_xio)"
proof (rule conjI)
  have "(0x1234 :: u32) \<notin> {0x40087101, 0x80087102, 0x7103}" by simp
  then show "char_xdma_ioctl demo_uapi 0x1234 0 demo_xio = Some (0, demo_xio)"
    using ioctl_commands [of "0x1234" demo_uapi 0 demo_xio] by blast
qed (use ioctl_commands [of 0 "demo_uapi\<lparr>u_copy_from_user_huge := (\<lambda>a. (16, \<lparr>huge_addr = 0, huge_sz = 0\<rparr>))\<rparr>" 0 demo_xio] in simp)

lemma mmap_bar_in_bounds:
  assumes "mmap_bar U node idx v s = Some (0, Some mp)"
    and "drop_bit 12 (u_resource_start U (pci_dev (inst s)) (nat idx)) * 4096 = u_resource_start U (pci_dev (inst s)) (nat idx)"
  shows "0 \<le> idx \<and> io_pfn mp * 4096 = u_resource_start U (pci_dev (inst s)) (nat idx)
    \<and> io_size mp \<le> u_resource_len U (pci_dev (inst s)) (nat idx) \<and> io_vaddr mp = vm_start v"
  using assms by (auto simp: mmap_bar_def Let_def PAGE_SHIFT_def EAGAIN_def EINVAL_def not_less split: if_splits)

text \<open>
  Mapping a BAR. What \<open>xdma_mmap\<close> and \<open>xdma_bypass_mmap\<close> map never reaches past the end of
  the BAR, and a request for more than the BAR is refused; the offset of the request is ignored,
  so every mapping starts at the first byte of the BAR.
\<close>

theorem mmap_in_bounds:
  assumes "xdma_mmap U v s = Some (0, Some mp)"
    and "\<forall>i. drop_bit 12 (u_resource_start U (pci_dev (inst s)) i) * 4096 = u_resource_start U (pci_dev (inst s)) i"
  shows "0 \<le> user_bar_idx (inst s)
    \<and> io_pfn mp * 4096 = u_resource_start U (pci_dev (inst s)) (nat (user_bar_idx (inst s)))
    \<and> io_size mp \<le> u_resource_len U (pci_dev (inst s)) (nat (user_bar_idx (inst s)))
    \<and> io_size mp = vm_end v - vm_start v
    \<and> xdma_mmap U (v\<lparr>vm_pgoff := k\<rparr>) s = xdma_mmap U v s
    \<and> xdma_bypass_mmap U (v\<lparr>vm_pgoff := k\<rparr>) s = xdma_bypass_mmap U v s"
proof -
  have m: "mmap_bar U (misc_dev_node s) (user_bar_idx (inst s)) v s = Some (0, Some mp)"
    using assms(1) by (simp add: xdma_mmap_def)
  have "io_size mp = vm_end v - vm_start v"
    using m by (auto simp: mmap_bar_def Let_def EAGAIN_def EINVAL_def split: if_splits)
  moreover have "mmap_bar U node i (v\<lparr>vm_pgoff := k\<rparr>) s = mmap_bar U node i v s" for node i
    by (simp add: mmap_bar_def Let_def)
  ultimately show ?thesis
    using mmap_bar_in_bounds [OF m] assms(2) by (simp add: xdma_mmap_def xdma_bypass_mmap_def)
qed

theorem mmap_in_bounds_witness:
  "\<exists>mp. xdma_mmap demo_uapi \<lparr>vm_start = 0x7000, vm_end = 0xF000, vm_pgoff = 3\<rparr>
      (loaded\<lparr>drvdata := 0x1000, misc_dev_node := (misc_dev_node loaded)\<lparr>misc_parent := 7\<rparr>\<rparr>) = Some (0, Some mp)
    \<and> io_pfn mp * 4096 = 0xd0000000 \<and> io_size mp \<le> 0x10000"
proof -
  let ?v = "\<lparr>vm_start = 0x7000, vm_end = 0xF000, vm_pgoff = 3\<rparr>"
  let ?s = "loaded\<lparr>drvdata := 0x1000, misc_dev_node := (misc_dev_node loaded)\<lparr>misc_parent := 7\<rparr>\<rparr>"
  let ?m = "\<lparr>io_vaddr = 0x7000, io_pfn = 0xd0000, io_size = 0x8000\<rparr>"
  have m: "xdma_mmap demo_uapi ?v ?s = Some (0, Some ?m)"
    by (simp add: xdma_mmap_def mmap_bar_def demo_uapi_def loaded_def zeroed_inst_def PAGE_SHIFT_def Let_def)
  from mmap_in_bounds [OF m, of 0] have "io_pfn ?m * 4096 = 0xd0000000 \<and> io_size ?m \<le> 0x10000"
    by (simp add: demo_uapi_def)
  with m show ?thesis by blast
qed

text \<open>
  \<open>xdma_open\<close> takes the \<open>cdev\<close> of the inode for the one embedded in an instance: the file
  refers to the instance only if the inode's \<open>cdev\<close> is the instance's own, at offset 24. The
  driver registers its nodes as miscellaneous devices and never registers that \<open>cdev\<close>.
\<close>

theorem xdma_open_instance:
  "fst (xdma_open i_cdev) = 0 \<and> (snd (xdma_open i_cdev) = p \<longleftrightarrow> i_cdev = p + 24)"
  by (auto simp: xdma_open_def offsetof_cdev_def)

end
