(* ===== verification/Fpga_Controller.thy ===== *)
theory Fpga_Controller
  imports Complex_Main Shuhai_Prelude
begin

text \<open>
  The host's side of the register interface: \<open>sw/src/fpga/FpgaController.cpp\<close>. Everything the
  controller does is a sequence of 32-bit accesses to the mapped user BAR. The device behind the
  BAR is a parameter, a \<open>bus\<close> over an arbitrary device state; the locale \<open>register_bus\<close> states
  what the controller relies on, and \<open>Xdma_Control\<close> shows that the register file of the design
  provides it.
\<close>

section \<open>State\<close>

record 'd bus =
  bus_write :: "u64 \<Rightarrow> u32 \<Rightarrow> 'd \<Rightarrow> 'd"
  bus_read :: "u64 \<Rightarrow> 'd \<Rightarrow> u32 \<times> 'd"

record 'd controller =
  m_base :: u64
  by_base :: u64
  device :: 'd

definition MAP_SIZE :: u64 where "MAP_SIZE = 32 * 1024"
definition userRegAddressOffset :: u64 where "userRegAddressOffset = 0"

text \<open>The host is little-endian.\<close>

definition htols :: "u32 \<Rightarrow> u32" where
  "htols x = x"

text \<open>The two mappings the constructor asks for; it stores whatever \<open>mmap\<close> returns.\<close>

definition FpgaController_new :: "(int \<Rightarrow> u64) \<Rightarrow> int \<Rightarrow> int \<Rightarrow> 'd \<Rightarrow> 'd controller" where
  "FpgaController_new mmap fd byfd d = \<lparr>m_base = mmap fd, by_base = mmap byfd, device = d\<rparr>"

definition reg_addr :: "u64 \<Rightarrow> u32 \<Rightarrow> u64" where
  "reg_addr base addr = base + userRegAddressOffset + ucast (push_bit 2 addr)"

definition writeReg :: "'d bus \<Rightarrow> u32 \<Rightarrow> u32 \<Rightarrow> 'd controller \<Rightarrow> 'd controller" where
  "writeReg B addr value c =
     c\<lparr>device := bus_write B (reg_addr (m_base c) addr) (htols value) (device c)\<rparr>"

definition readReg :: "'d bus \<Rightarrow> u32 \<Rightarrow> 'd controller \<Rightarrow> u32 \<times> 'd controller" where
  "readReg B addr c =
     (let (v, d) = bus_read B (reg_addr (m_base c) addr) (device c) in (htols v, c\<lparr>device := d\<rparr>))"

section \<open>Operations\<close>

definition configHBM ::
  "'d bus \<Rightarrow> u32 \<Rightarrow> u64 \<Rightarrow> u32 \<Rightarrow> u32 \<Rightarrow> u32 \<Rightarrow> u32 \<Rightarrow> 'd controller \<Rightarrow> 'd controller" where
  "configHBM B workGroupSize numOps strideLength memBurstSize initialAddr hbmChannel c =
     (let c = writeReg B 10 hbmChannel c;
          c = writeReg B 1 workGroupSize c;
          c = writeReg B 2 strideLength c;
          c = writeReg B 3 (ucast numOps) c;
          c = writeReg B 4 (ucast (drop_bit 32 numOps)) c;
          c = writeReg B 5 memBurstSize c;
          c = writeReg B 6 initialAddr c;
          c = writeReg B 9 0 c
      in c)"

definition runHBMtest ::
  "'d bus \<Rightarrow> u32 \<Rightarrow> u32 \<Rightarrow> u32 \<Rightarrow> u32 \<Rightarrow> u32 \<Rightarrow> u64 \<Rightarrow> u32 \<Rightarrow> u32 \<Rightarrow> u32 \<Rightarrow> 'd controller \<Rightarrow> 'd controller" where
  "runHBMtest B write_enable read_enable latency_test_enable hbmChannel
      workGroupSize numOps strideLength memBurstSize initialAddr c =
     (let c = writeReg B 10 hbmChannel c;
          c = writeReg B 1 workGroupSize c;
          c = writeReg B 2 strideLength c;
          c = writeReg B 3 (ucast numOps) c;
          c = writeReg B 4 (ucast (drop_bit 32 numOps)) c;
          c = writeReg B 5 memBurstSize c;
          c = writeReg B 6 initialAddr c;
          c = writeReg B 7 write_enable c;
          c = writeReg B 8 read_enable c;
          c = writeReg B 9 latency_test_enable c;
          c = writeReg B 11 1 c;
          c = writeReg B 11 0 c
      in c)"

text \<open>The DDR variants perform the same accesses.\<close>

definition configDDR ::
  "'d bus \<Rightarrow> u32 \<Rightarrow> u64 \<Rightarrow> u32 \<Rightarrow> u32 \<Rightarrow> u32 \<Rightarrow> u32 \<Rightarrow> 'd controller \<Rightarrow> 'd controller" where
  "configDDR B workGroupSize numOps strideLength memBurstSize initialAddr hbmChannel c =
     (let c = writeReg B 10 hbmChannel c;
          c = writeReg B 1 workGroupSize c;
          c = writeReg B 2 strideLength c;
          c = writeReg B 3 (ucast numOps) c;
          c = writeReg B 4 (ucast (drop_bit 32 numOps)) c;
          c = writeReg B 5 memBurstSize c;
          c = writeReg B 6 initialAddr c;
          c = writeReg B 9 0 c
      in c)"

definition runDDRtest ::
  "'d bus \<Rightarrow> u32 \<Rightarrow> u32 \<Rightarrow> u32 \<Rightarrow> u32 \<Rightarrow> u32 \<Rightarrow> u64 \<Rightarrow> u32 \<Rightarrow> u32 \<Rightarrow> u32 \<Rightarrow> 'd controller \<Rightarrow> 'd controller" where
  "runDDRtest B write_enable read_enable latency_test_enable hbmChannel
      workGroupSize numOps strideLength memBurstSize initialAddr c =
     (let c = writeReg B 10 hbmChannel c;
          c = writeReg B 1 workGroupSize c;
          c = writeReg B 2 strideLength c;
          c = writeReg B 3 (ucast numOps) c;
          c = writeReg B 4 (ucast (drop_bit 32 numOps)) c;
          c = writeReg B 5 memBurstSize c;
          c = writeReg B 6 initialAddr c;
          c = writeReg B 7 write_enable c;
          c = writeReg B 8 read_enable c;
          c = writeReg B 9 latency_test_enable c;
          c = writeReg B 11 1 c;
          c = writeReg B 11 0 c
      in c)"

text \<open>
  Waiting for the end of a run: the loop has no bound, so it is partial; \<^term>\<open>None\<close> is a loop that
  never ends.
\<close>

partial_function (option) poll_end ::
  "'d bus \<Rightarrow> u32 \<Rightarrow> u32 \<Rightarrow> 'd controller \<Rightarrow> 'd controller option" where
  "poll_end B write_enable read_enable c =
     (case readReg B 12 c of (endWr, c) \<Rightarrow>
        case readReg B 13 c of (endRd, c) \<Rightarrow>
          if endWr \<noteq> write_enable \<or> endRd \<noteq> read_enable then poll_end B write_enable read_enable c
          else Some c)"

text \<open>
  A line of the report. The speed is computed from the exact integers; the rounding of the C++
  floating-point types is not modelled.
\<close>

datatype dir = Wr | Rd

record speed_line =
  sl_channel :: nat
  sl_dir :: dir
  sl_bytes :: u64
  sl_cycles :: u32

definition speed :: "real \<Rightarrow> speed_line \<Rightarrow> real" where
  "speed mhz l = real (unat (sl_bytes l)) * mhz / real (unat (sl_cycles l)) / 1000"

definition report_dir ::
  "'d bus \<Rightarrow> dir \<Rightarrow> u32 \<Rightarrow> u64 \<Rightarrow> u32 list \<Rightarrow> nat \<Rightarrow> 'd controller \<Rightarrow> (speed_line list \<times> 'd controller) option" where
  "report_dir B dr enable numOps memBurstSize i c =
     (if bit enable i then
        let c = writeReg B 10 (of_nat i) c;
            (t, c) = readReg B (case dr of Wr \<Rightarrow> 14 | Rd \<Rightarrow> 15) c
        in if i < length memBurstSize
           then Some ([\<lparr>sl_channel = i, sl_dir = dr, sl_bytes = ucast (memBurstSize ! i) * numOps,
                        sl_cycles = t\<rparr>], c)
           else None
      else Some ([], c))"

fun report_channels ::
  "'d bus \<Rightarrow> u32 \<Rightarrow> u32 \<Rightarrow> u64 \<Rightarrow> u32 list \<Rightarrow> nat list \<Rightarrow> 'd controller \<Rightarrow> (speed_line list \<times> 'd controller) option" where
  "report_channels B we re numOps memBurstSize [] c = Some ([], c)"
| "report_channels B we re numOps memBurstSize (i # is) c = do {
     (w, c) \<leftarrow> report_dir B Wr we numOps memBurstSize i c;
     (r, c) \<leftarrow> report_dir B Rd re numOps memBurstSize i c;
     (ls, c) \<leftarrow> report_channels B we re numOps memBurstSize is c;
     Some (w @ r @ ls, c) }"

fun read_lat_timers :: "'d bus \<Rightarrow> nat \<Rightarrow> 'd controller \<Rightarrow> u32 list \<times> 'd controller" where
  "read_lat_timers B 0 c = ([], c)"
| "read_lat_timers B (Suc n) c =
     (let (v, c) = readReg B 16 c; (vs, c) = read_lat_timers B n c in (v # vs, c))"

text \<open>
  The printed part of \<open>lat_time_arry\<close>: its first hundred entries, \<^term>\<open>None\<close> where the entry was
  never assigned.
\<close>

definition printed_latencies :: "u32 list \<Rightarrow> u32 option list" where
  "printed_latencies lat = map (\<lambda>i. if i < length lat then Some (lat ! i) else None) [0 ..< 100]"

record 'd report =
  rp_lines :: "speed_line list"
  rp_latencies :: "u32 option list"
  rp_ctrl :: "'d controller"

definition read_data ::
  "'d bus \<Rightarrow> u32 \<Rightarrow> u32 \<Rightarrow> u32 \<Rightarrow> u32 \<Rightarrow> u64 \<Rightarrow> u32 list \<Rightarrow> 'd controller \<Rightarrow> 'd report option" where
  "read_data B write_enable read_enable latency_test_enable hbmChannel numOps memBurstSize c = do {
     let c = writeReg B 10 hbmChannel c;
     c \<leftarrow> poll_end B write_enable read_enable c;
     (ls, c) \<leftarrow> report_channels B write_enable read_enable numOps memBurstSize [0 ..< 32] c;
     if latency_test_enable \<noteq> 0 then
       let numRegReadNum = (if numOps < 10000 then numOps else 10000);
           (lat, c) = read_lat_timers B (unat numRegReadNum) c
       in Some \<lparr>rp_lines = ls, rp_latencies = printed_latencies lat, rp_ctrl = c\<rparr>
     else Some \<lparr>rp_lines = ls, rp_latencies = [], rp_ctrl = c\<rparr> }"

text \<open>The two functions differ in the clock they compute the speed with.\<close>

definition HBM_MHZ :: real where "HBM_MHZ = 450"
definition DDR_MHZ :: real where "DDR_MHZ = 300"

definition readHBMData ::
  "'d bus \<Rightarrow> u32 \<Rightarrow> u32 \<Rightarrow> u32 \<Rightarrow> u32 \<Rightarrow> u64 \<Rightarrow> u32 list \<Rightarrow> 'd controller \<Rightarrow> (real list \<times> 'd report) option" where
  "readHBMData B we re le ch numOps memBurstSize c =
     map_option (\<lambda>r. (map (speed HBM_MHZ) (rp_lines r), r)) (read_data B we re le ch numOps memBurstSize c)"

definition readDDRData ::
  "'d bus \<Rightarrow> u32 \<Rightarrow> u32 \<Rightarrow> u32 \<Rightarrow> u32 \<Rightarrow> u64 \<Rightarrow> u32 list \<Rightarrow> 'd controller \<Rightarrow> (real list \<times> 'd report) option" where
  "readDDRData B we re le ch numOps memBurstSize c =
     map_option (\<lambda>r. (map (speed DDR_MHZ) (rp_lines r), r)) (read_data B we re le ch numOps memBurstSize c)"

section \<open>The interface\<close>

text \<open>
  What the controller relies on: registers 0 to 11 of the device keep what was last written to
  them, whatever other registers are written and whatever is read.
\<close>

locale register_bus =
  fixes B :: "'d bus" and base :: u64 and cfg :: "'d \<Rightarrow> nat \<Rightarrow> u32"
  assumes write_same: "a < 12 \<Longrightarrow> cfg (bus_write B (base + of_nat (4 * a)) v d) a = v"
    and write_other: "a < 12 \<Longrightarrow> b < 12 \<Longrightarrow> a \<noteq> b \<Longrightarrow>
      cfg (bus_write B (base + of_nat (4 * a)) v d) b = cfg d b"
    and read_keeps: "a < 17 \<Longrightarrow> b < 12 \<Longrightarrow> cfg (snd (bus_read B (base + of_nat (4 * a)) d)) b = cfg d b"

lemma reg_addr_eq: "addr < 17 \<Longrightarrow> reg_addr base addr = base + of_nat (4 * unat addr)"
proof -
  assume "addr < 17"
  then have lt: "unat addr < 17" by (simp add: word_less_nat_alt)
  have "unat (push_bit 2 addr) = 4 * unat addr"
    using lt by (simp add: push_bit_eq_mult unat_word_ariths)
  moreover have "(ucast (push_bit 2 addr) :: u64) = of_nat (unat (push_bit 2 addr))" by simp
  ultimately have "(ucast (push_bit 2 addr) :: u64) = of_nat (4 * unat addr)" by simp
  then show ?thesis by (simp add: reg_addr_def userRegAddressOffset_def)
qed

lemma writeReg_base [simp]: "m_base (writeReg B a v c) = m_base c" "by_base (writeReg B a v c) = by_base c"
  by (simp_all add: writeReg_def)

lemma readReg_base [simp]: "m_base (snd (readReg B a c)) = m_base c" "by_base (snd (readReg B a c)) = by_base c"
  by (simp_all add: readReg_def split: prod.split)

text \<open>The parameters of a run, as the configuration registers hold them.\<close>

definition programmed ::
  "(nat \<Rightarrow> u32) \<Rightarrow> u32 \<Rightarrow> u32 \<Rightarrow> u64 \<Rightarrow> u32 \<Rightarrow> u32 \<Rightarrow> u32 \<Rightarrow> bool" where
  "programmed r hbmChannel workGroupSize numOps strideLength memBurstSize initialAddr \<longleftrightarrow>
     r 10 = hbmChannel \<and> r 1 = workGroupSize \<and> r 2 = strideLength \<and> r 3 = ucast numOps
     \<and> r 4 = ucast (drop_bit 32 numOps) \<and> r 5 = memBurstSize \<and> r 6 = initialAddr"

context register_bus
begin

lemma writeReg_cfg:
  assumes "m_base c = base" and "addr < 12" and "b < 12"
  shows "cfg (device (writeReg B addr v c)) b = (if b = unat addr then v else cfg (device c) b)"
proof -
  have lt: "unat addr < 12" using assms(2) by (simp add: word_less_nat_alt)
  then have "addr < 17" by (simp add: word_less_nat_alt)
  then have "device (writeReg B addr v c) = bus_write B (base + of_nat (4 * unat addr)) v (device c)"
    using assms(1) by (simp add: writeReg_def reg_addr_eq htols_def)
  then show ?thesis
    using write_same [OF lt] write_other [OF lt assms(3)] by auto
qed

lemma readReg_cfg:
  assumes "m_base c = base" and "addr < 17" and "b < 12"
  shows "cfg (device (snd (readReg B addr c))) b = cfg (device c) b"
proof -
  have "unat addr < 17" using assms(2) by (simp add: word_less_nat_alt)
  from read_keeps [OF this assms(3)] assms(1,2) show ?thesis
    by (simp add: readReg_def reg_addr_eq split: prod.split) (metis snd_conv)
qed

lemma configHBM_programs:
  assumes "m_base c = base"
  shows "programmed (cfg (device (configHBM B wgs n st mb ia ch c))) ch wgs n st mb ia"
    and "cfg (device (configHBM B wgs n st mb ia ch c)) 9 = 0"
    and "b \<in> {0, 7, 8, 11} \<Longrightarrow> cfg (device (configHBM B wgs n st mb ia ch c)) b = cfg (device c) b"
  using assms by (auto simp: configHBM_def Let_def programmed_def writeReg_cfg)

text \<open>The state just before the start bit is cleared again.\<close>

lemma runHBMtest_programs:
  assumes "m_base c = base"
  shows "\<exists>c1. runHBMtest B we re le ch wgs n st mb ia c = writeReg B 11 0 c1 \<and> m_base c1 = base
    \<and> programmed (cfg (device c1)) ch wgs n st mb ia \<and> cfg (device c1) 7 = we \<and> cfg (device c1) 8 = re
    \<and> cfg (device c1) 9 = le \<and> cfg (device c1) 11 = 1 \<and> cfg (device c1) 0 = cfg (device c) 0
    \<and> (\<forall>b < 11. cfg (device (writeReg B 11 0 c1)) b = cfg (device c1) b)
    \<and> cfg (device (writeReg B 11 0 c1)) 11 = 0"
proof -
  define c1 where "c1 = (let c = writeReg B 10 ch c;
          c = writeReg B 1 wgs c; c = writeReg B 2 st c;
          c = writeReg B 3 (ucast n) c; c = writeReg B 4 (ucast (drop_bit 32 n)) c;
          c = writeReg B 5 mb c; c = writeReg B 6 ia c;
          c = writeReg B 7 we c; c = writeReg B 8 re c; c = writeReg B 9 le c
      in writeReg B 11 1 c)"
  have b: "m_base c1 = base" using assms by (simp add: c1_def Let_def)
  have "runHBMtest B we re le ch wgs n st mb ia c = writeReg B 11 0 c1"
    by (simp add: runHBMtest_def c1_def Let_def)
  moreover have "programmed (cfg (device c1)) ch wgs n st mb ia" "cfg (device c1) 7 = we"
    "cfg (device c1) 8 = re" "cfg (device c1) 9 = le" "cfg (device c1) 11 = 1"
    "cfg (device c1) 0 = cfg (device c) 0"
    using assms by (simp_all add: c1_def Let_def programmed_def writeReg_cfg)
  moreover have "\<forall>b < 11. cfg (device (writeReg B 11 0 c1)) b = cfg (device c1) b"
    "cfg (device (writeReg B 11 0 c1)) 11 = 0"
    using b by (simp_all add: writeReg_cfg)
  ultimately show ?thesis using b by blast
qed

end

section \<open>Waiting\<close>

definition poll_step :: "'d bus \<Rightarrow> 'd controller \<Rightarrow> 'd controller" where
  "poll_step B c = snd (readReg B 13 (snd (readReg B 12 c)))"

definition poll_done :: "'d bus \<Rightarrow> u32 \<Rightarrow> u32 \<Rightarrow> 'd controller \<Rightarrow> bool" where
  "poll_done B we re c \<longleftrightarrow>
     fst (readReg B 12 c) = we \<and> fst (readReg B 13 (snd (readReg B 12 c))) = re"

lemma poll_end_unfold:
  "poll_end B we re c = (if poll_done B we re c then Some (poll_step B c) else poll_end B we re (poll_step B c))"
  by (subst poll_end.simps) (auto simp: poll_done_def poll_step_def split: prod.split)

lemma poll_end_reaches:
  "poll_done B we re ((poll_step B ^^ n) c) \<Longrightarrow>
   \<exists>k \<le> n. poll_done B we re ((poll_step B ^^ k) c) \<and> poll_end B we re c = Some ((poll_step B ^^ Suc k) c)"
proof (induction n arbitrary: c)
  case 0
  then show ?case by (simp add: poll_end_unfold)
next
  case (Suc n)
  show ?case
  proof (cases "poll_done B we re c")
    case True
    then show ?thesis by (intro exI [of _ 0]) (simp add: poll_end_unfold)
  next
    case False
    have "poll_done B we re ((poll_step B ^^ n) (poll_step B c))"
      using Suc.prems by (simp add: funpow_swap1)
    from Suc.IH [OF this] obtain k where "k \<le> n" "poll_done B we re ((poll_step B ^^ k) (poll_step B c))"
      "poll_end B we re (poll_step B c) = Some ((poll_step B ^^ Suc k) (poll_step B c))" by blast
    with False show ?thesis
      by (intro exI [of _ "Suc k"]) (simp add: poll_end_unfold [of B we re c] funpow_swap1)
  qed
qed

lemma poll_end_sound:
  assumes "poll_end B we re c = Some c'"
  shows "\<exists>n. poll_done B we re ((poll_step B ^^ n) c) \<and> c' = (poll_step B ^^ Suc n) c"
proof (rule poll_end.raw_induct [where P = "\<lambda>B we re c c'. \<exists>n. poll_done B we re ((poll_step B ^^ n) c)
    \<and> c' = (poll_step B ^^ Suc n) c", OF _ assms], goal_cases)
  case (1 poll B we re c c')
  have eq: "(if poll_done B we re c then Some (poll_step B c) else poll B we re (poll_step B c)) = Some c'"
    using 1(2) by (auto simp: poll_done_def poll_step_def split: prod.splits if_splits)
  show ?case
  proof (cases "poll_done B we re c")
    case True
    with eq show ?thesis by (intro exI [of _ 0]) simp
  next
    case False
    with eq have "poll B we re (poll_step B c) = Some c'" by simp
    from 1(1) [OF this] obtain n where "poll_done B we re ((poll_step B ^^ n) (poll_step B c))"
      "c' = (poll_step B ^^ Suc n) (poll_step B c)" by blast
    then show ?thesis by (intro exI [of _ "Suc n"]) (simp add: funpow_swap1)
  qed
qed
end
