(* ===== verification/Fpga_Host.thy ===== *)
theory Fpga_Host
  imports Mem_Manager Xdma_Ioctl Fpga_Controller
begin

text \<open>
  The static class \<open>Fpga\<close> of \<open>sw/src/fpga/Fpga.cpp\<close>, which ties the controller, the memory manager
  and the driver together. The operating system's answers are a parameter; the calls are logged.
  The static pointers can be null, point to a live object or dangle after \<open>delete\<close>.
\<close>

section \<open>State\<close>

definition HUGE_PAGE_SIZE :: u64 where "HUGE_PAGE_SIZE = 2 * 1024 * 1024"
definition NUM_HUGE_PAGES :: u64 where "NUM_HUGE_PAGES = 4096"
definition DMA_SIZE :: u64 where "DMA_SIZE = NUM_HUGE_PAGES * HUGE_PAGE_SIZE"

datatype 'a ptr = Null | Live 'a | Dangling

datatype syscall =
    Open string
  | Mmap int u64
  | Ioctl int u32 xdma_huge_mapping
  | IoctlSet int u32 xdma_huge
  | Munmap u64 u64
  | Close int

record host_os =
  os_open :: "string \<Rightarrow> int"
  os_mmap :: "int \<Rightarrow> u64 \<Rightarrow> u64"
  os_calloc :: "u64 \<Rightarrow> u64"

record 'd fpga =
  controller :: "'d controller ptr"
  mm_ptr :: "memory_manager ptr"
  nodeId :: int
  fd :: int
  byfd :: int
  hfd :: int
  huge_base :: u64
  sysl :: "syscall list"

definition MAP_FAILED :: u64 where "MAP_FAILED = -1"

definition sys :: "syscall \<Rightarrow> 'd fpga \<Rightarrow> 'd fpga" where
  "sys e s = s\<lparr>sysl := sysl s @ [e]\<rparr>"

section \<open>Operations\<close>

text \<open>\<open>Inl\<close> is the argument of \<open>exit\<close>, and \<^term>\<open>None\<close> a dereference of a null or dangling pointer.\<close>

definition setNodeId :: "int \<Rightarrow> 'd fpga \<Rightarrow> 'd fpga" where
  "setNodeId n s = s\<lparr>nodeId := n\<rparr>"

definition initializeMemory :: "host_os \<Rightarrow> (u64 \<Rightarrow> u8) \<Rightarrow> 'd \<Rightarrow> 'd fpga \<Rightarrow> int + 'd fpga" where
  "initializeMemory K ram dev s =
     (let s = sys (Open ''/media/huge/abc'') (s\<lparr>hfd := os_open K ''/media/huge/abc''\<rparr>) in
      if hfd s = -1 then Inl 1
      else
        let s = sys (Mmap (hfd s) DMA_SIZE) (s\<lparr>huge_base := os_mmap K (hfd s) DMA_SIZE\<rparr>) in
        if huge_base s = MAP_FAILED then Inl 1
        else
          let s = sys (Open ''/dev/xdma_control'') (s\<lparr>fd := os_open K ''/dev/xdma_control''\<rparr>) in
          if fd s = -1 then Inl 1
          else
            let s = sys (Open ''/dev/xdma_bypass'') (s\<lparr>byfd := os_open K ''/dev/xdma_bypass''\<rparr>) in
            if byfd s = -1 then Inl 1
            else
              let s = (case controller s of
                         Null \<Rightarrow> sys (Mmap (byfd s) MAP_SIZE) (sys (Mmap (fd s) MAP_SIZE)
                           (s\<lparr>controller := Live (FpgaController_new (\<lambda>f. os_mmap K f MAP_SIZE) (fd s) (byfd s) dev)\<rparr>))
                       | _ \<Rightarrow> s);
                  huge = \<lparr>huge_addr = huge_base s, huge_sz = DMA_SIZE\<rparr>;
                  s = sys (IoctlSet (fd s) IOCTL_XDMA_BUFFER_SET huge) s;
                  npages = huge_sz huge div (2 * 1024 * 1024);
                  mapping = \<lparr>map_npages = npages, map_dma_addr = os_calloc K npages\<rparr>;
                  s = sys (Ioctl (fd s) IOCTL_XDMA_MAPPING_GET mapping) s
              in Inr (s\<lparr>mm_ptr := Live (MemoryManager ram (huge_addr huge) (huge_sz huge))\<rparr>))"

text \<open>The destructor of the controller, which logs failures of \<open>munmap\<close> and goes on.\<close>

definition FpgaController_delete :: "'d controller \<Rightarrow> 'd fpga \<Rightarrow> 'd fpga" where
  "FpgaController_delete c s = sys (Munmap (by_base c) MAP_SIZE) (sys (Munmap (m_base c) MAP_SIZE) s)"

definition fpga_clear :: "'d fpga \<Rightarrow> 'd fpga option" where
  "fpga_clear s =
     (if controller s = Dangling \<or> mm_ptr s = Dangling then None
      else
        let s = (case controller s of
                   Live c \<Rightarrow> FpgaController_delete c (s\<lparr>controller := Dangling\<rparr>)
                 | _ \<Rightarrow> s);
            s = (case mm_ptr s of Live m \<Rightarrow> s\<lparr>mm_ptr := Dangling\<rparr> | _ \<Rightarrow> s);
            s = sys (Munmap (huge_base s) DMA_SIZE) s;
            s = sys (Close (fd s)) s;
            s = sys (Close (byfd s)) s
        in Some (sys (Close (hfd s)) s))"

definition getController :: "'d fpga \<Rightarrow> 'd controller ptr" where
  "getController s = controller s"

definition fpga_allocate :: "(nat \<Rightarrow> bool) \<Rightarrow> u64 \<Rightarrow> 'd fpga \<Rightarrow> (u64 option \<times> 'd fpga) option" where
  "fpga_allocate w n s = (case mm_ptr s of
       Live m \<Rightarrow> (case allocate w n m of (p, m') \<Rightarrow> Some (p, s\<lparr>mm_ptr := Live m'\<rparr>))
     | _ \<Rightarrow> None)"

definition fpga_free :: "u64 \<Rightarrow> 'd fpga \<Rightarrow> 'd fpga option" where
  "fpga_free p s = (case mm_ptr s of Live m \<Rightarrow> Some (s\<lparr>mm_ptr := Live (mm_free p m)\<rparr>) | _ \<Rightarrow> None)"

text \<open>
  A program's calls of \<open>Fpga::allocate\<close> and \<open>Fpga::free\<close>, with the pointers it holds, each with its
  request; \<^term>\<open>None\<close> when a call dereferences a null or dangling pointer.
\<close>

fun fpga_run :: "((nat \<Rightarrow> bool) \<times> u64) mm_op list \<Rightarrow> 'd fpga \<Rightarrow> (u64 \<times> (nat \<Rightarrow> bool) \<times> u64) list \<Rightarrow>
    ('d fpga \<times> (u64 \<times> (nat \<Rightarrow> bool) \<times> u64) list) option" where
  "fpga_run [] s hs = Some (s, hs)"
| "fpga_run (Alloc (w, n) # ops) s hs =
     (case fpga_allocate w n s of
        None \<Rightarrow> None
      | Some (None, s') \<Rightarrow> fpga_run ops s' hs
      | Some (Some p, s') \<Rightarrow> fpga_run ops s' (hs @ [(p, w, n)]))"
| "fpga_run (Free p # ops) s hs =
     (case fpga_free p s of
        None \<Rightarrow> None
      | Some s' \<Rightarrow> fpga_run ops s' (filter (\<lambda>h. fst h \<noteq> p) hs))"

section \<open>Lemmas\<close>

lemma fpga_run_manager:
  "mm_ptr s = Live m \<Longrightarrow> fpga_run ops s hs =
     (case client_run (\<lambda>(w, n). allocate w n) mm_free ops m hs of
        (m', hs') \<Rightarrow> Some (s\<lparr>mm_ptr := Live m'\<rparr>, hs'))"
proof (induction ops s hs arbitrary: m rule: fpga_run.induct)
  case (1 s hs)
  then show ?case by (cases s) simp
next
  case (2 w n ops s hs)
  show ?case
    by (cases rule: allocate_result [of w n m]) (use 2 in \<open>simp_all add: fpga_allocate_def\<close>)
next
  case (3 p ops s hs)
  then show ?case by (simp add: fpga_free_def del: mm_free_sel)
qed

lemma initializeMemory_ok:
  assumes "initializeMemory K ram dev s = Inr t"
  shows "mm_ptr t = Live (MemoryManager ram (os_mmap K (os_open K ''/media/huge/abc'') DMA_SIZE) DMA_SIZE)
    \<and> os_mmap K (os_open K ''/media/huge/abc'') DMA_SIZE \<noteq> MAP_FAILED
    \<and> controller t = (if controller s = Null
        then Live (FpgaController_new (\<lambda>f. os_mmap K f MAP_SIZE) (os_open K ''/dev/xdma_control'')
               (os_open K ''/dev/xdma_bypass'') dev)
        else controller s)"
  using assms
  by (auto simp: initializeMemory_def sys_def Let_def split: if_splits ptr.splits)

lemma DMA_SIZE_val: "DMA_SIZE = 0x200000000" "unat DMA_SIZE = 0x200000000"
  by (simp_all add: DMA_SIZE_def NUM_HUGE_PAGES_def HUGE_PAGE_SIZE_def)

lemma initializeMemory_requests:
  assumes "initializeMemory K ram dev s = Inr t"
  shows "\<exists>l a. sysl t = l
    @ [IoctlSet (fd t) IOCTL_XDMA_BUFFER_SET \<lparr>huge_addr = huge_base t, huge_sz = DMA_SIZE\<rparr>,
       Ioctl (fd t) IOCTL_XDMA_MAPPING_GET \<lparr>map_npages = DMA_SIZE div (2 * 1024 * 1024), map_dma_addr = a\<rparr>]"
  using assms
  by (auto simp: initializeMemory_def sys_def Let_def split: if_splits ptr.splits)

section \<open>A host on which everything works\<close>

definition demo_os :: host_os where
  "demo_os = \<lparr>os_open = (\<lambda>p. if p = ''/media/huge/abc'' then 3 else if p = ''/dev/xdma_control'' then 4 else 5),
     os_mmap = (\<lambda>f n. if f = 3 then 0x7f0000000000 else if f = 4 then 0x7f000000 else 0x7f008000),
     os_calloc = (\<lambda>n. 0x55550000)\<rparr>"

definition host0 :: "unit fpga" where
  "host0 = \<lparr>controller = Null, mm_ptr = Null, nodeId = 0, fd = 0, byfd = 0, hfd = 0, huge_base = 0, sysl = []\<rparr>"

definition host1 :: "unit fpga" where
  "host1 = \<lparr>controller = Live \<lparr>m_base = 0x7f000000, by_base = 0x7f008000, device = ()\<rparr>,
     mm_ptr = Live (MemoryManager (\<lambda>_. 0) 0x7f0000000000 DMA_SIZE), nodeId = 0, fd = 4, byfd = 5, hfd = 3,
     huge_base = 0x7f0000000000,
     sysl = [Open ''/media/huge/abc'', Mmap 3 DMA_SIZE, Open ''/dev/xdma_control'', Open ''/dev/xdma_bypass'',
       Mmap 4 MAP_SIZE, Mmap 5 MAP_SIZE,
       IoctlSet 4 IOCTL_XDMA_BUFFER_SET \<lparr>huge_addr = 0x7f0000000000, huge_sz = DMA_SIZE\<rparr>,
       Ioctl 4 IOCTL_XDMA_MAPPING_GET \<lparr>map_npages = 4096, map_dma_addr = 0x55550000\<rparr>]\<rparr>"

lemma demo_initialize: "initializeMemory demo_os (\<lambda>_. 0) () host0 = Inr host1"
  by (simp add: initializeMemory_def demo_os_def host0_def host1_def sys_def Let_def MAP_FAILED_def
      FpgaController_new_def DMA_SIZE_val)

definition many_pages :: "u64 list" where
  "many_pages = map of_nat [0 ..< 0x200000]"

lemma length_many_pages: "length many_pages = 0x200000"
  by (simp add: many_pages_def)

definition host_uapi :: uapi where
  "host_uapi = demo_uapi\<lparr>
     u_copy_from_user_huge := (\<lambda>a. (0, \<lparr>huge_addr = 0x7f0000000000, huge_sz = DMA_SIZE\<rparr>)),
     u_copy_from_user_map := (\<lambda>a. (0, \<lparr>map_npages = 4096, map_dma_addr = 0x55550000\<rparr>)),
     u_get_user_pages := (\<lambda>a n. if n = 0x200000 then (0x200000, many_pages) else (0, []))\<rparr>"

lemma host_kernel_ok: "kernel_ok host_uapi"
  by (simp add: kernel_ok_def host_uapi_def demo_uapi_def length_many_pages)

lemma host_uapi_sel:
  "u_copy_from_user_huge host_uapi a = (0, \<lparr>huge_addr = 0x7f0000000000, huge_sz = DMA_SIZE\<rparr>)"
  "u_copy_from_user_map host_uapi a = (0, \<lparr>map_npages = 4096, map_dma_addr = 0x55550000\<rparr>)"
  "u_get_user_pages host_uapi b 0x200000 = (0x200000, many_pages)"
  "u_copy_to_user_map host_uapi a = 0" "u_copy_to_user_addrs host_uapi a = 0"
  "u_alloc host_uapi (heap demo_xio) n \<noteq> 0" "u_alloc host_uapi ((heap demo_xio)(q \<mapsto> xs)) n \<noteq> 0"
  by (simp_all add: host_uapi_def demo_uapi_def demo_xio_def)

section \<open>Properties\<close>

text \<open>
  C11. Host and driver agree on the buffer. The last two requests of the host's initialisation are
  \<open>BUFFER_SET\<close> for the 8 GiB mapping and \<open>MAPPING_GET\<close> with room for 4096 addresses. When the kernel
  pins all pages of the mapping, the two allocations and the copies succeed, the driver accepts both requests and
  returns exactly 4096 physical addresses, one per 2 MiB page: those of the pages 0, 512, 1024, ...
\<close>

theorem host_driver_agree:
  assumes "initializeMemory K ram dev h = Inr t" and "sysl t = l @ [IoctlSet f c1 huge, Ioctl f' c2 umap]"
    and "kernel_ok U" and "u_copy_from_user_huge U a1 = (0, huge)" and "u_copy_from_user_map U a2 = (0, umap)"
    and "u_get_user_pages U (huge_base t) 0x200000 = (0x200000, pgs)"
    and "u_alloc U (heap s) 0x200000 \<noteq> 0" and "u_alloc U ((heap s)(u_alloc U (heap s) 0x200000 \<mapsto> map Some pgs)) 4096 \<noteq> 0"
    and "u_copy_to_user_map U a2 = 0" and "u_copy_to_user_addrs U (map_dma_addr umap) = 0"
  shows "\<exists>s1 s2. char_xdma_ioctl U c1 a1 s = Some (0, s1) \<and> char_xdma_ioctl U c2 a2 s1 = Some (0, s2)
    \<and> to_user s2 = to_user s @ [(a2, [Some 4096, Some (map_dma_addr umap)]),
        (map_dma_addr umap, map (\<lambda>k. Some (u_page_to_phys U (pgs ! (512 * k)))) [0 ..< 4096])]"
proof -
  have req: "c1 = IOCTL_XDMA_BUFFER_SET" "huge = \<lparr>huge_addr = huge_base t, huge_sz = DMA_SIZE\<rparr>"
    "c2 = IOCTL_XDMA_MAPPING_GET" "map_npages umap = 4096"
    using initializeMemory_requests [OF assms(1)] assms(2) by (auto simp: DMA_SIZE_val)
  have n: "1 + (huge_sz huge - 1) div PAGE_SIZE = 0x200000" by (simp add: req DMA_SIZE_val PAGE_SIZE_def)
  have "int (length pgs) = 0x200000"
    using assms(3,6) unfolding kernel_ok_def by (metis zero_less_numeral)
  then have len: "length pgs = 0x200000" by simp
  obtain s1 xs where s1: "ioctl_do_buffer_set U a1 s = Some (0, s1)" "buffer_ok s1 pgs" "to_user s1 = to_user s"
    "heap s1 = (heap s)(huge_pages (xinst s1) \<mapsto> xs)"
    using buffer_set_buffer_ok [OF assms(3,4) n [symmetric], of s "0x200000" pgs] assms(6,7) req(2) by auto
  have hn: "huge_hnpages (xinst s1) = 4096" using s1(2) by (simp add: buffer_ok_def len)
  have "huge_hnpages (xinst s1) \<le> map_npages umap" by (simp add: hn req(4))
  moreover have "heap s1 = (heap s)(u_alloc U (heap s) 0x200000 \<mapsto> map Some pgs)"
    using buffer_set_eq [OF assms(3,4) n [symmetric] refl assms(7), of "0x200000" pgs] assms(6) s1(1) req(2) len
    by auto
  then have "u_alloc U (heap s1) (huge_hnpages (xinst s1)) \<noteq> 0"
    using assms(8) by (simp add: hn)
  ultimately obtain s2 where s2: "ioctl_do_mapping_get U a2 s1 = Some (0, s2)"
    "to_user s2 = to_user s1 @ [(a2, [Some 4096, Some (map_dma_addr umap)]),
       (map_dma_addr umap, map Some (huge_addrs U pgs))]"
    using mapping_get_eq [OF assms(3) s1(2) assms(5)] assms(9,10) hn by simp
  have "map Some (huge_addrs U pgs) = map (\<lambda>k. Some (u_page_to_phys U (pgs ! (512 * k)))) [0 ..< 4096]"
    unfolding huge_addrs_def len map_map comp_def by simp
  with s1 s2 show ?thesis by (simp add: req ioctl_dispatch)
qed

theorem host_driver_agree_witness:
  "\<exists>s1 s2. char_xdma_ioctl host_uapi IOCTL_XDMA_BUFFER_SET 0x7ffe10 demo_xio = Some (0, s1)
    \<and> char_xdma_ioctl host_uapi IOCTL_XDMA_MAPPING_GET 0x7ffe20 s1 = Some (0, s2)
    \<and> length (snd (last (to_user s2))) = 4096"
proof -
  have l: "sysl host1 = [Open ''/media/huge/abc'', Mmap 3 DMA_SIZE, Open ''/dev/xdma_control'',
      Open ''/dev/xdma_bypass'', Mmap 4 MAP_SIZE, Mmap 5 MAP_SIZE]
    @ [IoctlSet 4 IOCTL_XDMA_BUFFER_SET \<lparr>huge_addr = 0x7f0000000000, huge_sz = DMA_SIZE\<rparr>,
       Ioctl 4 IOCTL_XDMA_MAPPING_GET \<lparr>map_npages = 4096, map_dma_addr = 0x55550000\<rparr>]"
    by (simp add: host1_def)
  from host_driver_agree [OF demo_initialize l host_kernel_ok host_uapi_sel(1) [of "0x7ffe10"]
      host_uapi_sel(2) [of "0x7ffe20"], of many_pages demo_xio]
  have "\<exists>s1 s2. char_xdma_ioctl host_uapi IOCTL_XDMA_BUFFER_SET 0x7ffe10 demo_xio = Some (0, s1)
    \<and> char_xdma_ioctl host_uapi IOCTL_XDMA_MAPPING_GET 0x7ffe20 s1 = Some (0, s2)
    \<and> to_user s2 = to_user demo_xio @ [(0x7ffe20, [Some 4096, Some 0x55550000]),
       (0x55550000, map (\<lambda>k. Some (u_page_to_phys host_uapi (many_pages ! (512 * k)))) [0 ..< 4096])]"
    by (simp add: host_uapi_sel)
  then show ?thesis by force
qed

text \<open>
  C30. Memory handed out by \<open>Fpga::allocate\<close> lies in the mapped buffer. After a successful
  initialisation, with the huge pages mapped at a page boundary below the top of the address space,
  any sequence of \<open>Fpga::allocate\<close> and \<open>Fpga::free\<close> calls runs without a null dereference, and at its
  end the pointers returned and not freed since are page aligned and name blocks of whole pages
  inside the 8 GiB mapping, pairwise disjoint.
\<close>

theorem fpga_allocate_in_buffer:
  assumes "initializeMemory K ram dev h = Inr t" and "b = os_mmap K (os_open K ''/media/huge/abc'') DMA_SIZE"
    and "4096 dvd unat b" and "unat b + 0x200000000 \<le> 2 ^ 64"
  shows "\<exists>u hs. fpga_run ops t [] = Some (u, hs)
    \<and> (\<forall>(p, w, k) \<in> set hs. 4096 dvd unat p \<and> 4096 dvd unat (roundedSize k)
        \<and> block_span (unat p, unat (roundedSize k)) \<subseteq> {unat b ..< unat b + 0x200000000})
    \<and> disjoint_blocks (map (\<lambda>(p, w, k). (unat p, unat (roundedSize k))) hs)"
proof -
  let ?m = "MemoryManager ram b DMA_SIZE"
  have le: "unat b + unat DMA_SIZE \<le> 2 ^ 64" using assms(4) by (simp add: DMA_SIZE_val)
  have t: "mm_ptr t = Live ?m" using initializeMemory_ok [OF assms(1)] assms(2) by simp
  obtain m' hs where run: "client_run (\<lambda>(w, n). allocate w n) mm_free ops ?m [] = (m', hs)"
    by (cases "client_run (\<lambda>(w, n). allocate w n) mm_free ops ?m []")
  have "paged ?m" using assms(3) by (simp add: paged_def MemoryManager_def MemChunk_def DMA_SIZE_val)
  then have al: "\<forall>(p, q) \<in> set hs. 4096 dvd unat p"
    using client_run_aligned [OF run mm_inv_MemoryManager [OF le]] by simp
  have bs: "held_blocks (\<lambda>(w, k). unat (roundedSize k)) hs = map (\<lambda>(p, w, k). (unat p, unat (roundedSize k))) hs"
    by (auto simp: held_blocks_def)
  note r = client_run_new [OF run le, unfolded bs DMA_SIZE_val(2)]
  have "4096 dvd unat p \<and> 4096 dvd unat (roundedSize k)
      \<and> block_span (unat p, unat (roundedSize k)) \<subseteq> {unat b ..< unat b + 0x200000000}"
    if "(p, w, k) \<in> set hs" for p w k
    using that al r roundedSize_paged [of k] by fastforce
  then show ?thesis using r fpga_run_manager [OF t, of ops "[]"] run by auto
qed

theorem fpga_allocate_in_buffer_witness:
  "\<exists>u hs. fpga_run [Alloc (\<lambda>_. False, 5000), Alloc (\<lambda>_. False, 1), Free 0x7f0000000000, Alloc (\<lambda>_. False, 4096)]
      host1 [] = Some (u, hs)
    \<and> map (\<lambda>(p, w, k). (unat p, unat (roundedSize k))) hs = [(0x7f0000002000, 4096), (0x7f0000000000, 4096)]
    \<and> disjoint_blocks [(0x7f0000002000, 4096), (0x7f0000000000, 4096)]"
proof -
  let ?ops = "[Alloc (\<lambda>_. False, 5000), Alloc (\<lambda>_. False, 1), Free 0x7f0000000000, Alloc (\<lambda>_. False, 4096)]"
  have r: "roundedSize 5000 = 8192" "roundedSize 1 = 4096" "roundedSize 4096 = 4096"
    by (simp_all add: roundedSize_def)
  have "\<exists>u. fpga_run ?ops host1 [] =
      Some (u, [(0x7f0000002000, \<lambda>_. False, 1), (0x7f0000000000, \<lambda>_. False, 4096)])"
    by (simp add: fpga_allocate_def fpga_free_def host1_def MemoryManager_def MemChunk_def allocate_def
        compare_exchange_weak_def DMA_SIZE_val r mm_free_def)
  then obtain u where u: "fpga_run ?ops host1 [] =
      Some (u, [(0x7f0000002000, \<lambda>_. False, 1), (0x7f0000000000, \<lambda>_. False, 4096)])" by blast
  have "4096 dvd unat (os_mmap demo_os (os_open demo_os ''/media/huge/abc'') DMA_SIZE)"
    "unat (os_mmap demo_os (os_open demo_os ''/media/huge/abc'') DMA_SIZE) + 0x200000000 \<le> 2 ^ 64"
    by (simp_all add: demo_os_def)
  from fpga_allocate_in_buffer [OF demo_initialize refl this, of ?ops] u r show ?thesis by simp
qed

text \<open>
  \<open>Fpga::clear\<close> leaves its pointers dangling: initialising again after it keeps the deleted
  controller, since the pointer is not null, and clearing once more deletes it a second time.
\<close>

theorem clear_then_initialize_dangles:
  assumes "initializeMemory K ram dev h = Inr t" and "controller h = Null" and "fpga_clear t = Some u"
    and "initializeMemory K' ram' dev' u = Inr v"
  shows "controller u = Dangling \<and> controller v = Dangling \<and> fpga_clear v = None \<and> fpga_clear u = None"
proof -
  have "controller t \<noteq> Null" "controller t \<noteq> Dangling" using initializeMemory_ok [OF assms(1)] assms(2) by auto
  then have u: "controller u = Dangling"
    using assms(3) by (auto simp: fpga_clear_def FpgaController_delete_def sys_def Let_def split: if_splits ptr.splits)
  then have "controller v = Dangling" using initializeMemory_ok [OF assms(4)] by simp
  with u show ?thesis by (simp add: fpga_clear_def)
qed

theorem clear_then_initialize_dangles_witness:
  "\<exists>u v. fpga_clear host1 = Some u \<and> initializeMemory demo_os (\<lambda>_. 0) () u = Inr v \<and> fpga_clear v = None"
proof -
  have "\<exists>u. fpga_clear host1 = Some u" by (simp add: fpga_clear_def host1_def sys_def Let_def)
  then obtain u where u: "fpga_clear host1 = Some u" by blast
  have "\<exists>v. initializeMemory demo_os (\<lambda>_. 0) () u = Inr v"
    by (simp add: initializeMemory_def demo_os_def sys_def Let_def MAP_FAILED_def)
  then obtain v where v: "initializeMemory demo_os (\<lambda>_. 0) () u = Inr v" by blast
  from clear_then_initialize_dangles [OF demo_initialize _ u v] u v show ?thesis by (simp add: host0_def)
qed

end
