(* ===== verification/Xdma_Control.thy ===== *)
theory Xdma_Control
  imports Fpga_Controller
begin

text \<open>
  The device behind the user BAR, as the host sees it between two register accesses: the register
  file \<open>xdma_control.sv\<close> and the part of \<open>hbm_benchmark.sv\<close> that copies its
  outputs into the parameters of the engine of the selected channel and detects the rising edge
  of the start bit. One step is one AXI-Lite transaction; the clocks run many cycles in between.
  What the engines do is not modelled here: their completion flags are an arbitrary function of
  time, \<open>env_end\<close>, and the timers and the latency memory hold arbitrary values.

  There are two designs, \<open>hw/rtl/u280_hbm\<close> and \<open>hw/rtl/u280_ddr\<close>. They differ in the number of channels, in the
  width of addresses, and in how the registers make up an initial address. The transactions take
  the design as an argument; the facts they share are proved once, in the locale
  \<open>register_design\<close>, which both designs interpret.
\<close>

section \<open>State\<close>

text \<open>The type parameter is the width of an address.\<close>

record (overloaded) 'a lt_param =
  lp_work_group_size :: u32
  lp_stride :: u32
  lp_num_mem_ops :: u64
  lp_mem_burst_size :: u32
  lp_initial_addr :: "'a word"
  lp_latency_test_enable :: bool

text \<open>What the engines see when the start bit rises.\<close>

record (overloaded) 'a start_event =
  se_write_enable :: u32
  se_read_enable :: u32
  se_params :: "nat \<Rightarrow> 'a lt_param"

record (overloaded) 'a xctl =
  dma_control_reg :: "nat \<Rightarrow> u32"
  lt_params :: "nat \<Rightarrow> 'a lt_param"
  starts :: "'a start_event list"
  addrb_ori :: "12 word"
  lat_ram :: "12 word \<Rightarrow> u8"
  lat_timer_sum_wr :: "nat \<Rightarrow> u64"
  lat_timer_sum_rd :: "nat \<Rightarrow> u64"
  env_end :: "nat \<Rightarrow> u32 \<times> u32"
  now :: nat

section \<open>The two designs\<close>

text \<open>
  The number of channels, which is also the width of the wires of the enable masks and of the completion flags
  (in the DDR design the ports of the register file are wider; the bits without a wire read as zero);
  the initial address as the registers make it up; and a register beside the first twelve that a
  reset clears.
\<close>

record (overloaded) 'a design =
  N_MEM_INTF :: nat
  initial_addr :: "(nat \<Rightarrow> u32) \<Rightarrow> 'a word"
  more_reset :: "nat list"

text \<open>
  HBM: 34 bits from one register, shifted by two; the slice of the parameter word that receives
  them has 33. DDR: 64 bits from two registers, of which the engines take 34.
\<close>

definition hbm_initial_addr :: "(nat \<Rightarrow> u32) \<Rightarrow> 33 word" where
  "hbm_initial_addr r = push_bit 2 (ucast (r 6))"

definition ddr_initial_addr :: "(nat \<Rightarrow> u32) \<Rightarrow> 34 word" where
  "ddr_initial_addr r = ucast (push_bit 32 (ucast (r 17)) OR ucast (r 6) :: u64)"

definition hbm_design :: "33 design" where
  "hbm_design = \<lparr>N_MEM_INTF = 32, initial_addr = hbm_initial_addr, more_reset = []\<rparr>"

definition ddr_design :: "34 design" where
  "ddr_design = \<lparr>N_MEM_INTF = 2, initial_addr = ddr_initial_addr, more_reset = [17]\<rparr>"

section \<open>Transactions\<close>

text \<open>The registered outputs of the register file, as the parameter word of an engine takes them.\<close>

definition reg_outputs :: "'a design \<Rightarrow> (nat \<Rightarrow> u32) \<Rightarrow> 'a lt_param" where
  "reg_outputs D r = \<lparr>lp_work_group_size = r 1, lp_stride = r 2,
     lp_num_mem_ops = push_bit 32 (ucast (r 4)) OR ucast (r 3), lp_mem_burst_size = r 5,
     lp_initial_addr = initial_addr D r, lp_latency_test_enable = bit (r 9) 0\<rparr>"

definition hbm_channel :: "(nat \<Rightarrow> u32) \<Rightarrow> nat" where
  "hbm_channel r = unat (ucast (r 10) :: u8)"

text \<open>Bits 7 to 2 of a bus address select one of the 64 registers.\<close>

definition reg_index :: "u32 \<Rightarrow> nat" where
  "reg_index a = unat (ucast (drop_bit 2 a) :: 6 word)"

definition held_in_reset :: "(nat \<Rightarrow> u32) \<Rightarrow> bool" where
  "held_in_reset r \<longleftrightarrow> bit (r 0) 0 \<or> bit (r 11) 0"

definition reg_write :: "'a design \<Rightarrow> nat \<Rightarrow> u32 \<Rightarrow> 'a xctl \<Rightarrow> 'a xctl" where
  "reg_write D i wdata s =
     (let r = (dma_control_reg s)(i := wdata);
          ps = (if hbm_channel r < N_MEM_INTF D then (lt_params s)(hbm_channel r := reg_outputs D r)
                else lt_params s);
          rising = bit (r 11) 0 \<and> \<not> bit (dma_control_reg s 11) 0
      in s\<lparr>dma_control_reg := r, lt_params := ps,
           starts := (if rising then starts s @ [\<lparr>se_write_enable = take_bit (N_MEM_INTF D) (r 7),
                        se_read_enable = take_bit (N_MEM_INTF D) (r 8), se_params = ps\<rparr>]
                      else starts s),
           addrb_ori := (if held_in_reset r then 0 else addrb_ori s), now := now s + 1\<rparr>)"

definition axil_write :: "'a design \<Rightarrow> u32 \<Rightarrow> u32 \<Rightarrow> 'a xctl \<Rightarrow> 'a xctl" where
  "axil_write D awaddr wdata s = reg_write D (reg_index awaddr) wdata s"

definition end_flags :: "'a design \<Rightarrow> 'a xctl \<Rightarrow> nat \<Rightarrow> u32 \<times> u32" where
  "end_flags D s t = (take_bit (N_MEM_INTF D) (fst (env_end s t)), take_bit (N_MEM_INTF D) (snd (env_end s t)))"

definition reg_value :: "'a design \<Rightarrow> 'a xctl \<Rightarrow> nat \<Rightarrow> u32" where
  "reg_value D s i =
     (if i = 12 then fst (end_flags D s (now s)) else if i = 13 then snd (end_flags D s (now s))
      else if i = 14 then ucast (lat_timer_sum_wr s (hbm_channel (dma_control_reg s)))
      else if i = 15 then ucast (lat_timer_sum_rd s (hbm_channel (dma_control_reg s)))
      else if i = 16 then ucast (lat_ram s (addrb_ori s))
      else dma_control_reg s i)"

text \<open>
  Register 16 answers with the entry the read address points at when the transaction begins. The
  latency memory takes 17 cycles and two registers to show it, so this is the design's answer for
  reads of that register that are far enough apart; \<open>Axil_Slave\<close> has the exact distance.
\<close>

definition reg_read :: "'a design \<Rightarrow> nat \<Rightarrow> 'a xctl \<Rightarrow> u32 \<times> 'a xctl" where
  "reg_read D i s =
     (reg_value D s i,
      s\<lparr>addrb_ori := (if held_in_reset (dma_control_reg s) then 0
                      else if i = 16 then addrb_ori s + 1 else addrb_ori s), now := now s + 1\<rparr>)"

definition axil_read :: "'a design \<Rightarrow> u32 \<Rightarrow> 'a xctl \<Rightarrow> u32 \<times> 'a xctl" where
  "axil_read D araddr s = reg_read D (reg_index araddr) s"

text \<open>The user BAR starts at \<open>base\<close> in the host's address space.\<close>

definition xctl_bus :: "'a design \<Rightarrow> u64 \<Rightarrow> 'a xctl bus" where
  "xctl_bus D base =
     \<lparr>bus_write = (\<lambda>a. axil_write D (ucast (a - base))), bus_read = (\<lambda>a. axil_read D (ucast (a - base)))\<rparr>"

abbreviation hbm_bus :: "u64 \<Rightarrow> 33 xctl bus" where
  "hbm_bus \<equiv> xctl_bus hbm_design"

abbreviation ddr_bus :: "u64 \<Rightarrow> 34 xctl bus" where
  "ddr_bus \<equiv> xctl_bus ddr_design"

section \<open>The register file is a register bus\<close>

lemma reg_index_of: "a < 64 \<Longrightarrow> reg_index (ucast (base + of_nat (4 * a) - base :: u64)) = a"
proof -
  assume a: "a < 64"
  have "(ucast (of_nat (4 * a) :: u64) :: u32) = of_nat (4 * a)"
    using a by (intro word_unat_eq_iff [THEN iffD2]) (simp add: unsigned_ucast_eq unat_of_nat take_bit_nat_eq_self del: of_nat_mult)
  moreover have "drop_bit 2 (of_nat (4 * a) :: u32) = of_nat a"
    using a by (intro word_unat_eq_iff [THEN iffD2]) (simp add: unat_drop_bit_eq unat_of_nat drop_bit_eq_div unat_div del: of_nat_mult)
  moreover have "unat (ucast (of_nat a :: u32) :: 6 word) = a"
    using a by (simp add: unsigned_ucast_eq unat_of_nat take_bit_nat_eq_self)
  ultimately show ?thesis by (simp add: reg_index_def del: of_nat_mult)
qed


interpretation xc: register_bus "xctl_bus D base" base dma_control_reg for D base
proof (unfold_locales, goal_cases)
  case (1 a v d)
  then show ?case using reg_index_of [of a base] by (simp add: xctl_bus_def axil_write_def reg_write_def Let_def)
next
  case (2 a b v d)
  then show ?case using reg_index_of [of a base] by (simp add: xctl_bus_def axil_write_def reg_write_def Let_def)
next
  case (3 a b d)
  then show ?case by (simp add: xctl_bus_def axil_read_def reg_read_def)
qed

lemma writeReg_xctl [bus_simps]:
  assumes "m_base c = base" and "addr < 17"
  shows "writeReg (xctl_bus D base) addr v c = c\<lparr>device := reg_write D (unat addr) v (device c)\<rparr>"
proof -
  have "unat addr < 64" using assms(2) by (simp add: word_less_nat_alt)
  with assms reg_index_of [of "unat addr" base] show ?thesis
    by (simp add: writeReg_def reg_addr_eq htols_def xctl_bus_def axil_write_def)
qed

lemma readReg_xctl [bus_simps]:
  assumes "m_base c = base" and "addr < 17"
  shows "readReg (xctl_bus D base) addr c =
    (fst (reg_read D (unat addr) (device c)), c\<lparr>device := snd (reg_read D (unat addr) (device c))\<rparr>)"
proof -
  have "unat addr < 64" using assms(2) by (simp add: word_less_nat_alt)
  with assms reg_index_of [of "unat addr" base] show ?thesis
    by (simp add: readReg_def reg_addr_eq htols_def xctl_bus_def axil_read_def split: prod.split)
qed

section \<open>Programming a channel\<close>

abbreviation reg_writes :: "'a design \<Rightarrow> (nat \<times> u32) list \<Rightarrow> 'a xctl \<Rightarrow> 'a xctl" where
  "reg_writes D ws s \<equiv> fold (\<lambda>(i, v). reg_write D i v) ws s"

abbreviation upd_regs :: "(nat \<times> u32) list \<Rightarrow> (nat \<Rightarrow> u32) \<Rightarrow> nat \<Rightarrow> u32" where
  "upd_regs ws r \<equiv> fold (\<lambda>(i, v) r. r(i := v)) ws r"

text \<open>
  Only the engine of the selected channel follows the registers. \<open>P\<close> are the parameters of all
  engines when the channel was selected.
\<close>

definition selected :: "'a design \<Rightarrow> nat \<Rightarrow> (nat \<Rightarrow> 'a lt_param) \<Rightarrow> 'a xctl \<Rightarrow> bool" where
  "selected D k P s \<longleftrightarrow> hbm_channel (dma_control_reg s) = k \<and> k < N_MEM_INTF D
     \<and> lt_params s = P(k := reg_outputs D (dma_control_reg s))"

text \<open>A write moves no completion flag, timer or latency entry.\<close>

definition env_kept :: "'a xctl \<Rightarrow> 'a xctl \<Rightarrow> bool" where
  "env_kept s t \<longleftrightarrow> env_end t = env_end s \<and> lat_ram t = lat_ram s
     \<and> lat_timer_sum_wr t = lat_timer_sum_wr s \<and> lat_timer_sum_rd t = lat_timer_sum_rd s"

lemma env_kept_trans: "env_kept s t \<Longrightarrow> env_kept t u \<Longrightarrow> env_kept s u"
  by (simp add: env_kept_def)

lemma env_kept_write [simp]: "env_kept s (reg_write D i v t) = env_kept s t"
  by (simp add: env_kept_def reg_write_def Let_def)

lemma env_kept_writes: "env_kept s t \<Longrightarrow> env_kept s (reg_writes D ws t)"
  by (induction ws arbitrary: t) auto

lemma env_kept_refl [simp]: "env_kept s s"
  by (simp add: env_kept_def)

text \<open>
  The contract of a design: it has at most 32 channels, and an initial address comes from registers 6
  and 17. All that is said about programming and starting a run follows from this.
\<close>

locale register_design =
  fixes D :: "'a::len design"
  assumes some_channel: "0 < N_MEM_INTF D" and channels_le: "N_MEM_INTF D \<le> 32"
    and addr_regs: "r 6 = q 6 \<Longrightarrow> r 17 = q 17 \<Longrightarrow> initial_addr D r = initial_addr D q"

text \<open>Splitting the operation count over two registers loses nothing.\<close>

lemma num_ops_join: "push_bit 32 (ucast (ucast (drop_bit 32 n) :: u32)) OR ucast (ucast n :: u32) = (n :: u64)"
  by (rule bit_word_eqI) (auto simp: bit_simps)

text \<open>The parameters an engine has when registers 1 to 6 and 9 were written over the registers \<open>r\<close>.\<close>

definition run_params :: "'a design \<Rightarrow> (nat \<Rightarrow> u32) \<Rightarrow> u32 \<Rightarrow> u64 \<Rightarrow> u32 \<Rightarrow> u32 \<Rightarrow> u32 \<Rightarrow> bool \<Rightarrow> 'a lt_param" where
  "run_params D r wgs n st mb ia le = \<lparr>lp_work_group_size = wgs, lp_stride = st, lp_num_mem_ops = n,
     lp_mem_burst_size = mb, lp_initial_addr = initial_addr D (r(6 := ia)), lp_latency_test_enable = le\<rparr>"

context register_design
begin

lemma outputs_cong:
  "(\<And>j. j \<in> {1 .. 6} \<union> {9, 17} \<Longrightarrow> r j = q j) \<Longrightarrow> reg_outputs D r = reg_outputs D q"
  using addr_regs [of r q] by (simp add: reg_outputs_def)

lemma run_params_cong: "r 17 = q 17 \<Longrightarrow> run_params D r wgs n st mb ia le = run_params D q wgs n st mb ia le"
  using addr_regs [of "r(6 := ia)" "q(6 := ia)"] by (simp add: run_params_def)

lemma outputs_programmed:
  assumes "programmed r ch wgs n st mb ia" and "r 17 = q 17"
  shows "reg_outputs D r = run_params D q wgs n st mb ia (bit (r 9) 0)"
  using assms addr_regs [of r "q(6 := ia)"] by (simp add: programmed_def reg_outputs_def run_params_def num_ops_join)

lemma channel_in_range:
  fixes ch :: u32
  assumes "unat ch < N_MEM_INTF D"
  shows "ch < 32" and "unat (ucast ch :: u8) = unat ch"
proof -
  have "unat ch < 32" using assms channels_le by simp
  then show "ch < 32" "unat (ucast ch :: u8) = unat ch"
    by (simp_all add: word_less_nat_alt unsigned_ucast_eq take_bit_nat_eq_self)
qed

lemma select_channel:
  assumes "unat ch < N_MEM_INTF D"
  shows "selected D (unat ch) (lt_params s) (reg_write D 10 ch s)"
    and "dma_control_reg (reg_write D 10 ch s) = (dma_control_reg s)(10 := ch)"
    and "starts (reg_write D 10 ch s) = starts s"
  using assms channel_in_range(2) [OF assms]
  by (simp_all add: selected_def reg_write_def hbm_channel_def Let_def)

lemma reg_write_selected:
  assumes "selected D k P s" and "i \<noteq> 10" and "i \<noteq> 11"
  shows "selected D k P (reg_write D i v s)" and "dma_control_reg (reg_write D i v s) = (dma_control_reg s)(i := v)"
    and "starts (reg_write D i v s) = starts s"
  using assms by (simp_all add: selected_def reg_write_def hbm_channel_def Let_def)

lemma reg_writes_selected:
  assumes "selected D k P s" and "\<forall>(i, v) \<in> set ws. i \<noteq> 10 \<and> i \<noteq> 11"
  shows "selected D k P (reg_writes D ws s) \<and> dma_control_reg (reg_writes D ws s) = upd_regs ws (dma_control_reg s)
    \<and> starts (reg_writes D ws s) = starts s"
  using assms
proof (induction ws arbitrary: s)
  case (Cons w ws)
  obtain i v where w: "w = (i, v)" by (cases w)
  with Cons.prems have "i \<noteq> 10" "i \<noteq> 11" by auto
  note st = reg_write_selected [OF Cons.prems(1) this]
  from Cons.IH [OF st(1) [of v]] Cons.prems(2) st(2,3) [of v] show ?case by (simp add: w)
qed simp

lemma configHBM_xctl:
  assumes "unat ch < N_MEM_INTF D"
  shows "\<exists>t. configHBM (xctl_bus D (m_base c)) wgs n st mb ia ch c = c\<lparr>device := t\<rparr>
    \<and> lt_params t = (lt_params (device c))(unat ch := run_params D (dma_control_reg (device c)) wgs n st mb ia False)
    \<and> starts t = starts (device c) \<and> (\<forall>j \<in> {0, 11, 17}. dma_control_reg t j = dma_control_reg (device c) j)
    \<and> env_kept (device c) t"
proof -
  let ?ws = "[(1, wgs), (2, st), (3, ucast n), (4, ucast (drop_bit 32 n)), (5, mb), (6, ia), (9, 0)]"
  let ?s = "reg_write D 10 ch (device c)"
  let ?t = "reg_writes D ?ws ?s"
  have eq: "configHBM (xctl_bus D (m_base c)) wgs n st mb ia ch c = c\<lparr>device := ?t\<rparr>"
    by (simp add: configHBM_def Let_def bus_simps)
  have r: "selected D (unat ch) (lt_params (device c)) ?t" "starts ?t = starts (device c)"
    "dma_control_reg ?t = upd_regs ?ws ((dma_control_reg (device c))(10 := ch))"
    using reg_writes_selected [OF select_channel(1) [OF assms], of ?ws "device c"]
      select_channel(2,3) [OF assms, of "device c"] by simp_all
  have k: "\<forall>j \<in> {0, 11, 17}. dma_control_reg ?t j = dma_control_reg (device c) j" unfolding r(3) by simp
  have "programmed (dma_control_reg ?t) ch wgs n st mb ia" "dma_control_reg ?t 9 = 0"
    using xc.configHBM_programs(1,2) [where c = c and base = "m_base c" and D = D and
         wgs = wgs and n = n and st = st and mb = mb and ia = ia and ch = ch, OF refl] unfolding eq by simp_all
  with outputs_programmed k have "reg_outputs D (dma_control_reg ?t) = run_params D (dma_control_reg (device c)) wgs n st mb ia False"
    by fastforce
  moreover have "env_kept (device c) ?t" by (rule env_kept_writes) simp
  ultimately show ?thesis using r(1,2) k eq unfolding selected_def by auto
qed

lemma start_pulse:
  assumes "selected D k P s" and "\<not> bit (dma_control_reg s 11) 0"
  shows "starts (reg_write D 11 0 (reg_write D 11 1 s)) = starts s @ [\<lparr>se_write_enable = take_bit (N_MEM_INTF D) (dma_control_reg s 7),
      se_read_enable = take_bit (N_MEM_INTF D) (dma_control_reg s 8), se_params = lt_params s\<rparr>]"
    and "lt_params (reg_write D 11 0 (reg_write D 11 1 s)) = lt_params s"
    and "dma_control_reg (reg_write D 11 0 (reg_write D 11 1 s)) = (dma_control_reg s)(11 := 0)"
    and "addrb_ori (reg_write D 11 0 (reg_write D 11 1 s)) = 0"
proof -
  have o: "reg_outputs D ((dma_control_reg s)(11 := v)) = reg_outputs D (dma_control_reg s)" for v
    by (rule outputs_cong) auto
  have c: "hbm_channel ((dma_control_reg s)(11 := v)) = k" for v
    using assms(1) by (simp add: selected_def hbm_channel_def)
  have l: "(lt_params s)(k := reg_outputs D (dma_control_reg s)) = lt_params s"
    using assms(1) by (simp add: selected_def)
  show "starts (reg_write D 11 0 (reg_write D 11 1 s)) = starts s @ [\<lparr>se_write_enable = take_bit (N_MEM_INTF D) (dma_control_reg s 7),
      se_read_enable = take_bit (N_MEM_INTF D) (dma_control_reg s 8), se_params = lt_params s\<rparr>]"
    "lt_params (reg_write D 11 0 (reg_write D 11 1 s)) = lt_params s"
    "dma_control_reg (reg_write D 11 0 (reg_write D 11 1 s)) = (dma_control_reg s)(11 := 0)"
    "addrb_ori (reg_write D 11 0 (reg_write D 11 1 s)) = 0"
    using assms(2) by (auto simp: reg_write_def Let_def o c l held_in_reset_def)
qed

lemma runHBMtest_xctl:
  assumes "unat ch < N_MEM_INTF D" and "\<not> bit (dma_control_reg (device c) 11) 0"
  shows "\<exists>t. runHBMtest (xctl_bus D (m_base c)) we re le ch wgs n st mb ia c = c\<lparr>device := t\<rparr>
    \<and> lt_params t = (lt_params (device c))(unat ch := run_params D (dma_control_reg (device c)) wgs n st mb ia (bit le 0))
    \<and> starts t = starts (device c) @ [\<lparr>se_write_enable = take_bit (N_MEM_INTF D) we,
         se_read_enable = take_bit (N_MEM_INTF D) re, se_params = lt_params t\<rparr>]
    \<and> addrb_ori t = 0 \<and> dma_control_reg t 11 = 0
    \<and> dma_control_reg t 0 = dma_control_reg (device c) 0 \<and> env_kept (device c) t"
proof -
  let ?ws = "[(1, wgs), (2, st), (3, ucast n), (4, ucast (drop_bit 32 n)), (5, mb), (6, ia),
    (7, we), (8, re), (9, le)]"
  let ?s = "reg_write D 10 ch (device c)"
  let ?t = "reg_writes D ?ws ?s"
  have eq: "runHBMtest (xctl_bus D (m_base c)) we re le ch wgs n st mb ia c =
      c\<lparr>device := reg_write D 11 0 (reg_write D 11 1 ?t)\<rparr>"
    by (simp add: runHBMtest_def Let_def bus_simps)
  have r: "selected D (unat ch) (lt_params (device c)) ?t"
    "dma_control_reg ?t = upd_regs ?ws ((dma_control_reg (device c))(10 := ch))"
    "starts ?t = starts (device c)"
    using reg_writes_selected [OF select_channel(1) [OF assms(1)], of ?ws "device c"]
      select_channel(2,3) [OF assms(1), of "device c"] by simp_all
  have regs: "dma_control_reg ?t 7 = we" "dma_control_reg ?t 8 = re" "dma_control_reg ?t 9 = le"
    "dma_control_reg ?t 11 = dma_control_reg (device c) 11" "dma_control_reg ?t 0 = dma_control_reg (device c) 0"
    "dma_control_reg ?t 17 = dma_control_reg (device c) 17" "programmed (dma_control_reg ?t) ch wgs n st mb ia"
    unfolding r(2) by (simp_all add: programmed_def)
  have "\<not> bit (dma_control_reg ?t 11) 0" using assms(2) regs(4) by simp
  note p = start_pulse [OF r(1) this]
  have "lt_params ?t = (lt_params (device c))(unat ch := run_params D (dma_control_reg (device c)) wgs n st mb ia (bit le 0))"
    using r(1) outputs_programmed [of "dma_control_reg ?t" ch wgs n st mb ia "dma_control_reg (device c)"] regs(3,6,7) by (simp add: selected_def)
  moreover have "env_kept (device c) (reg_write D 11 0 (reg_write D 11 1 ?t))"
    using env_kept_writes [of "device c" ?s D ?ws] by simp
  ultimately show ?thesis
    unfolding eq using p r(3) regs(1,2,5) by (intro exI [of _ "reg_write D 11 0 (reg_write D 11 1 ?t)"]) simp
qed

end

lemma take_bit_32 [simp]: "take_bit 32 (w :: u32) = w"
  by (simp add: take_bit_word_eq_self)

lemma end_flags_hbm [simp]: "end_flags hbm_design s t = env_end s t"
  by (simp add: end_flags_def hbm_design_def)

lemma design_simps [simp]:
  "N_MEM_INTF hbm_design = 32" "N_MEM_INTF ddr_design = 2"
  "initial_addr hbm_design = hbm_initial_addr" "initial_addr ddr_design = ddr_initial_addr"
  by (simp_all add: hbm_design_def ddr_design_def)

interpretation hbm: register_design hbm_design
  by unfold_locales (simp_all add: hbm_initial_addr_def)

interpretation ddr: register_design ddr_design
  by unfold_locales (simp_all add: ddr_initial_addr_def)

text \<open>The two kinds of calls are the same accesses.\<close>

lemma ddr_calls:
  "configDDR B wgs n st mb ia ch c = configHBM B wgs n st mb ia ch c"
  "runDDRtest B we re le ch wgs n st mb ia c = runHBMtest B we re le ch wgs n st mb ia c"
  by (simp_all add: configDDR_def configHBM_def runDDRtest_def runHBMtest_def)

lemma run_params_hbm:
  "run_params hbm_design r wgs n st mb ia le = \<lparr>lp_work_group_size = wgs, lp_stride = st, lp_num_mem_ops = n,
     lp_mem_burst_size = mb, lp_initial_addr = push_bit 2 (ucast ia), lp_latency_test_enable = le\<rparr>"
  by (simp add: run_params_def hbm_initial_addr_def)

lemma run_params_ddr:
  "r 17 = 0 \<Longrightarrow> run_params ddr_design r wgs n st mb ia le = \<lparr>lp_work_group_size = wgs, lp_stride = st, lp_num_mem_ops = n,
     lp_mem_burst_size = mb, lp_initial_addr = ucast ia, lp_latency_test_enable = le\<rparr>"
proof -
  have "(ucast (ucast ia :: u64) :: 34 word) = ucast ia" by (rule bit_word_eqI) (auto simp: bit_simps)
  then show "r 17 = 0 \<Longrightarrow> ?thesis" by (simp add: run_params_def ddr_initial_addr_def)
qed

section \<open>Waiting for the engines and reading the results\<close>

text \<open>
  Reading leaves the registers, the timers and the latency memory alone; only time goes on and,
  at register 16, the read pointer of the latency memory.
\<close>

definition same_results :: "'a xctl \<Rightarrow> 'a xctl \<Rightarrow> bool" where
  "same_results s t \<longleftrightarrow> env_end t = env_end s \<and> dma_control_reg t = dma_control_reg s \<and> lat_ram t = lat_ram s
     \<and> lat_timer_sum_wr t = lat_timer_sum_wr s \<and> lat_timer_sum_rd t = lat_timer_sum_rd s \<and> starts t = starts s"

lemma same_results_trans: "same_results s t \<Longrightarrow> same_results t u \<Longrightarrow> same_results s u"
  by (simp add: same_results_def)

lemma reg_read_frame:
  "same_results s (snd (reg_read D i s))" "now (snd (reg_read D i s)) = now s + 1"
  "i \<noteq> 16 \<Longrightarrow> addrb_ori s = 0 \<Longrightarrow> addrb_ori (snd (reg_read D i s)) = 0"
  by (simp_all add: same_results_def reg_read_def)

lemma poll_step_xctl:
  "m_base c = base \<Longrightarrow>
   poll_step (xctl_bus D base) c = c\<lparr>device := snd (reg_read D 13 (snd (reg_read D 12 (device c))))\<rparr>"
  by (simp add: poll_step_def bus_simps)

lemma poll_steps_xctl:
  assumes "m_base c = base" and "addrb_ori (device c) = 0"
  shows "m_base ((poll_step (xctl_bus D base) ^^ n) c) = base
   \<and> same_results (device c) (device ((poll_step (xctl_bus D base) ^^ n) c))
   \<and> now (device ((poll_step (xctl_bus D base) ^^ n) c)) = now (device c) + 2 * n
   \<and> addrb_ori (device ((poll_step (xctl_bus D base) ^^ n) c)) = 0"
proof (induction n)
  case 0
  then show ?case using assms by (simp add: same_results_def)
next
  case (Suc n)
  define d where "d = (poll_step (xctl_bus D base) ^^ n) c"
  have d: "m_base d = base" "same_results (device c) (device d)" "now (device d) = now (device c) + 2 * n"
    "addrb_ori (device d) = 0"
    using Suc by (simp_all add: d_def)
  let ?u = "snd (reg_read D 13 (snd (reg_read D 12 (device d))))"
  have "same_results (device c) ?u"
    using same_results_trans [OF d(2)] same_results_trans [OF reg_read_frame(1) reg_read_frame(1)] by blast
  moreover have "(poll_step (xctl_bus D base) ^^ Suc n) c = d\<lparr>device := ?u\<rparr>"
    using poll_step_xctl [OF d(1)] by (simp add: d_def)
  ultimately show ?case using d by (simp add: reg_read_frame)
qed

lemma poll_done_xctl:
  "m_base c = base \<Longrightarrow> poll_done (xctl_bus D base) we re c \<longleftrightarrow>
   fst (end_flags D (device c) (now (device c))) = we \<and> snd (end_flags D (device c) (now (device c) + 1)) = re"
  by (simp add: poll_done_def bus_simps reg_read_def reg_value_def end_flags_def)

text \<open>A design shows no completion flag beyond its channels, so it never reports a mask with such a bit.\<close>

lemma end_flags_masked:
  assumes "end_flags D s t = (we, re)"
  shows "take_bit (N_MEM_INTF D) we = we" and "take_bit (N_MEM_INTF D) re = re"
  using assms by (auto simp: end_flags_def simp flip: take_bit_take_bit [of "N_MEM_INTF D" "N_MEM_INTF D"])

lemma poll_end_masked:
  assumes "m_base c = base" and "take_bit (N_MEM_INTF D) we \<noteq> we \<or> take_bit (N_MEM_INTF D) re \<noteq> re"
  shows "poll_end (xctl_bus D base) we re c = None"
proof (rule ccontr)
  assume "poll_end (xctl_bus D base) we re c \<noteq> None"
  then obtain n where n: "poll_done (xctl_bus D base) we re ((poll_step (xctl_bus D base) ^^ n) c)"
    using poll_end_sound by blast
  have "m_base ((poll_step (xctl_bus D base) ^^ n) c) = m_base c"
    by (induction n) (simp_all add: poll_step_def)
  with n poll_done_xctl assms show False
    by (fastforce simp: end_flags_def)
qed

text \<open>
  The wait ends when the completion flags are seen equal to the enables: the write flags at one
  read and the read flags at the next.
\<close>

lemma poll_end_xctl:
  assumes "m_base c = base" and "addrb_ori (device c) = 0"
    and "fst (end_flags D (device c) (now (device c) + 2 * n)) = we"
    and "snd (end_flags D (device c) (now (device c) + 2 * n + 1)) = re"
  shows "\<exists>d. poll_end (xctl_bus D base) we re c = Some (c\<lparr>device := d\<rparr>) \<and> same_results (device c) d \<and> addrb_ori d = 0"
proof -
  note st = poll_steps_xctl [OF assms(1,2)]
  have "poll_done (xctl_bus D base) we re ((poll_step (xctl_bus D base) ^^ n) c)"
    using st [of n] assms(3,4) poll_done_xctl [of "(poll_step (xctl_bus D base) ^^ n) c" base D we re]
    by (simp add: same_results_def end_flags_def)
  then obtain k where "poll_end (xctl_bus D base) we re c = Some ((poll_step (xctl_bus D base) ^^ Suc k) c)"
    using poll_end_reaches by blast
  moreover have bb: "by_base ((poll_step (xctl_bus D base) ^^ k) c) = by_base c" for k
    by (induction k) (simp_all add: poll_step_def)
  have "(poll_step (xctl_bus D base) ^^ Suc k) c = c\<lparr>device := device ((poll_step (xctl_bus D base) ^^ Suc k) c)\<rparr>"
    using st [of "Suc k"] bb [of "Suc k"] assms(1) by (intro controller.equality) simp_all
  ultimately show ?thesis using st [of "Suc k"] by metis
qed

lemma reg_write_10_frame:
  assumes "\<not> held_in_reset (dma_control_reg s)"
  shows "env_end (reg_write D 10 v s) = env_end s" "lat_ram (reg_write D 10 v s) = lat_ram s"
    "lat_timer_sum_wr (reg_write D 10 v s) = lat_timer_sum_wr s"
    "lat_timer_sum_rd (reg_write D 10 v s) = lat_timer_sum_rd s"
    "addrb_ori (reg_write D 10 v s) = addrb_ori s" "now (reg_write D 10 v s) = now s + 1"
    "dma_control_reg (reg_write D 10 v s) = (dma_control_reg s)(10 := v)"
    "held_in_reset (dma_control_reg (reg_write D 10 v s)) = held_in_reset (dma_control_reg s)"
    "starts (reg_write D 10 v s) = starts s"
  using assms by (simp_all add: reg_write_def Let_def held_in_reset_def)

text \<open>The report the timers call for: a line for each enabled direction of each channel, in order.\<close>

definition result_line :: "dir \<Rightarrow> u64 \<Rightarrow> u32 list \<Rightarrow> (nat \<Rightarrow> u64) \<Rightarrow> nat \<Rightarrow> speed_line" where
  "result_line dr n mbs tm i =
     \<lparr>sl_channel = i, sl_dir = dr, sl_bytes = ucast (mbs ! i) * n, sl_cycles = ucast (tm i)\<rparr>"

definition result_lines :: "u32 \<Rightarrow> u32 \<Rightarrow> u64 \<Rightarrow> u32 list \<Rightarrow> 'a xctl \<Rightarrow> nat list \<Rightarrow> speed_line list" where
  "result_lines we re n mbs s is = concat (map (\<lambda>i.
     (if bit we i then [result_line Wr n mbs (lat_timer_sum_wr s) i] else [])
     @ (if bit re i then [result_line Rd n mbs (lat_timer_sum_rd s) i] else [])) is)"

lemma result_lines_Cons:
  "result_lines we re n mbs s (i # is) =
     (if bit we i then [result_line Wr n mbs (lat_timer_sum_wr s) i] else [])
     @ (if bit re i then [result_line Rd n mbs (lat_timer_sum_rd s) i] else []) @ result_lines we re n mbs s is"
  by (simp add: result_lines_def)

lemma result_lines_cong:
  assumes "lat_timer_sum_wr t = lat_timer_sum_wr s" and "lat_timer_sum_rd t = lat_timer_sum_rd s"
  shows "result_lines we re n mbs t is = result_lines we re n mbs s is"
  unfolding result_lines_def assms by (rule refl)

definition results_kept :: "'a xctl \<Rightarrow> 'a xctl \<Rightarrow> bool" where
  "results_kept s t \<longleftrightarrow> lat_ram t = lat_ram s \<and> lat_timer_sum_wr t = lat_timer_sum_wr s
     \<and> lat_timer_sum_rd t = lat_timer_sum_rd s \<and> addrb_ori t = addrb_ori s \<and> starts t = starts s
     \<and> (\<not> held_in_reset (dma_control_reg s) \<longrightarrow> \<not> held_in_reset (dma_control_reg t))"

lemma report_dir_xctl:
  assumes "m_base c = base" and "\<not> held_in_reset (dma_control_reg (device c))" and "i < 32" and "length mbs = 32"
  shows "\<exists>d. report_dir (xctl_bus D base) dr en n mbs i c = Some (if bit en i then
      [result_line dr n mbs (case dr of Wr \<Rightarrow> lat_timer_sum_wr (device c) | Rd \<Rightarrow> lat_timer_sum_rd (device c)) i]
      else [], c\<lparr>device := d\<rparr>) \<and> results_kept (device c) d"
proof (cases "bit en i")
  case True
  let ?s = "reg_write D 10 (of_nat i) (device c)"
  let ?a = "(case dr of Wr \<Rightarrow> 14 | Rd \<Rightarrow> 15) :: nat"
  have i: "unat (ucast (of_nat i :: u32) :: u8) = i"
    using assms(3) by (simp add: unsigned_ucast_eq unat_of_nat take_bit_nat_eq_self)
  note fr = reg_write_10_frame [OF assms(2), of D "of_nat i"]
  have v: "fst (reg_read D ?a ?s) = ucast ((case dr of Wr \<Rightarrow> lat_timer_sum_wr (device c) | Rd \<Rightarrow> lat_timer_sum_rd (device c)) i)"
    using fr i by (cases dr) (simp_all add: reg_read_def reg_value_def hbm_channel_def)
  have "results_kept (device c) (snd (reg_read D ?a ?s))"
    using fr assms(2) by (cases dr) (auto simp: results_kept_def reg_read_def)
  with True v assms(1,3,4) show ?thesis
    by (cases dr) (auto simp: report_dir_def bus_simps result_line_def Let_def)
next
  case False
  have "results_kept (device c) (device c)" by (simp add: results_kept_def)
  moreover have "c = c\<lparr>device := device c\<rparr>" by simp
  ultimately show ?thesis using False by (auto simp: report_dir_def intro!: exI [of _ "device c"])
qed

lemma report_channels_xctl:
  assumes "m_base c = base" and "\<not> held_in_reset (dma_control_reg (device c))" and "set is \<subseteq> {0 ..< 32}"
    and "length mbs = 32"
  shows "\<exists>d. report_channels (xctl_bus D base) we re n mbs is c =
      Some (result_lines we re n mbs (device c) is, c\<lparr>device := d\<rparr>) \<and> results_kept (device c) d"
  using assms(1-3)
proof (induction "is" arbitrary: c)
  case Nil
  have "c = c\<lparr>device := device c\<rparr>" by simp
  then show ?case by (auto simp: result_lines_def results_kept_def intro!: exI [of _ "device c"])
next
  case (Cons i "is")
  have i: "i < 32" using Cons.prems by simp
  obtain d1 where 1: "report_dir (xctl_bus D base) Wr we n mbs i c = Some (if bit we i then
      [result_line Wr n mbs (lat_timer_sum_wr (device c)) i] else [], c\<lparr>device := d1\<rparr>)" "results_kept (device c) d1"
    using report_dir_xctl [OF Cons.prems(1,2) i assms(4), of D Wr we n] by auto
  have h1: "\<not> held_in_reset (dma_control_reg (device (c\<lparr>device := d1\<rparr>)))"
    using 1(2) Cons.prems(2) by (simp add: results_kept_def)
  obtain d2 where 2: "report_dir (xctl_bus D base) Rd re n mbs i (c\<lparr>device := d1\<rparr>) = Some (if bit re i then
      [result_line Rd n mbs (lat_timer_sum_rd d1) i] else [], c\<lparr>device := d2\<rparr>)" "results_kept d1 d2"
    using report_dir_xctl [OF _ h1 i assms(4), of base D Rd re n] Cons.prems(1) by auto
  have h2: "\<not> held_in_reset (dma_control_reg (device (c\<lparr>device := d2\<rparr>)))"
    using 2(2) h1 by (simp add: results_kept_def)
  obtain d3 where 3: "report_channels (xctl_bus D base) we re n mbs is (c\<lparr>device := d2\<rparr>) =
      Some (result_lines we re n mbs d2 is, c\<lparr>device := d3\<rparr>)" "results_kept d2 d3"
    using Cons.IH [OF _ h2] Cons.prems by auto
  have "results_kept (device c) d3" using 1(2) 2(2) 3(2) by (simp add: results_kept_def)
  moreover have "result_lines we re n mbs d2 is = result_lines we re n mbs (device c) is"
    "lat_timer_sum_rd d1 = lat_timer_sum_rd (device c)"
    using 1(2) 2(2) by (auto simp: results_kept_def intro: result_lines_cong)
  ultimately show ?case using 1(1) 2(1) 3(1) by (auto simp: result_lines_Cons)
qed

lemma read_lat_timers_xctl:
  assumes "m_base c = base" and "\<not> held_in_reset (dma_control_reg (device c))"
  shows "fst (read_lat_timers (xctl_bus D base) n c) =
    map (\<lambda>k. ucast (lat_ram (device c) (addrb_ori (device c) + of_nat k))) [0 ..< n]"
  using assms
proof (induction n arbitrary: c)
  case (Suc n)
  let ?d = "c\<lparr>device := snd (reg_read D 16 (device c))\<rparr>"
  have "m_base ?d = base" "\<not> held_in_reset (dma_control_reg (device ?d))"
    using Suc.prems by (simp_all add: reg_read_def)
  note IH = Suc.IH [OF this]
  have "addrb_ori (device ?d) = addrb_ori (device c) + 1" "lat_ram (device ?d) = lat_ram (device c)"
    using Suc.prems by (simp_all add: reg_read_def)
  moreover have "fst (reg_read D 16 (device c)) = ucast (lat_ram (device c) (addrb_ori (device c)))"
    by (simp add: reg_read_def reg_value_def)
  moreover have "[0 ..< Suc n] = 0 # map Suc [0 ..< n]" by (simp add: upt_conv_Cons map_Suc_upt del: upt_Suc)
  ultimately show ?case
    using IH Suc.prems(1)
    by (simp add: bus_simps Let_def split_beta comp_def add.assoc del: upt_Suc)
qed simp

lemma read_lat_timers_starts:
  assumes "m_base c = base"
  shows "starts (device (snd (read_lat_timers (xctl_bus D base) n c))) = starts (device c)"
  using assms
proof (induction n arbitrary: c)
  case (Suc n)
  let ?d = "c\<lparr>device := snd (reg_read D 16 (device c))\<rparr>"
  have "starts (device (snd (read_lat_timers (xctl_bus D base) n ?d))) = starts (device ?d)"
    using Suc by simp
  then show ?case using Suc.prems by (simp add: bus_simps Let_def split_beta reg_read_def)
qed simp

lemma read_data_xctl:
  assumes "c = c0\<lparr>m_base := base, device := d\<rparr>" and "addrb_ori d = 0" and "\<not> bit (dma_control_reg d 0) 0"
    and "\<not> bit (dma_control_reg d 11) 0" and "length mbs = 32"
    and "\<forall>t \<ge> T. end_flags D d t = (we, re)"
  shows "\<exists>r. read_data (xctl_bus D base) we re le ch n mbs c = Some r
    \<and> rp_lines r = result_lines we re n mbs d [0 ..< 32]
    \<and> rp_latencies r = (if le = 0 then [] else
         printed_latencies (map (\<lambda>k. ucast (lat_ram d (of_nat k))) [0 ..< min (unat n) 10000]))
    \<and> starts (device (rp_ctrl r)) = starts d"
proof -
  have hr: "\<not> held_in_reset (dma_control_reg d)" using assms(3,4) by (simp add: held_in_reset_def)
  let ?c1 = "c\<lparr>device := reg_write D 10 ch d\<rparr>"
  note fr = reg_write_10_frame [OF hr, of D ch]
  have w: "writeReg (xctl_bus D base) 10 ch c = ?c1" using assms(1) by (simp add: bus_simps)
  obtain d2 where 2: "poll_end (xctl_bus D base) we re ?c1 = Some (?c1\<lparr>device := d2\<rparr>)"
    "same_results (reg_write D 10 ch d) d2" "addrb_ori d2 = 0"
    using poll_end_xctl [of ?c1 base D T we re] assms(1,2,6) fr by (auto simp: end_flags_def)
  have k2: "lat_ram d2 = lat_ram d" "lat_timer_sum_wr d2 = lat_timer_sum_wr d" "lat_timer_sum_rd d2 = lat_timer_sum_rd d"
    "\<not> held_in_reset (dma_control_reg d2)"
    using 2(2) fr hr by (simp_all add: same_results_def)
  let ?c2 = "c\<lparr>device := d2\<rparr>"
  obtain d3 where 3: "report_channels (xctl_bus D base) we re n mbs [0 ..< 32] ?c2 =
      Some (result_lines we re n mbs d2 [0 ..< 32], ?c2\<lparr>device := d3\<rparr>)" "results_kept d2 d3"
    using report_channels_xctl [of ?c2 base "[0 ..< 32]" mbs D we re n] assms(1,5) k2(4) by auto
  have lines: "result_lines we re n mbs d2 [0 ..< 32] = result_lines we re n mbs d [0 ..< 32]"
    using k2 by (intro result_lines_cong) simp_all
  let ?n = "if n < 10000 then n else 10000"
  have un: "unat ?n = min (unat n) 10000" by (simp add: word_less_nat_alt min_def)
  obtain lat c4 where 4: "read_lat_timers (xctl_bus D base) (unat ?n) (c\<lparr>device := d3\<rparr>) = (lat, c4)"
    by (cases "read_lat_timers (xctl_bus D base) (unat ?n) (c\<lparr>device := d3\<rparr>)")
  have "lat = map (\<lambda>k. ucast (lat_ram d (of_nat k))) [0 ..< min (unat n) 10000]"
    using read_lat_timers_xctl [of "c\<lparr>device := d3\<rparr>" base D "unat ?n"] 4 3(2) k2 2(3) assms(1) un
    by (simp add: results_kept_def)
  moreover have "read_data (xctl_bus D base) we re le ch n mbs c =
      (if le = 0 then Some \<lparr>rp_lines = result_lines we re n mbs d [0 ..< 32], rp_latencies = [], rp_ctrl = c\<lparr>device := d3\<rparr>\<rparr>
       else Some \<lparr>rp_lines = result_lines we re n mbs d [0 ..< 32], rp_latencies = printed_latencies lat, rp_ctrl = c4\<rparr>)"
    using w 2(1) 3(1) 4 lines by (simp add: read_data_def Let_def)
  moreover have "starts d3 = starts d"
    using 2(2) 3(2) fr by (simp add: same_results_def results_kept_def)
  moreover have "starts (device c4) = starts d3"
    using read_lat_timers_starts [of "c\<lparr>device := d3\<rparr>" base D "unat ?n"] 4 assms(1) by simp
  ultimately show ?thesis
    by (cases "le = 0") auto
qed

section \<open>Properties\<close>

text \<open>
  Programming and starting a run. \<open>runHBMtest\<close> changes the parameters of the selected
  channel's engine only; they arrive complete, the 64-bit operation count through two registers
  and the address scaled by four in 33 bits, the latency flag as bit 0 of its argument. The start bit
  rises exactly once, and what the engines see then are the final parameters and the two enable
  masks: no engine can start on half-written parameters.
\<close>

theorem runHBMtest_starts_once:
  assumes "ch < 32" and "\<not> bit (dma_control_reg (device c) 11) 0"
  shows "\<exists>t. runHBMtest (hbm_bus (m_base c)) we re le ch wgs n st mb ia c = c\<lparr>device := t\<rparr>
    \<and> starts t = starts (device c) @ [\<lparr>se_write_enable = we, se_read_enable = re, se_params =
        (lt_params (device c))(unat ch := \<lparr>lp_work_group_size = wgs, lp_stride = st, lp_num_mem_ops = n,
          lp_mem_burst_size = mb, lp_initial_addr = push_bit 2 (ucast ia), lp_latency_test_enable = bit le 0\<rparr>)\<rparr>]
    \<and> dma_control_reg t 11 = 0"
  using hbm.runHBMtest_xctl [of ch c we re le wgs n st mb ia] assms by (auto simp: run_params_hbm word_less_nat_alt)

definition idle_xctl :: "33 xctl" where
  "idle_xctl = \<lparr>dma_control_reg = (\<lambda>i. 0), lt_params = (\<lambda>i. reg_outputs hbm_design (\<lambda>i. 0)), starts = [], addrb_ori = 0,
     lat_ram = (\<lambda>a. ucast a), lat_timer_sum_wr = (\<lambda>i. 1000), lat_timer_sum_rd = (\<lambda>i. 2000 + of_nat i),
     env_end = (\<lambda>t. if t < 20 then (0, 0) else (0, 1)), now = 0\<rparr>"

definition idle_ctrl :: "33 xctl controller" where
  "idle_ctrl = \<lparr>m_base = 0x7f0000, by_base = 0, device = idle_xctl\<rparr>"

theorem runHBMtest_starts_once_witness:
  "\<exists>t. runHBMtest (hbm_bus (m_base idle_ctrl)) 0 1 1 0 0x1000 100000 64 64 0 idle_ctrl = idle_ctrl\<lparr>device := t\<rparr>
    \<and> length (starts t) = 1 \<and> lp_num_mem_ops (se_params (hd (starts t)) 0) = 100000"
  using runHBMtest_starts_once [of 0 idle_ctrl 0 1 1 "0x1000" 100000 64 64 0]
  by (auto simp: idle_ctrl_def idle_xctl_def)

text \<open>
  Reading the results. If at some point the completion flags show the enabled engines as
  done, \<open>readHBMData\<close> returns; it reports, in order, one line for every enabled direction of every
  channel, with the timer of that channel; the latencies it reads are the entries of the latency
  memory from the beginning, and that memory has 4096 entries of 8 bits: entry \<open>k\<close> of the array
  is entry \<open>k mod 4096\<close> of the memory.
\<close>

theorem readHBMData_reports:
  assumes "c = c0\<lparr>m_base := base, device := d\<rparr>" and "addrb_ori d = 0" and "\<not> bit (dma_control_reg d 0) 0"
    and "\<not> bit (dma_control_reg d 11) 0" and "length mbs = 32"
    and "\<forall>t \<ge> T. env_end d t = (we, re)"
  shows "\<exists>r. readHBMData (hbm_bus base) we re le ch n mbs c = Some (map (speed 450) (rp_lines r), r)
    \<and> rp_lines r = result_lines we re n mbs d [0 ..< 32]
    \<and> rp_latencies r = (if le = 0 then [] else
         printed_latencies (map (\<lambda>k. ucast (lat_ram d (of_nat k))) [0 ..< min (unat n) 10000]))"
  using read_data_xctl [where D = hbm_design, OF assms(1-5), of T we re le ch n] assms(6) by (auto simp: readHBMData_def HBM_MHZ_def)

theorem readHBMData_reports_witness:
  "\<exists>r. readHBMData (hbm_bus 0x7f0000) 0 1 1 0 5000 (replicate 32 64) idle_ctrl = Some (map (speed 450) (rp_lines r), r)
    \<and> rp_lines r = [\<lparr>sl_channel = 0, sl_dir = Rd, sl_bytes = 320000, sl_cycles = 2000\<rparr>]"
proof -
  have c: "idle_ctrl = idle_ctrl\<lparr>m_base := 0x7f0000, device := idle_xctl\<rparr>" by (simp add: idle_ctrl_def)
  have b: "bit (1 :: u32) i \<longleftrightarrow> i = 0" for i by (simp add: bit_1_iff)
  have "result_lines 0 1 5000 (replicate 32 64) idle_xctl [0 ..< 32] =
      [\<lparr>sl_channel = 0, sl_dir = Rd, sl_bytes = 320000, sl_cycles = 2000\<rparr>]"
    by (simp add: result_lines_def b upt_rec result_line_def idle_xctl_def)
  with readHBMData_reports [OF c, of "replicate 32 64" 20 0 1 1 0 5000] show ?thesis
    by (auto simp: idle_xctl_def)
qed

text \<open>
  C22. Waiting terminates exactly when it can: for every device, \<open>poll_end\<close> returns if and only if
  some round of the two status reads sees the completion flags equal to the enables; otherwise
  the loop runs forever.
\<close>

theorem poll_end_returns_iff:
  "(\<exists>c'. poll_end B we re c = Some c') \<longleftrightarrow> (\<exists>n. poll_done B we re ((poll_step B ^^ n) c))"
proof
  assume "\<exists>c'. poll_end B we re c = Some c'"
  then show "\<exists>n. poll_done B we re ((poll_step B ^^ n) c)" using poll_end_sound by blast
next
  assume "\<exists>n. poll_done B we re ((poll_step B ^^ n) c)"
  then show "\<exists>c'. poll_end B we re c = Some c'" using poll_end_reaches by blast
qed

text \<open>
  The reported number is a throughput in gigabytes per second: bytes over the time the
  counted cycles take at the given clock, as long as the product of burst size and operation
  count does not exceed 64 bits.
\<close>

theorem speed_is_throughput:
  assumes "unat (mbs ! i) * unat n < 2 ^ 64" and "ucast (tm i) \<noteq> (0 :: u32)" and "0 < mhz"
  shows "speed mhz (result_line dr n mbs tm i) =
    (real (unat (mbs ! i)) * real (unat n)) / (real (unat (ucast (tm i) :: u32)) / (mhz * 10 ^ 6)) / 10 ^ 9"
proof -
  have "unat (mbs ! i) < 2 ^ 32" using unsigned_less [of "mbs ! i"] by simp
  then have "unat (ucast (mbs ! i) :: u64) = unat (mbs ! i)"
    by (simp add: unsigned_ucast_eq take_bit_nat_eq_self)
  then have "unat (ucast (mbs ! i) * n) = unat (mbs ! i) * unat n"
    using assms(1) by (simp add: unat_word_ariths)
  then show ?thesis
    using assms(3) by (simp add: speed_def result_line_def ac_simps)
qed

theorem speed_is_throughput_witness:
  "speed 450 (result_line Rd 100000 (replicate 32 64) (\<lambda>i. 450000) 3) = (64 * 100000) / (450000 / (450 * 10 ^ 6)) / 10 ^ 9"
  using speed_is_throughput [of "replicate 32 64" 3 100000 "\<lambda>i. 450000" 450 Rd] by simp

text \<open>
  The latency table printed at the end always has a hundred entries, of which only as many
  were assigned as there were operations: with fewer than a hundred operations the rest is
  whatever the stack held.
\<close>

theorem printed_latencies_unassigned:
  assumes "i < 100"
  shows "printed_latencies (fst (read_lat_timers B n c)) ! i = None \<longleftrightarrow> n \<le> i"
proof -
  have "length (fst (read_lat_timers B n c)) = n"
    by (induction n arbitrary: c) (simp_all add: Let_def split_beta)
  with assms show ?thesis by (simp add: printed_latencies_def)
qed

theorem printed_latencies_unassigned_witness:
  "printed_latencies (fst (read_lat_timers (hbm_bus 0x7f0000) 50 idle_ctrl)) ! 60 = None"
  using printed_latencies_unassigned [of 60 "hbm_bus 0x7f0000" 50 idle_ctrl] by simp

end
