(* ===== verification/Config_File.thy ===== *)
theory Config_File
  imports Shuhai_Prelude
begin

text \<open>
  The configuration of a benchmark run and the configuration file, as \<open>main\<close> of
  \<open>sw/src/hbm_test.cpp\<close> and \<open>sw/src/ddr_test.cpp\<close> read it. The file is the list of its lines.
  A number that does not parse is an uncaught exception, an index outside an array or a shift by
  an amount outside the width of \<open>int\<close> is undefined: both are values of \<open>cfg_error\<close>.
\<close>

section \<open>Strings and numbers\<close>

datatype cfg_error = Invalid_argument | Out_of_range | Undefined_behaviour

text \<open>
  \<open>s.substr(0, s.find_first_of(' '))\<close> and \<open>s.substr(s.find_first_of(' ') + 1)\<close>: without a blank the
  position is \<open>npos\<close>, the largest number, and both are the whole string.
\<close>

definition before_blank :: "string \<Rightarrow> string" where
  "before_blank s = takeWhile (\<lambda>ch. ch \<noteq> CHR '' '') s"

definition after_blank :: "string \<Rightarrow> string" where
  "after_blank s = (if CHR '' '' \<in> set s then tl (dropWhile (\<lambda>ch. ch \<noteq> CHR '' '') s) else s)"

definition isspace :: "char \<Rightarrow> bool" where
  "isspace ch \<longleftrightarrow> (of_char ch :: nat) = 32 \<or> (9 \<le> (of_char ch :: nat) \<and> (of_char ch :: nat) \<le> 13)"

definition isdigit :: "char \<Rightarrow> bool" where
  "isdigit ch \<longleftrightarrow> 48 \<le> (of_char ch :: nat) \<and> (of_char ch :: nat) \<le> 57"

definition digit_val :: "char \<Rightarrow> int" where
  "digit_val ch = int (of_char ch) - 48"

definition digits_val :: "string \<Rightarrow> int" where
  "digits_val ds = foldl (\<lambda>acc ch. 10 * acc + digit_val ch) 0 ds"

text \<open>\<open>std::stoi\<close>: blanks, an optional sign, decimal digits; what follows the digits is ignored.\<close>

definition stoi :: "string \<Rightarrow> cfg_error + int" where
  "stoi s =
     (let s = dropWhile isspace s;
          neg = (s \<noteq> [] \<and> hd s = CHR ''-'');
          s = (if s \<noteq> [] \<and> (hd s = CHR ''-'' \<or> hd s = CHR ''+'') then tl s else s);
          ds = takeWhile isdigit s;
          v = (if neg then - digits_val ds else digits_val ds)
      in if ds = [] then Inl Invalid_argument
         else if v < - (2 ^ 31) \<or> 2 ^ 31 \<le> v then Inl Out_of_range
         else Inr v)"

section \<open>The configuration\<close>

record bench_cfg =
  workGroupSize :: "u32 list"
  numOps :: "u64 list"
  strideLength :: "u32 list"
  memBurstSize :: "u32 list"
  initialAddr :: "u32 list"
  write_enable :: u32
  read_enable :: u32
  latency_test_enable :: u32
  latency_channel :: u32

text \<open>An assignment to an element of an array.\<close>

definition assign :: "u32 list \<Rightarrow> int \<Rightarrow> int \<Rightarrow> cfg_error + u32 list" where
  "assign xs i v = (if 0 \<le> i \<and> nat i < length xs then Inr (xs[nat i := of_int v]) else Inl Undefined_behaviour)"

text \<open>
  \<open>mvalue << mchannel\<close> on \<open>int\<close>, converted to \<open>uint32_t\<close>: defined for a non-negative value whose
  shift fits the unsigned type.
\<close>

definition shift_left :: "int \<Rightarrow> int \<Rightarrow> cfg_error + u32" where
  "shift_left v n = (if 0 \<le> n \<and> n < 32 \<and> 0 \<le> v \<and> v * 2 ^ nat n < 2 ^ 32 then Inr (push_bit (nat n) (of_int v)) else Inl Undefined_behaviour)"

definition bind_sum :: "'e + 'a \<Rightarrow> ('a \<Rightarrow> 'e + 'b) \<Rightarrow> 'e + 'b" where
  "bind_sum m f = (case m of Inl e \<Rightarrow> Inl e | Inr x \<Rightarrow> f x)"

definition apply_setting :: "string \<Rightarrow> int \<Rightarrow> int \<Rightarrow> bench_cfg \<Rightarrow> cfg_error + bench_cfg" where
  "apply_setting s_cmd mchannel mvalue c =
     (if s_cmd = ''strideLength'' then
        bind_sum (assign (strideLength c) mchannel mvalue) (\<lambda>xs. Inr (c\<lparr>strideLength := xs\<rparr>))
      else if s_cmd = ''workGroupSize'' then
        bind_sum (assign (workGroupSize c) mchannel mvalue) (\<lambda>xs. Inr (c\<lparr>workGroupSize := xs\<rparr>))
      else if s_cmd = ''memBurstSize'' then
        bind_sum (assign (memBurstSize c) mchannel mvalue) (\<lambda>xs. Inr (c\<lparr>memBurstSize := xs\<rparr>))
      else if s_cmd = ''readEnable'' then
        bind_sum (shift_left mvalue mchannel) (\<lambda>m. Inr (c\<lparr>read_enable := read_enable c AND m\<rparr>))
      else if s_cmd = ''writeEnable'' then
        bind_sum (shift_left mvalue mchannel) (\<lambda>m. Inr (c\<lparr>write_enable := write_enable c AND m\<rparr>))
      else if s_cmd = ''latencyChannel'' then
        Inr (c\<lparr>latency_channel := of_int mchannel, latency_test_enable := of_int mvalue\<rparr>)
      else Inr c)"

definition skipped :: "string \<Rightarrow> bool" where
  "skipped s \<longleftrightarrow> s = [] \<or> (hd s = CHR ''/'' \<and> length s > 1 \<and> s ! 1 = CHR ''/'')"

definition parse_line :: "string \<Rightarrow> cfg_error + string \<times> int \<times> int" where
  "parse_line s =
     (let s_cmd = before_blank s; s_data = after_blank s in
      bind_sum (stoi (before_blank s_data)) (\<lambda>mchannel.
      bind_sum (stoi (after_blank s_data)) (\<lambda>mvalue. Inr (s_cmd, mchannel, mvalue))))"

fun read_config :: "string list \<Rightarrow> bench_cfg \<Rightarrow> cfg_error + bench_cfg" where
  "read_config [] c = Inr c"
| "read_config (s # ss) c =
     (if skipped s then read_config ss c
      else bind_sum (parse_line s) (\<lambda>(s_cmd, mchannel, mvalue).
           bind_sum (apply_setting s_cmd mchannel mvalue c) (read_config ss)))"

section \<open>Printing and reading back\<close>

definition digit :: "nat \<Rightarrow> char" where
  "digit d = char_of (48 + d)"

fun to_dec :: "nat \<Rightarrow> string" where
  "to_dec n = (if n < 10 then [digit n] else to_dec (n div 10) @ [digit (n mod 10)])"

declare to_dec.simps [simp del]

lemma digit_facts:
  "d < 10 \<Longrightarrow> isdigit (digit d)" "d < 10 \<Longrightarrow> digit_val (digit d) = int d"
  by (auto simp: isdigit_def digit_def digit_val_def)

lemma isdigit_not:
  "isdigit ch \<Longrightarrow> ch \<noteq> CHR '' ''" "isdigit ch \<Longrightarrow> \<not> isspace ch"
  "isdigit ch \<Longrightarrow> ch \<noteq> CHR ''-''" "isdigit ch \<Longrightarrow> ch \<noteq> CHR ''+''"
  by (auto simp: isdigit_def isspace_def)

lemma to_dec_digits: "list_all isdigit (to_dec n)" "to_dec n \<noteq> []"
proof (induction n rule: to_dec.induct)
  case (1 n)
  show "list_all isdigit (to_dec n)"
    using 1 digit_facts(1) by (subst to_dec.simps) auto
  show "to_dec n \<noteq> []" by (subst to_dec.simps) simp
qed

lemma digits_val_to_dec: "digits_val (to_dec n) = int n"
proof (induction n rule: to_dec.induct)
  case (1 n)
  show ?case
  proof (cases "n < 10")
    case True
    then show ?thesis by (subst to_dec.simps) (simp add: digits_val_def digit_facts)
  next
    case False
    have "digits_val (xs @ [ch]) = 10 * digits_val xs + digit_val ch" for xs ch
      by (simp add: digits_val_def)
    moreover have "10 * int (n div 10) + int (n mod 10) = int n"
      using mult_div_mod_eq [of 10 n] by (metis of_nat_add of_nat_mult of_nat_numeral)
    ultimately show ?thesis using False 1 by (subst to_dec.simps) (simp add: digit_facts)
  qed
qed

lemma stoi_to_dec: "n < 2 ^ 31 \<Longrightarrow> stoi (to_dec n) = Inr (int n)"
proof -
  assume n: "n < 2 ^ 31"
  obtain x xs where e: "to_dec n = x # xs" using to_dec_digits(2) [of n] by (cases "to_dec n") auto
  have d: "isdigit x" "list_all isdigit xs" using to_dec_digits(1) [of n] by (simp_all add: e)
  then have "dropWhile isspace (to_dec n) = to_dec n" by (simp add: e isdigit_not)
  moreover have "takeWhile isdigit (to_dec n) = to_dec n"
    using d by (simp add: e list_all_iff takeWhile_eq_all_conv)
  moreover have "x \<noteq> CHR ''-''" "x \<noteq> CHR ''+''" using d by (auto simp: isdigit_not)
  ultimately show ?thesis
    using digits_val_to_dec [of n] n by (simp add: stoi_def Let_def e)
qed

lemma blank_split:
  assumes "CHR '' '' \<notin> set w"
  shows "before_blank (w @ CHR '' '' # r) = w" "after_blank (w @ CHR '' '' # r) = r" "before_blank w = w"
    "after_blank w = w"
proof -
  have nb: "\<And>x. x \<in> set w \<Longrightarrow> x \<noteq> CHR '' ''" using assms by auto
  then show "before_blank (w @ CHR '' '' # r) = w" "after_blank (w @ CHR '' '' # r) = r" "before_blank w = w"
    by (simp_all add: before_blank_def after_blank_def)
  show "after_blank w = w" using assms by (simp add: after_blank_def)
qed

lemma to_dec_no_blank: "CHR '' '' \<notin> set (to_dec n)"
  using to_dec_digits(1) [of n] by (auto simp: list_all_iff dest: isdigit_not)

section \<open>Settings\<close>

text \<open>What an accepted setting may change.\<close>

definition well_shaped :: "bench_cfg \<Rightarrow> bool" where
  "well_shaped c \<longleftrightarrow> length (workGroupSize c) = 32 \<and> length (numOps c) = 32 \<and> length (strideLength c) = 32
     \<and> length (memBurstSize c) = 32 \<and> length (initialAddr c) = 32"

definition masked_by :: "u32 \<Rightarrow> u32 \<Rightarrow> bool" where
  "masked_by m m' \<longleftrightarrow> (\<forall>i. bit m' i \<longrightarrow> bit m i)"

lemma bind_sum_Inr: "bind_sum m f = Inr y \<longleftrightarrow> (\<exists>x. m = Inr x \<and> f x = Inr y)"
  by (cases m) (simp_all add: bind_sum_def)

lemma apply_setting_effect:
  assumes "apply_setting s_cmd i v c = Inr c'"
  shows "masked_by (read_enable c) (read_enable c') \<and> masked_by (write_enable c) (write_enable c')
    \<and> (well_shaped c \<longrightarrow> well_shaped c') \<and> numOps c' = numOps c \<and> initialAddr c' = initialAddr c"
  using assms
  by (auto simp: apply_setting_def bind_sum_Inr assign_def masked_by_def well_shaped_def bit_and_iff
      split: if_splits)

lemma read_config_effect:
  assumes "read_config ss c = Inr c'"
  shows "masked_by (read_enable c) (read_enable c') \<and> masked_by (write_enable c) (write_enable c')
    \<and> (well_shaped c \<longrightarrow> well_shaped c') \<and> numOps c' = numOps c \<and> initialAddr c' = initialAddr c"
  using assms
proof (induction ss arbitrary: c)
  case Nil
  then show ?case by (auto simp: masked_by_def)
next
  case (Cons s ss)
  show ?case
  proof (cases "skipped s")
    case True
    with Cons show ?thesis by simp
  next
    case False
    with Cons.prems obtain cmd i v d where "apply_setting cmd i v c = Inr d" "read_config ss d = Inr c'"
      by (auto simp: bind_sum_Inr)
    with Cons.IH [of d] apply_setting_effect [of cmd i v c d] show ?thesis
      by (auto simp: masked_by_def)
  qed
qed

section \<open>Properties\<close>

text \<open>
  Reading back what one writes: a line made of a command word, a channel number and a value
  in decimal, separated by single blanks, parses to exactly those three.
\<close>

theorem parse_line_roundtrip:
  assumes "CHR '' '' \<notin> set cmd" and "ch < 2 ^ 31" and "v < 2 ^ 31"
  shows "parse_line (cmd @ '' '' @ to_dec ch @ '' '' @ to_dec v) = Inr (cmd, int ch, int v)"
  using assms(2,3)
  by (simp add: parse_line_def blank_split [OF assms(1)] blank_split [OF to_dec_no_blank] stoi_to_dec
      bind_sum_def)

theorem parse_line_roundtrip_witness:
  "parse_line ''strideLength 12 268435456'' = Inr (''strideLength'', 12, 268435456)"
proof -
  have "to_dec 12 = ''12''" "to_dec 268435456 = ''268435456''"
    by (simp_all add: to_dec.simps digit_def char_of_def bit_0)
  with parse_line_roundtrip [of "''strideLength''" 12 268435456] show ?thesis by simp
qed

text \<open>
  C31. A configuration file cannot enable anything: \<open>readEnable\<close> and \<open>writeEnable\<close> lines combine the
  mask with a bitwise AND, so whatever the file says, the masks afterwards are submasks of the
  ones before; starting from the default of no enabled channel, none is enabled.
\<close>

theorem read_config_never_enables:
  assumes "read_config ss c = Inr c'"
  shows "(bit (read_enable c') i \<longrightarrow> bit (read_enable c) i) \<and> (bit (write_enable c') i \<longrightarrow> bit (write_enable c) i)
    \<and> (read_enable c = 0 \<longrightarrow> read_enable c' = 0) \<and> (write_enable c = 0 \<longrightarrow> write_enable c' = 0)"
  using read_config_effect [OF assms] by (auto simp: masked_by_def bit_eq_iff)

definition small_cfg :: bench_cfg where
  "small_cfg = \<lparr>workGroupSize = replicate 32 0x10000000, numOps = replicate 32 100000, strideLength = replicate 32 64,
     memBurstSize = replicate 32 64, initialAddr = replicate 32 0, write_enable = 0, read_enable = 0,
     latency_test_enable = 0, latency_channel = 0\<rparr>"

text \<open>The lines of \<open>config2.txt\<close>.\<close>

definition config2 :: "string list" where
  "config2 = [''//configs below is the same configuration of fig5.a in our paper(s=128)'',
     ''memBurstSize 0 32'', ''strideLength 0 128'', ''workGroupSize 0 268435456'', ''readEnable 0 1'',
     ''latencyChannel 0 1'']"

lemma config2_accepted: "\<exists>c'. read_config config2 small_cfg = Inr c' \<and> latency_test_enable c' = 1"
  by (simp add: config2_def skipped_def parse_line_def before_blank_def after_blank_def stoi_def isspace_def
      isdigit_def digits_val_def digit_val_def apply_setting_def assign_def shift_left_def bind_sum_def
      small_cfg_def Let_def)

theorem read_config_never_enables_witness:
  "\<exists>c'. read_config config2 small_cfg = Inr c' \<and> read_enable c' = 0 \<and> latency_test_enable c' = 1"
proof -
  obtain c' where c: "read_config config2 small_cfg = Inr c'" "latency_test_enable c' = 1"
    using config2_accepted by blast
  with read_config_never_enables [OF c(1)] show ?thesis by (simp add: small_cfg_def)
qed

end
