(* ===== verification/Bench_Main.thy ===== *)
theory Bench_Main
  imports Fpga_Host Xdma_Control Config_File
begin

text \<open>
  The benchmark programs: \<open>main\<close> of \<open>sw/src/hbm_test.cpp\<close> and of \<open>sw/src/ddr_test.cpp\<close>. The parsed
  command line, the file system, the operating system and the device are parameters. A program
  can exit early, stop at undefined behaviour or an exception, wait forever for the device, or
  return with what it printed.
\<close>

section \<open>Command line and defaults\<close>

record bench_args =
  arg_workGroupSize :: "u64 option"
  arg_readEnable :: "u64 option"
  arg_writeEnable :: "u64 option"
  arg_channel :: "u64 option"
  arg_strideLength :: "u32 option"
  arg_memBurstSize :: "u32 option"
  arg_configFile :: "string option"

definition hbm_defaults :: bench_cfg where
  "hbm_defaults = \<lparr>workGroupSize = replicate 32 0x10000000,
     numOps = [100000, 100000, 100000, 100000, 10000000, 10000000, 100000, 1000000,
               1000000, 1000000, 100000, 100000, 1000000, 1000000, 100000, 100000] @ replicate 16 100000,
     strideLength = replicate 32 64, memBurstSize = replicate 32 64,
     initialAddr = replicate 32 0,
     write_enable = 0, read_enable = 0, latency_test_enable = 0, latency_channel = 0\<rparr>"

definition ddr_defaults :: bench_cfg where
  "ddr_defaults = \<lparr>workGroupSize = replicate 32 0x10000000, numOps = replicate 32 100000,
     strideLength = map (\<lambda>k. 64 * 2 ^ k) [0 ..< 13] @ replicate 19 64, memBurstSize = replicate 32 64,
     initialAddr = map (\<lambda>k. 0x04000000 * of_nat k) [0 ..< 32],
     write_enable = 0, read_enable = 1, latency_test_enable = 0, latency_channel = 0\<rparr>"

text \<open>A loop that assigns \<open>v\<close> to the elements from index \<open>i\<close> on, \<open>n\<close> of them.\<close>

fun fill_loop :: "nat \<Rightarrow> nat \<Rightarrow> u32 \<Rightarrow> u32 list \<Rightarrow> cfg_error + u32 list" where
  "fill_loop 0 i v xs = Inr xs"
| "fill_loop (Suc n) i v xs = bind_sum (assign xs (int i) (uint v)) (fill_loop n (i + 1) v)"

definition opt_set :: "'a option \<Rightarrow> ('a \<Rightarrow> 'c \<Rightarrow> cfg_error + 'c) \<Rightarrow> 'c \<Rightarrow> cfg_error + 'c" where
  "opt_set oa f c = (case oa of None \<Rightarrow> Inr c | Some v \<Rightarrow> f v c)"

text \<open>
  The options, in the order the program looks at them. \<open>nw\<close>, \<open>ns\<close> and \<open>nb\<close> are the numbers of
  iterations of the three loops over the arrays.
\<close>

definition apply_args ::
  "nat \<Rightarrow> nat \<Rightarrow> nat \<Rightarrow> (string \<Rightarrow> string list option) \<Rightarrow> bench_args \<Rightarrow> bench_cfg \<Rightarrow> cfg_error + bench_cfg" where
  "apply_args nw ns nb files a c =
     bind_sum (opt_set (arg_readEnable a) (\<lambda>v c. Inr (c\<lparr>read_enable := ucast v\<rparr>)) c) (\<lambda>c.
     bind_sum (opt_set (arg_writeEnable a) (\<lambda>v c. Inr (c\<lparr>write_enable := ucast v\<rparr>)) c) (\<lambda>c.
     bind_sum (opt_set (arg_channel a) (\<lambda>v c. Inr (c\<lparr>latency_channel := ucast v\<rparr>)) c) (\<lambda>c.
     bind_sum (opt_set (arg_workGroupSize a) (\<lambda>v c.
        bind_sum (fill_loop nw 0 (ucast v) (workGroupSize c)) (\<lambda>xs. Inr (c\<lparr>workGroupSize := xs\<rparr>))) c) (\<lambda>c.
     bind_sum (opt_set (arg_strideLength a) (\<lambda>v c.
        bind_sum (fill_loop ns 0 v (strideLength c)) (\<lambda>xs. Inr (c\<lparr>strideLength := xs\<rparr>))) c) (\<lambda>c.
     bind_sum (opt_set (arg_memBurstSize a) (\<lambda>v c.
        bind_sum (fill_loop nb 0 v (memBurstSize c)) (\<lambda>xs. Inr (c\<lparr>memBurstSize := xs\<rparr>))) c) (\<lambda>c.
     opt_set (arg_configFile a) (\<lambda>file c. case files (''../src/'' @ file) of
        None \<Rightarrow> Inr c | Some ls \<Rightarrow> read_config ls c) c))))))"

definition hbm_args :: "(string \<Rightarrow> string list option) \<Rightarrow> bench_args \<Rightarrow> bench_cfg \<Rightarrow> cfg_error + bench_cfg" where
  "hbm_args files a c = apply_args 32 32 33 files a c"

text \<open>\<open>ddr_test\<close> asks for an option \<open>channel\<close> it never registers, so its value is always absent.\<close>

definition ddr_args :: "(string \<Rightarrow> string list option) \<Rightarrow> bench_args \<Rightarrow> bench_cfg \<Rightarrow> cfg_error + bench_cfg" where
  "ddr_args files a c = apply_args 2 2 3 files (a\<lparr>arg_channel := None\<rparr>) c"

section \<open>The run\<close>

definition CHANNAL_NUM :: nat where "CHANNAL_NUM = 2"

definition config_hbm_channels :: "'d bus \<Rightarrow> bench_cfg \<Rightarrow> 'd controller \<Rightarrow> 'd controller" where
  "config_hbm_channels B cf c = fold (\<lambda>i. configHBM B (workGroupSize cf ! i) (numOps cf ! i) (strideLength cf ! i)
     (memBurstSize cf ! i) (initialAddr cf ! i) (of_nat i)) [0 ..< 32] c"

definition config_ddr_channels :: "'d bus \<Rightarrow> bench_cfg \<Rightarrow> 'd controller \<Rightarrow> 'd controller" where
  "config_ddr_channels B cf c = fold (\<lambda>i. configDDR B (workGroupSize cf ! i) (numOps cf ! i) (strideLength cf ! i)
     (memBurstSize cf ! i) (initialAddr cf ! i) (of_nat i)) [0 ..< CHANNAL_NUM] c"

definition hbm_run :: "'d bus \<Rightarrow> bench_cfg \<Rightarrow> 'd controller \<Rightarrow> 'd controller" where
  "hbm_run B cf c =
     (let l = unat (latency_channel cf) in
      runHBMtest B (write_enable cf) (read_enable cf) (latency_test_enable cf) (latency_channel cf)
        (workGroupSize cf ! l) (numOps cf ! l) (strideLength cf ! l) (memBurstSize cf ! l) (initialAddr cf ! l)
        (config_hbm_channels B cf c))"

definition ddr_run :: "'d bus \<Rightarrow> bench_cfg \<Rightarrow> 'd controller \<Rightarrow> 'd controller" where
  "ddr_run B cf c =
     (let l = unat (latency_channel cf) in
      runDDRtest B (write_enable cf) (read_enable cf) (latency_test_enable cf) (latency_channel cf)
        (workGroupSize cf ! l) (numOps cf ! l) (strideLength cf ! l) (memBurstSize cf ! l) (initialAddr cf ! l)
        (config_ddr_channels B cf c))"

datatype 'd outcome =
    Exited int
  | Crashed cfg_error
  | Waiting
  | Returned int "real list" "'d report" "'d fpga"

text \<open>
  The programs. \<open>Bus\<close> gives the device behind the mapping of the user BAR at a base address. The
  arrays have 32 elements, so a latency channel beyond that reads outside them.
\<close>

definition hbm_main ::
  "host_os \<Rightarrow> (u64 \<Rightarrow> u8) \<Rightarrow> 'd \<Rightarrow> (u64 \<Rightarrow> 'd bus) \<Rightarrow> (string \<Rightarrow> string list option) \<Rightarrow> bench_args \<Rightarrow> 'd fpga
    \<Rightarrow> 'd outcome" where
  "hbm_main K ram dev Bus files a s =
     (case initializeMemory K ram dev (setNodeId 0 s) of
        Inl e \<Rightarrow> Exited e
      | Inr s \<Rightarrow>
        (case getController s of
           Live c \<Rightarrow>
             (case hbm_args files a hbm_defaults of
                Inl e \<Rightarrow> Crashed e
              | Inr cf \<Rightarrow>
                if unat (latency_channel cf) < 32 then
                  (case readHBMData (Bus (m_base c)) (write_enable cf) (read_enable cf) (latency_test_enable cf)
                          (latency_channel cf) (numOps cf ! unat (latency_channel cf)) (memBurstSize cf)
                          (hbm_run (Bus (m_base c)) cf c) of
                     None \<Rightarrow> Waiting
                   | Some (sp, r) \<Rightarrow>
                     (case fpga_clear (s\<lparr>controller := Live (rp_ctrl r)\<rparr>) of
                        None \<Rightarrow> Crashed Undefined_behaviour
                      | Some s \<Rightarrow> Returned 0 sp r s))
                else Crashed Undefined_behaviour)
         | _ \<Rightarrow> Crashed Undefined_behaviour))"

definition ddr_main ::
  "host_os \<Rightarrow> (u64 \<Rightarrow> u8) \<Rightarrow> 'd \<Rightarrow> (u64 \<Rightarrow> 'd bus) \<Rightarrow> (string \<Rightarrow> string list option) \<Rightarrow> bench_args \<Rightarrow> 'd fpga
    \<Rightarrow> 'd outcome" where
  "ddr_main K ram dev Bus files a s =
     (case initializeMemory K ram dev (setNodeId 0 s) of
        Inl e \<Rightarrow> Exited e
      | Inr s \<Rightarrow>
        (case getController s of
           Live c \<Rightarrow>
             (case ddr_args files a ddr_defaults of
                Inl e \<Rightarrow> Crashed e
              | Inr cf \<Rightarrow>
                if unat (latency_channel cf) < 32 then
                  (case readDDRData (Bus (m_base c)) (write_enable cf) (read_enable cf) (latency_test_enable cf)
                          (latency_channel cf) (numOps cf ! unat (latency_channel cf)) (memBurstSize cf)
                          (ddr_run (Bus (m_base c)) cf c) of
                     None \<Rightarrow> Waiting
                   | Some (sp, r) \<Rightarrow>
                     (case fpga_clear (s\<lparr>controller := Live (rp_ctrl r)\<rparr>) of
                        None \<Rightarrow> Crashed Undefined_behaviour
                      | Some s \<Rightarrow> Returned 0 sp r s))
                else Crashed Undefined_behaviour)
         | _ \<Rightarrow> Crashed Undefined_behaviour))"

section \<open>Options\<close>

lemma bind_sum_simps [simp]: "bind_sum (Inr x) f = f x" "bind_sum (Inl e) f = Inl e"
  by (simp_all add: bind_sum_def)

lemma fill_loop_ok:
  "i + n \<le> length xs \<Longrightarrow> fill_loop n i v xs = Inr (take i xs @ replicate n v @ drop (i + n) xs)"
proof (induction n arbitrary: i xs)
  case (Suc n)
  then have "xs[i := v] = take i xs @ v # drop (Suc i) xs" by (simp add: upd_conv_take_nth_drop)
  with Suc show ?case by (simp add: assign_def add.commute)
qed simp

lemma fill_loop_all: "fill_loop (length xs) 0 v xs = Inr (replicate (length xs) v)"
  by (simp add: fill_loop_ok)

lemma fill_loop_overrun:
  "i \<le> length xs \<Longrightarrow> length xs < i + n \<Longrightarrow> fill_loop n i v xs = Inl Undefined_behaviour"
proof (induction n arbitrary: i xs)
  case (Suc n)
  then show ?case by (cases "i < length xs") (simp_all add: assign_def)
qed simp

lemma hbm_defaults_shape: "well_shaped hbm_defaults"
  by (simp add: well_shaped_def hbm_defaults_def)

lemma ddr_defaults_shape: "well_shaped ddr_defaults"
  by (simp add: well_shaped_def ddr_defaults_def)

lemma fill_loop_length: "fill_loop n i v xs = Inr ys \<Longrightarrow> length ys = length xs"
  by (induction n arbitrary: i xs) (auto simp: bind_sum_Inr assign_def split: if_splits)

text \<open>What no option and no line of the file changes.\<close>

definition shape_kept :: "bench_cfg \<Rightarrow> bench_cfg \<Rightarrow> bool" where
  "shape_kept c c' \<longleftrightarrow> (well_shaped c \<longrightarrow> well_shaped c') \<and> numOps c' = numOps c \<and> initialAddr c' = initialAddr c"

lemma shape_kept_trans: "shape_kept c d \<Longrightarrow> shape_kept d e \<Longrightarrow> shape_kept c e"
  by (simp add: shape_kept_def)

lemma opt_set_kept:
  assumes "opt_set oa f c = Inr c'" and "\<And>v. f v c = Inr c' \<Longrightarrow> shape_kept c c'"
  shows "shape_kept c c'"
  using assms by (cases oa) (auto simp: opt_set_def shape_kept_def)

lemma fill_kept:
  "bind_sum (fill_loop n i v (workGroupSize c)) (\<lambda>xs. Inr (c\<lparr>workGroupSize := xs\<rparr>)) = Inr c' \<Longrightarrow> shape_kept c c'"
  "bind_sum (fill_loop n i v (strideLength c)) (\<lambda>xs. Inr (c\<lparr>strideLength := xs\<rparr>)) = Inr c' \<Longrightarrow> shape_kept c c'"
  "bind_sum (fill_loop n i v (memBurstSize c)) (\<lambda>xs. Inr (c\<lparr>memBurstSize := xs\<rparr>)) = Inr c' \<Longrightarrow> shape_kept c c'"
  by (auto simp: bind_sum_Inr shape_kept_def well_shaped_def dest: fill_loop_length)

lemma config_kept:
  "(case files p of None \<Rightarrow> Inr c | Some ls \<Rightarrow> read_config ls c) = Inr c' \<Longrightarrow> shape_kept c c'"
  using read_config_effect by (auto simp: shape_kept_def split: option.splits)

lemma apply_args_shape:
  assumes "apply_args nw ns nb files a c = Inr c'"
  shows "shape_kept c c'"
proof -
  have m: "shape_kept d (d\<lparr>read_enable := m\<rparr>)" "shape_kept d (d\<lparr>write_enable := m\<rparr>)"
    "shape_kept d (d\<lparr>latency_channel := m\<rparr>)" for d m
    by (simp_all add: shape_kept_def well_shaped_def)
  obtain c1 c2 c3 c4 c5 c6 where st:
    "opt_set (arg_readEnable a) (\<lambda>v c. Inr (c\<lparr>read_enable := ucast v\<rparr>)) c = Inr c1"
    "opt_set (arg_writeEnable a) (\<lambda>v c. Inr (c\<lparr>write_enable := ucast v\<rparr>)) c1 = Inr c2"
    "opt_set (arg_channel a) (\<lambda>v c. Inr (c\<lparr>latency_channel := ucast v\<rparr>)) c2 = Inr c3"
    "opt_set (arg_workGroupSize a) (\<lambda>v c. bind_sum (fill_loop nw 0 (ucast v) (workGroupSize c))
       (\<lambda>xs. Inr (c\<lparr>workGroupSize := xs\<rparr>))) c3 = Inr c4"
    "opt_set (arg_strideLength a) (\<lambda>v c. bind_sum (fill_loop ns 0 v (strideLength c))
       (\<lambda>xs. Inr (c\<lparr>strideLength := xs\<rparr>))) c4 = Inr c5"
    "opt_set (arg_memBurstSize a) (\<lambda>v c. bind_sum (fill_loop nb 0 v (memBurstSize c))
       (\<lambda>xs. Inr (c\<lparr>memBurstSize := xs\<rparr>))) c5 = Inr c6"
    "opt_set (arg_configFile a) (\<lambda>file c. case files (''../src/'' @ file) of
        None \<Rightarrow> Inr c | Some ls \<Rightarrow> read_config ls c) c6 = Inr c'"
    using assms unfolding apply_args_def bind_sum_Inr by blast
  have "shape_kept c c1" by (rule opt_set_kept [OF st(1)]) (auto simp: m)
  moreover have "shape_kept c1 c2" by (rule opt_set_kept [OF st(2)]) (auto simp: m)
  moreover have "shape_kept c2 c3" by (rule opt_set_kept [OF st(3)]) (auto simp: m)
  moreover have "shape_kept c3 c4" by (rule opt_set_kept [OF st(4)]) (rule fill_kept)
  moreover have "shape_kept c4 c5" by (rule opt_set_kept [OF st(5)]) (rule fill_kept)
  moreover have "shape_kept c5 c6" by (rule opt_set_kept [OF st(6)]) (rule fill_kept)
  moreover have "shape_kept c6 c'" by (rule opt_set_kept [OF st(7)]) (rule config_kept)
  ultimately show ?thesis by (simp add: shape_kept_def)
qed

section \<open>The run on the device\<close>

definition channel_params :: "'a design \<Rightarrow> (nat \<Rightarrow> u32) \<Rightarrow> bench_cfg \<Rightarrow> nat \<Rightarrow> bool \<Rightarrow> 'a lt_param" where
  "channel_params D r cf k le = run_params D r (workGroupSize cf ! k) (numOps cf ! k) (strideLength cf ! k)
     (memBurstSize cf ! k) (initialAddr cf ! k) le"

text \<open>What the two programs do with a configuration, the number of channels being that of the design.\<close>

abbreviation config_upto :: "'d bus \<Rightarrow> bench_cfg \<Rightarrow> nat \<Rightarrow> 'd controller \<Rightarrow> 'd controller" where
  "config_upto B cf n \<equiv> fold (\<lambda>i. configHBM B (workGroupSize cf ! i) (numOps cf ! i) (strideLength cf ! i)
     (memBurstSize cf ! i) (initialAddr cf ! i) (of_nat i)) [0 ..< n]"

definition design_run :: "'a::len design \<Rightarrow> bench_cfg \<Rightarrow> 'a xctl controller \<Rightarrow> 'a xctl controller" where
  "design_run D cf c =
     (let B = xctl_bus D (m_base c); l = unat (latency_channel cf) in
      runHBMtest B (write_enable cf) (read_enable cf) (latency_test_enable cf) (latency_channel cf)
        (workGroupSize cf ! l) (numOps cf ! l) (strideLength cf ! l) (memBurstSize cf ! l) (initialAddr cf ! l)
        (config_upto B cf (N_MEM_INTF D) c))"

lemma hbm_run_design: "hbm_run (hbm_bus (m_base c)) cf c = design_run hbm_design cf c"
  by (simp add: hbm_run_def config_hbm_channels_def design_run_def Let_def)

lemma ddr_run_design: "ddr_run (ddr_bus (m_base c)) cf c = design_run ddr_design cf c"
  by (simp add: ddr_run_def config_ddr_channels_def design_run_def Let_def ddr_calls [abs_def] CHANNAL_NUM_def)

context register_design
begin

lemma config_prefix:
  assumes "n \<le> N_MEM_INTF D"
  shows "\<exists>t. config_upto (xctl_bus D (m_base c)) cf n c = c\<lparr>device := t\<rparr>
    \<and> (\<forall>k < n. lt_params t k = channel_params D (dma_control_reg (device c)) cf k False)
    \<and> starts t = starts (device c) \<and> (\<forall>j \<in> {0, 11, 17}. dma_control_reg t j = dma_control_reg (device c) j)
    \<and> env_kept (device c) t"
  using assms
proof (induction n)
  case 0
  have "c = c\<lparr>device := device c\<rparr>" by simp
  then show ?case by (auto intro!: exI [of _ "device c"])
next
  case (Suc n)
  let ?r = "dma_control_reg (device c)"
  obtain t where t: "config_upto (xctl_bus D (m_base c)) cf n c = c\<lparr>device := t\<rparr>"
    "\<forall>k < n. lt_params t k = channel_params D ?r cf k False"
    "starts t = starts (device c)" "\<forall>j \<in> {0, 11, 17}. dma_control_reg t j = ?r j" "env_kept (device c) t"
    using Suc by auto
  have "n < 32" using Suc.prems channels_le by simp
  then have n: "unat (of_nat n :: u32) = n" by (simp add: unat_of_nat take_bit_nat_eq_self)
  have pc: "run_params D (dma_control_reg t) wgs m st mb ia le = run_params D ?r wgs m st mb ia le" for wgs m st mb ia le
    using t(4) by (intro run_params_cong) simp
  have "unat (of_nat n :: u32) < N_MEM_INTF D" using n Suc.prems by simp
  from configHBM_xctl [OF this, of "c\<lparr>device := t\<rparr>" "workGroupSize cf ! n" "numOps cf ! n" "strideLength cf ! n"
      "memBurstSize cf ! n" "initialAddr cf ! n"]
  obtain u where u: "configHBM (xctl_bus D (m_base c)) (workGroupSize cf ! n) (numOps cf ! n)
      (strideLength cf ! n) (memBurstSize cf ! n) (initialAddr cf ! n) (of_nat n) (c\<lparr>device := t\<rparr>) = c\<lparr>device := u\<rparr>"
    "lt_params u = (lt_params t)(n := channel_params D ?r cf n False)"
    "starts u = starts t" "\<forall>j \<in> {0, 11, 17}. dma_control_reg u j = dma_control_reg t j" "env_kept t u"
    by (auto simp: n pc channel_params_def)
  show ?case
    using t u env_kept_trans [OF t(5) u(5)] by (intro exI [of _ u]) (auto simp: less_Suc_eq)
qed

lemma design_run_xctl:
  assumes "unat (latency_channel cf) < N_MEM_INTF D" and "\<not> bit (dma_control_reg (device c) 11) 0"
  shows "\<exists>t e. design_run D cf c = c\<lparr>device := t\<rparr> \<and> starts t = starts (device c) @ [e]
    \<and> se_write_enable e = take_bit (N_MEM_INTF D) (write_enable cf) \<and> se_read_enable e = take_bit (N_MEM_INTF D) (read_enable cf)
    \<and> (\<forall>k < N_MEM_INTF D. se_params e k = channel_params D (dma_control_reg (device c)) cf k
         (k = unat (latency_channel cf) \<and> bit (latency_test_enable cf) 0))
    \<and> addrb_ori t = 0 \<and> dma_control_reg t 11 = 0 \<and> dma_control_reg t 0 = dma_control_reg (device c) 0
    \<and> env_kept (device c) t"
proof -
  let ?l = "unat (latency_channel cf)" and ?r = "dma_control_reg (device c)"
  obtain t where t: "config_upto (xctl_bus D (m_base c)) cf (N_MEM_INTF D) c = c\<lparr>device := t\<rparr>"
    "\<forall>k < N_MEM_INTF D. lt_params t k = channel_params D ?r cf k False"
    "starts t = starts (device c)" "\<forall>j \<in> {0, 11, 17}. dma_control_reg t j = ?r j" "env_kept (device c) t"
    using config_prefix [of "N_MEM_INTF D" c cf] by auto
  have pc: "run_params D (dma_control_reg t) wgs m st mb ia le = run_params D ?r wgs m st mb ia le" for wgs m st mb ia le
    using t(4) by (intro run_params_cong) simp
  have "\<not> bit (dma_control_reg (device (c\<lparr>device := t\<rparr>)) 11) 0" using assms(2) t(4) by simp
  from runHBMtest_xctl [OF assms(1) this, of "write_enable cf" "read_enable cf" "latency_test_enable cf"
      "workGroupSize cf ! ?l" "numOps cf ! ?l" "strideLength cf ! ?l" "memBurstSize cf ! ?l" "initialAddr cf ! ?l"]
  obtain u where u: "design_run D cf c = c\<lparr>device := u\<rparr>"
    "lt_params u = (lt_params t)(?l := channel_params D ?r cf ?l (bit (latency_test_enable cf) 0))"
    "starts u = starts t @ [\<lparr>se_write_enable = take_bit (N_MEM_INTF D) (write_enable cf),
       se_read_enable = take_bit (N_MEM_INTF D) (read_enable cf), se_params = lt_params u\<rparr>]"
    "addrb_ori u = 0" "dma_control_reg u 11 = 0" "dma_control_reg u 0 = dma_control_reg t 0" "env_kept t u"
    by (auto simp: design_run_def Let_def t(1) channel_params_def pc)
  have "\<forall>k < N_MEM_INTF D. lt_params u k = channel_params D ?r cf k (k = ?l \<and> bit (latency_test_enable cf) 0)"
    using t(2) by (auto simp: u(2))
  then show ?thesis using t u env_kept_trans [OF t(5) u(7)] by (intro exI [of _ u]) auto
qed

text \<open>From a controller that is set up to the report and the end of the program.\<close>

lemma run_reports:
  assumes "controller s = Live c" and "mm_ptr s = Live m" and "length (memBurstSize cf) = 32"
    and "unat (latency_channel cf) < N_MEM_INTF D"
    and "\<not> bit (dma_control_reg (device c) 0) 0" and "\<not> bit (dma_control_reg (device c) 11) 0"
    and "\<forall>t \<ge> T. end_flags D (device c) t = (write_enable cf, read_enable cf)"
  shows "\<exists>r e u. read_data (xctl_bus D (m_base c)) (write_enable cf) (read_enable cf) (latency_test_enable cf)
      (latency_channel cf) n (memBurstSize cf) (design_run D cf c) = Some r
    \<and> rp_lines r = result_lines (write_enable cf) (read_enable cf) n (memBurstSize cf) (device c) [0 ..< 32]
    \<and> starts (device (rp_ctrl r)) = starts (device c) @ [e]
    \<and> se_write_enable e = take_bit (N_MEM_INTF D) (write_enable cf) \<and> se_read_enable e = take_bit (N_MEM_INTF D) (read_enable cf)
    \<and> (\<forall>k < N_MEM_INTF D. se_params e k = channel_params D (dma_control_reg (device c)) cf k
         (k = unat (latency_channel cf) \<and> bit (latency_test_enable cf) 0))
    \<and> fpga_clear (s\<lparr>controller := Live (rp_ctrl r)\<rparr>) = Some u \<and> controller u = Dangling \<and> mm_ptr u = Dangling
    \<and> (\<exists>l. sysl u = l @ [Munmap (huge_base s) DMA_SIZE, Close (fd s), Close (byfd s), Close (hfd s)])"
proof -
  obtain t e where t: "design_run D cf c = c\<lparr>device := t\<rparr>" "starts t = starts (device c) @ [e]"
    "addrb_ori t = 0" "dma_control_reg t 11 = 0" "dma_control_reg t 0 = dma_control_reg (device c) 0" "env_kept (device c) t"
    "se_write_enable e = take_bit (N_MEM_INTF D) (write_enable cf)" "se_read_enable e = take_bit (N_MEM_INTF D) (read_enable cf)"
    "\<forall>k < N_MEM_INTF D. se_params e k = channel_params D (dma_control_reg (device c)) cf k
      (k = unat (latency_channel cf) \<and> bit (latency_test_enable cf) 0)"
    using design_run_xctl [OF assms(4,6)] by blast
  have b: "c\<lparr>device := t\<rparr> = c\<lparr>m_base := m_base c, device := t\<rparr>" by simp
  have "\<forall>a \<ge> T. end_flags D t a = (write_enable cf, read_enable cf)"
    using assms(7) t(6) by (simp add: end_flags_def env_kept_def)
  from read_data_xctl [OF b t(3) _ _ assms(3) this, of "latency_test_enable cf" "latency_channel cf" n] assms(5) t(4,5)
  obtain r where r: "read_data (xctl_bus D (m_base c)) (write_enable cf) (read_enable cf) (latency_test_enable cf)
      (latency_channel cf) n (memBurstSize cf) (c\<lparr>device := t\<rparr>) = Some r"
    "rp_lines r = result_lines (write_enable cf) (read_enable cf) n (memBurstSize cf) t [0 ..< 32]"
    "starts (device (rp_ctrl r)) = starts t" by auto
  have lines: "rp_lines r = result_lines (write_enable cf) (read_enable cf) n (memBurstSize cf) (device c) [0 ..< 32]"
    using r(2) t(6) by (auto simp: env_kept_def intro: result_lines_cong)
  obtain u where "fpga_clear (s\<lparr>controller := Live (rp_ctrl r)\<rparr>) = Some u" "controller u = Dangling" "mm_ptr u = Dangling"
    "\<exists>l. sysl u = l @ [Munmap (huge_base s) DMA_SIZE, Close (fd s), Close (byfd s), Close (hfd s)]"
    using assms(2) by (simp add: fpga_clear_def FpgaController_delete_def sys_def Let_def)
  with t(1,2,7-9) r(1,3) lines show ?thesis by metis
qed

end

lemma initialized:
  assumes "initializeMemory K ram dev (setNodeId 0 h) = Inr s" and "controller h = Null"
  obtains c m where "controller s = Live c" "mm_ptr s = Live m" "device c = dev"
proof -
  have "controller (setNodeId 0 h) = Null" using assms(2) by (simp add: setNodeId_def)
  with initializeMemory_ok [OF assms(1)] that show thesis by (auto simp: FpgaController_new_def)
qed

lemma hbm_main_xctl:
  assumes "initializeMemory K ram dev (setNodeId 0 h) = Inr s" and "controller h = Null"
    and "hbm_args files a hbm_defaults = Inr cf" and "latency_channel cf < 32"
    and "\<not> bit (dma_control_reg dev 0) 0" and "\<not> bit (dma_control_reg dev 11) 0"
    and "\<forall>t \<ge> T. env_end dev t = (write_enable cf, read_enable cf)"
  shows "\<exists>r e u. hbm_main K ram dev hbm_bus files a h = Returned 0 (map (speed 450) (rp_lines r)) r u
    \<and> rp_lines r = result_lines (write_enable cf) (read_enable cf) (numOps cf ! unat (latency_channel cf))
        (memBurstSize cf) dev [0 ..< 32]
    \<and> starts (device (rp_ctrl r)) = starts dev @ [e] \<and> controller u = Dangling \<and> mm_ptr u = Dangling
    \<and> (\<exists>l. sysl u = l @ [Munmap (huge_base s) DMA_SIZE, Close (fd s), Close (byfd s), Close (hfd s)])
    \<and> se_write_enable e = write_enable cf \<and> se_read_enable e = read_enable cf
    \<and> (\<forall>k < 32. se_params e k = channel_params hbm_design (dma_control_reg dev) cf k
         (k = unat (latency_channel cf) \<and> bit (latency_test_enable cf) 0))"
proof -
  obtain c m where s: "controller s = Live c" "mm_ptr s = Live m" "device c = dev" by (rule initialized [OF assms(1,2)])
  have mb: "length (memBurstSize cf) = 32"
    using apply_args_shape [OF assms(3) [unfolded hbm_args_def]] hbm_defaults_shape
    by (simp add: shape_kept_def well_shaped_def)
  have l: "unat (latency_channel cf) < N_MEM_INTF hbm_design" using assms(4) by (simp add: word_less_nat_alt)
  have d: "\<not> bit (dma_control_reg (device c) 0) 0" "\<not> bit (dma_control_reg (device c) 11) 0"
    "\<forall>t \<ge> T. end_flags hbm_design (device c) t = (write_enable cf, read_enable cf)" using assms(5-7) s(3) by simp_all
  from hbm.run_reports [OF s(1,2) mb l d, of "numOps cf ! unat (latency_channel cf)"] s assms(1,3) l
  show ?thesis
    by (auto simp: hbm_main_def getController_def readHBMData_def HBM_MHZ_def hbm_run_design)
qed

text \<open>The same for \<open>ddr_test\<close> on the DDR design, which has two channels.\<close>

lemma ddr_main_xctl:
  assumes "initializeMemory K ram dev (setNodeId 0 h) = Inr s" and "controller h = Null"
    and "ddr_args files a ddr_defaults = Inr cf" and "latency_channel cf < 2"
    and "\<not> bit (dma_control_reg dev 0) 0" and "\<not> bit (dma_control_reg dev 11) 0"
    and "\<forall>t \<ge> T. end_flags ddr_design dev t = (write_enable cf, read_enable cf)"
  shows "\<exists>r e u. ddr_main K ram dev ddr_bus files a h = Returned 0 (map (speed 300) (rp_lines r)) r u
    \<and> rp_lines r = result_lines (write_enable cf) (read_enable cf) (numOps cf ! unat (latency_channel cf))
        (memBurstSize cf) dev [0 ..< 32]
    \<and> starts (device (rp_ctrl r)) = starts dev @ [e] \<and> controller u = Dangling \<and> mm_ptr u = Dangling
    \<and> (\<exists>l. sysl u = l @ [Munmap (huge_base s) DMA_SIZE, Close (fd s), Close (byfd s), Close (hfd s)])
    \<and> se_write_enable e = write_enable cf \<and> se_read_enable e = read_enable cf
    \<and> (\<forall>k < 2. se_params e k = channel_params ddr_design (dma_control_reg dev) cf k
         (k = unat (latency_channel cf) \<and> bit (latency_test_enable cf) 0))"
proof -
  obtain c m where s: "controller s = Live c" "mm_ptr s = Live m" "device c = dev" by (rule initialized [OF assms(1,2)])
  have mb: "length (memBurstSize cf) = 32"
    using apply_args_shape [OF assms(3) [unfolded ddr_args_def]] ddr_defaults_shape
    by (simp add: shape_kept_def well_shaped_def)
  have l: "unat (latency_channel cf) < N_MEM_INTF ddr_design" "unat (latency_channel cf) < 32"
    using assms(4) by (simp_all add: word_less_nat_alt)
  have d: "\<not> bit (dma_control_reg (device c) 0) 0" "\<not> bit (dma_control_reg (device c) 11) 0"
    "\<forall>t \<ge> T. end_flags ddr_design (device c) t = (write_enable cf, read_enable cf)" using assms(5-7) s(3) by simp_all
  have "take_bit 2 (write_enable cf) = write_enable cf" "take_bit 2 (read_enable cf) = read_enable cf"
    using end_flags_masked [OF assms(7) [rule_format, of T]] by simp_all
  with ddr.run_reports [OF s(1,2) mb l(1) d, of "numOps cf ! unat (latency_channel cf)"] s assms(1,3) l(2)
  show ?thesis
    by (auto simp: ddr_main_def getController_def readDDRData_def DDR_MHZ_def ddr_run_design)
qed

text \<open>No call of a run moves the mapping of the user BAR.\<close>

lemma design_run_base: "m_base (design_run D cf c) = m_base c"
proof -
  have "m_base (config_upto B cf n c) = m_base c" for B n
    by (induction n) (simp_all add: configHBM_def Let_def)
  then show ?thesis by (simp add: design_run_def runHBMtest_def Let_def)
qed

section \<open>Examples\<close>

definition no_args :: bench_args where
  "no_args = \<lparr>arg_workGroupSize = None, arg_readEnable = None, arg_writeEnable = None, arg_channel = None,
     arg_strideLength = None, arg_memBurstSize = None, arg_configFile = None\<rparr>"

definition xhost0 :: "33 xctl fpga" where
  "xhost0 = \<lparr>controller = Null, mm_ptr = Null, nodeId = 0, fd = 0, byfd = 0, hfd = 0, huge_base = 0, sysl = []\<rparr>"

definition dhost0 :: "34 xctl fpga" where
  "dhost0 = \<lparr>controller = Null, mm_ptr = Null, nodeId = 0, fd = 0, byfd = 0, hfd = 0, huge_base = 0, sysl = []\<rparr>"

definition ddr_xctl :: "34 xctl" where
  "ddr_xctl = \<lparr>dma_control_reg = (\<lambda>i. 0), lt_params = (\<lambda>i. reg_outputs ddr_design (\<lambda>i. 0)), starts = [], addrb_ori = 0,
     lat_ram = (\<lambda>a. ucast a), lat_timer_sum_wr = (\<lambda>i. 1000), lat_timer_sum_rd = (\<lambda>i. 2000 + of_nat i),
     env_end = (\<lambda>t. if t < 100 then (0, 0) else (0, 1)), now = 0\<rparr>"

definition busy_xctl :: "33 xctl" where
  "busy_xctl = idle_xctl\<lparr>env_end := (\<lambda>t. if t < 500 then (0, 0) else (0, 0x10))\<rparr>"

lemma busy_xctl_sel:
  "\<not> bit (dma_control_reg busy_xctl 0) 0" "\<not> bit (dma_control_reg busy_xctl 11) 0" "starts busy_xctl = []"
  "\<forall>t \<ge> 500. env_end busy_xctl t = (0, 0x10)" "controller xhost0 = Null"
  by (simp_all add: busy_xctl_def idle_xctl_def xhost0_def)

lemma read4_cfg:
  "latency_channel (hbm_defaults\<lparr>read_enable := 0x10\<rparr>) < 32"
  "\<forall>t \<ge> 500. env_end busy_xctl t = (write_enable (hbm_defaults\<lparr>read_enable := 0x10\<rparr>),
     read_enable (hbm_defaults\<lparr>read_enable := 0x10\<rparr>))"
  using busy_xctl_sel(4) by (simp_all add: hbm_defaults_def)

lemma xhost_initialize:
  "\<exists>s. initializeMemory demo_os (\<lambda>_. 0) dev (setNodeId 0 xhost0) = Inr s"
  by (simp add: initializeMemory_def demo_os_def xhost0_def setNodeId_def sys_def Let_def MAP_FAILED_def)

lemma read4_args:
  "hbm_args files (no_args\<lparr>arg_readEnable := Some 0x10\<rparr>) hbm_defaults = Inr (hbm_defaults\<lparr>read_enable := 0x10\<rparr>)"
  by (simp add: hbm_args_def apply_args_def opt_set_def no_args_def)

section \<open>Properties\<close>

text \<open>
  One start for all engines. After the loop over \<open>configHBM\<close> and the call of \<open>runHBMtest\<close>, the
  engines have been started exactly once, with the configured masks; at that moment each of the
  32 engines holds its own channel's parameters, the 64-bit operation count included, and the
  latency test is on at the selected channel only, if at all.
\<close>

theorem hbm_run_starts_all:
  assumes "latency_channel cf < 32" and "\<not> bit (dma_control_reg (device c) 11) 0"
  shows "\<exists>t e. hbm_run (hbm_bus (m_base c)) cf c = c\<lparr>device := t\<rparr> \<and> starts t = starts (device c) @ [e]
    \<and> se_write_enable e = write_enable cf \<and> se_read_enable e = read_enable cf
    \<and> (\<forall>k < 32. se_params e k = \<lparr>lp_work_group_size = workGroupSize cf ! k, lp_stride = strideLength cf ! k,
          lp_num_mem_ops = numOps cf ! k, lp_mem_burst_size = memBurstSize cf ! k,
          lp_initial_addr = push_bit 2 (ucast (initialAddr cf ! k)),
          lp_latency_test_enable = (k = unat (latency_channel cf) \<and> bit (latency_test_enable cf) 0)\<rparr>)"
  using hbm.design_run_xctl [of cf c] assms
  by (simp add: hbm_run_design channel_params_def run_params_hbm word_less_nat_alt) blast

theorem hbm_run_starts_all_witness:
  "\<exists>t e. hbm_run (hbm_bus 0x7f0000) hbm_defaults idle_ctrl = idle_ctrl\<lparr>device := t\<rparr> \<and> starts t = [e]
    \<and> lp_num_mem_ops (se_params e 4) = 10000000 \<and> lp_num_mem_ops (se_params e 31) = 100000"
proof -
  have "latency_channel hbm_defaults < 32" by (simp add: hbm_defaults_def)
  from hbm_run_starts_all [OF this, of idle_ctrl]
  obtain t e where "hbm_run (hbm_bus 0x7f0000) hbm_defaults idle_ctrl = idle_ctrl\<lparr>device := t\<rparr>" "starts t = [e]"
    "\<forall>k < 32. lp_num_mem_ops (se_params e k) = numOps hbm_defaults ! k"
    by (auto simp: idle_ctrl_def idle_xctl_def)
  then show ?thesis by (intro exI [of _ t] exI [of _ e]) (simp add: hbm_defaults_def)
qed

text \<open>
  C3. The whole program. On a host where the files open and map, with a command line that is
  accepted and names a latency channel below 32, and a device that is idle and whose engines
  eventually report completion, \<open>hbm_test\<close> terminates with status 0. It starts the engines
  exactly once, with the configured masks, when each of the 32 engines holds its own channel's parameters, the
  64-bit operation count included; and it prints one speed for every enabled direction of every channel, in channel
  order, computed from that channel's burst size and timer, and the operation count of the
  latency channel; at the end the huge pages are unmapped, the three descriptors closed and both objects deleted.
\<close>

theorem hbm_main_reports:
  assumes "initializeMemory K ram dev (setNodeId 0 h) = Inr s" and "controller h = Null"
    and "hbm_args files a hbm_defaults = Inr cf" and "latency_channel cf < 32"
    and "\<not> bit (dma_control_reg dev 0) 0" and "\<not> bit (dma_control_reg dev 11) 0"
    and "\<forall>t \<ge> T. env_end dev t = (write_enable cf, read_enable cf)"
  shows "\<exists>r e u. hbm_main K ram dev hbm_bus files a h = Returned 0 (map (speed 450) (rp_lines r)) r u
    \<and> rp_lines r = result_lines (write_enable cf) (read_enable cf) (numOps cf ! unat (latency_channel cf))
        (memBurstSize cf) dev [0 ..< 32]
    \<and> starts (device (rp_ctrl r)) = starts dev @ [e] \<and> controller u = Dangling \<and> mm_ptr u = Dangling
    \<and> (\<exists>l. sysl u = l @ [Munmap (huge_base s) DMA_SIZE, Close (fd s), Close (byfd s), Close (hfd s)])
    \<and> se_write_enable e = write_enable cf \<and> se_read_enable e = read_enable cf
    \<and> (\<forall>k < 32. se_params e k = \<lparr>lp_work_group_size = workGroupSize cf ! k, lp_stride = strideLength cf ! k,
          lp_num_mem_ops = numOps cf ! k, lp_mem_burst_size = memBurstSize cf ! k,
          lp_initial_addr = push_bit 2 (ucast (initialAddr cf ! k)),
          lp_latency_test_enable = (k = unat (latency_channel cf) \<and> bit (latency_test_enable cf) 0)\<rparr>)"
  using hbm_main_xctl [OF assms] unfolding channel_params_def run_params_hbm by blast

theorem hbm_main_reports_witness:
  "\<exists>r u. hbm_main demo_os (\<lambda>_. 0) busy_xctl hbm_bus (\<lambda>_. None) (no_args\<lparr>arg_readEnable := Some 0x10\<rparr>) xhost0
      = Returned 0 (map (speed 450) (rp_lines r)) r u \<and> length (starts (device (rp_ctrl r))) = 1"
proof -
  obtain s where s: "initializeMemory demo_os (\<lambda>_. 0) busy_xctl (setNodeId 0 xhost0) = Inr s"
    using xhost_initialize by blast
  from hbm_main_reports [OF s busy_xctl_sel(5) read4_args read4_cfg(1) busy_xctl_sel(1,2) read4_cfg(2),
      of "\<lambda>_. None"] busy_xctl_sel(3)
  show ?thesis by (elim exE conjE) (intro exI conjI, assumption, simp)
qed

text \<open>
  C8. The same for the DDR design, which is the same register file at two channels and 34-bit
  addresses: with a latency channel below two, and flags that eventually show the enabled engines as
  done, \<open>ddr_test\<close> returns 0. It starts the engines exactly once, with the masks as given; each of the two
  engines then holds its own channel's parameters, and an initial address that is what was configured, not
  scaled, since the host never writes the register with its upper half. It ends by unmapping, closing
  and deleting like \<open>hbm_test\<close>.
\<close>

theorem ddr_main_reports:
  assumes "initializeMemory K ram dev (setNodeId 0 h) = Inr s" and "controller h = Null"
    and "ddr_args files a ddr_defaults = Inr cf" and "latency_channel cf < 2"
    and "\<not> bit (dma_control_reg dev 0) 0" and "\<not> bit (dma_control_reg dev 11) 0" and "dma_control_reg dev 17 = 0"
    and "\<forall>t \<ge> T. end_flags ddr_design dev t = (write_enable cf, read_enable cf)"
  shows "\<exists>r e u. ddr_main K ram dev ddr_bus files a h = Returned 0 (map (speed 300) (rp_lines r)) r u
    \<and> rp_lines r = result_lines (write_enable cf) (read_enable cf) (numOps cf ! unat (latency_channel cf))
        (memBurstSize cf) dev [0 ..< 32]
    \<and> starts (device (rp_ctrl r)) = starts dev @ [e] \<and> controller u = Dangling \<and> mm_ptr u = Dangling
    \<and> (\<exists>l. sysl u = l @ [Munmap (huge_base s) DMA_SIZE, Close (fd s), Close (byfd s), Close (hfd s)])
    \<and> se_write_enable e = write_enable cf \<and> se_read_enable e = read_enable cf
    \<and> (\<forall>k < 2. se_params e k = \<lparr>lp_work_group_size = workGroupSize cf ! k, lp_stride = strideLength cf ! k,
          lp_num_mem_ops = numOps cf ! k, lp_mem_burst_size = memBurstSize cf ! k,
          lp_initial_addr = ucast (initialAddr cf ! k),
          lp_latency_test_enable = (k = unat (latency_channel cf) \<and> bit (latency_test_enable cf) 0)\<rparr>)"
  using ddr_main_xctl [OF assms(1-6,8)] unfolding channel_params_def run_params_ddr [where r = "dma_control_reg dev", OF assms(7)]
  by blast

theorem ddr_main_reports_witness:
  "\<exists>r e u. ddr_main demo_os (\<lambda>_. 0) ddr_xctl ddr_bus (\<lambda>_. None) no_args dhost0
      = Returned 0 (map (speed 300) (rp_lines r)) r u \<and> starts (device (rp_ctrl r)) = [e]
    \<and> lp_stride (se_params e 1) = 128 \<and> lp_initial_addr (se_params e 1) = 0x04000000"
proof -
  obtain s where s: "initializeMemory demo_os (\<lambda>_. 0) ddr_xctl (setNodeId 0 dhost0) = Inr s"
    by (auto simp: initializeMemory_def demo_os_def dhost0_def setNodeId_def sys_def Let_def MAP_FAILED_def)
  have a: "ddr_args (\<lambda>_. None) no_args ddr_defaults = Inr ddr_defaults"
    by (simp add: ddr_args_def apply_args_def opt_set_def no_args_def)
  have t: "\<forall>t \<ge> 100. end_flags ddr_design ddr_xctl t = (write_enable ddr_defaults, read_enable ddr_defaults)"
    by (simp add: end_flags_def ddr_xctl_def ddr_defaults_def)
  have d: "strideLength ddr_defaults ! 1 = 128" "initialAddr ddr_defaults ! 1 = 0x04000000"
    by (simp_all add: ddr_defaults_def nth_append)
  from ddr_main_reports [OF s _ a _ _ _ _ t]
  obtain r e u where "ddr_main demo_os (\<lambda>_. 0) ddr_xctl ddr_bus (\<lambda>_. None) no_args dhost0
      = Returned 0 (map (speed 300) (rp_lines r)) r u" "starts (device (rp_ctrl r)) = [e]"
    "\<forall>k < 2. lp_stride (se_params e k) = strideLength ddr_defaults ! k
       \<and> lp_initial_addr (se_params e k) = ucast (initialAddr ddr_defaults ! k)"
    by (auto simp: ddr_xctl_def dhost0_def ddr_defaults_def)
  with d show ?thesis by force
qed

text \<open>
  C32. Nothing checks the enable masks of \<open>ddr_test\<close> against its two channels. The design shows completion
  flags for these only, so with any other bit in a mask the program never returns, whatever the device does.
\<close>

theorem ddr_masks_wait_forever:
  assumes "initializeMemory K ram dev (setNodeId 0 h) = Inr s" and "controller h = Null"
    and "ddr_args files a ddr_defaults = Inr cf" and "latency_channel cf < 32"
    and "4 \<le> write_enable cf \<or> 4 \<le> read_enable cf"
  shows "ddr_main K ram dev ddr_bus files a h = Waiting"
proof -
  obtain c m where s: "controller s = Live c" "mm_ptr s = Live m" "device c = dev" by (rule initialized [OF assms(1,2)])
  have lt: "w < 4" if "take_bit 2 w = w" for w :: u32
  proof -
    have "unat (take_bit 2 w) = take_bit 2 (unat w)" by (rule unsigned_take_bit_eq)
    with that take_bit_nat_less_exp [of 2 "unat w"] show ?thesis by (simp add: word_less_nat_alt)
  qed
  have "take_bit (N_MEM_INTF ddr_design) (write_enable cf) \<noteq> write_enable cf
      \<or> take_bit (N_MEM_INTF ddr_design) (read_enable cf) \<noteq> read_enable cf"
    using assms(5) lt by (auto simp: not_less [symmetric])
  then have "poll_end (ddr_bus (m_base c)) (write_enable cf) (read_enable cf) d = None" if "m_base d = m_base c" for d
    using that by (intro poll_end_masked)
  then have "read_data (ddr_bus (m_base c)) (write_enable cf) (read_enable cf) (latency_test_enable cf)
      (latency_channel cf) n (memBurstSize cf) (design_run ddr_design cf c) = None" for n
    by (simp add: read_data_def design_run_base)
  with s assms(1,3,4) show ?thesis
    by (simp add: ddr_main_def getController_def readDDRData_def ddr_run_design word_less_nat_alt)
qed

theorem ddr_masks_wait_forever_witness:
  "ddr_main demo_os (\<lambda>_. 0) ddr_xctl ddr_bus (\<lambda>_. None) (no_args\<lparr>arg_readEnable := Some 4\<rparr>) dhost0 = Waiting"
proof -
  obtain s where s: "initializeMemory demo_os (\<lambda>_. 0) ddr_xctl (setNodeId 0 dhost0) = Inr s"
    by (auto simp: initializeMemory_def demo_os_def dhost0_def setNodeId_def sys_def Let_def MAP_FAILED_def)
  have a: "ddr_args (\<lambda>_. None) (no_args\<lparr>arg_readEnable := Some 4\<rparr>) ddr_defaults = Inr (ddr_defaults\<lparr>read_enable := 4\<rparr>)"
    by (simp add: ddr_args_def apply_args_def opt_set_def no_args_def)
  show ?thesis by (rule ddr_masks_wait_forever [OF s _ a]) (simp_all add: dhost0_def ddr_defaults_def)
qed

text \<open>
  C33. A burst size on the command line is undefined behaviour: the loop that distributes it runs
  to index 32 of an array of 32, whatever else is given.
\<close>

theorem hbm_burst_option_undefined:
  assumes "initializeMemory K ram dev (setNodeId 0 h) = Inr s" and "controller h = Null"
    and "arg_memBurstSize a = Some v"
  shows "hbm_main K ram dev Bus files a h = Crashed Undefined_behaviour"
proof -
  have h: "controller (setNodeId 0 h) = Null" using assms(2) by (simp add: setNodeId_def)
  obtain c where s: "controller s = Live c" using initializeMemory_ok [OF assms(1)] h by auto
  have len: "length (memBurstSize hbm_defaults) = 32" "length (workGroupSize hbm_defaults) = 32"
    "length (strideLength hbm_defaults) = 32"
    using hbm_defaults_shape by (simp_all add: well_shaped_def)
  have f: "fill_loop 32 0 w xs = Inr (replicate 32 w)" if "length xs = 32" for w xs
    using fill_loop_all [of xs w] that by simp
  have g: "fill_loop 33 0 w xs = Inl Undefined_behaviour" if "length xs = 32" for w xs
    using that by (intro fill_loop_overrun) simp_all
  have "hbm_args files a hbm_defaults = Inl Undefined_behaviour"
    by (cases "arg_readEnable a"; cases "arg_writeEnable a"; cases "arg_channel a"; cases "arg_workGroupSize a";
        cases "arg_strideLength a") (simp_all add: hbm_args_def apply_args_def opt_set_def assms(3) f g len)
  then show ?thesis using assms(1) s by (simp add: hbm_main_def getController_def)
qed

theorem hbm_burst_option_undefined_witness:
  "hbm_main demo_os (\<lambda>_. 0) idle_xctl hbm_bus (\<lambda>_. None) (no_args\<lparr>arg_memBurstSize := Some 32\<rparr>) xhost0
    = Crashed Undefined_behaviour"
proof -
  obtain s where s: "initializeMemory demo_os (\<lambda>_. 0) idle_xctl (setNodeId 0 xhost0) = Inr s"
    using xhost_initialize by blast
  show ?thesis by (rule hbm_burst_option_undefined [OF s]) (simp_all add: xhost0_def no_args_def)
qed

text \<open>
  The other options reach every channel that is configured: \<open>hbm_test\<close> sets all 32 entries,
  \<open>ddr_test\<close> the entries of its two channels (and one more for the burst size), which is all
  \<open>ddr_test\<close> programs; the masks take the low 32 bits of their options. The \<open>channel\<close> option only
  exists in \<open>hbm_test\<close>.
\<close>

theorem args_reach_channels:
  assumes "arg_configFile a = None"
  shows "(arg_memBurstSize a = None \<longrightarrow> (\<exists>cf. hbm_args files a hbm_defaults = Inr cf
      \<and> (\<forall>k < 32. workGroupSize cf ! k = (case arg_workGroupSize a of None \<Rightarrow> 0x10000000 | Some v \<Rightarrow> ucast v)
           \<and> strideLength cf ! k = (case arg_strideLength a of None \<Rightarrow> 64 | Some v \<Rightarrow> v) \<and> memBurstSize cf ! k = 64)
      \<and> read_enable cf = (case arg_readEnable a of None \<Rightarrow> 0 | Some v \<Rightarrow> ucast v)
      \<and> write_enable cf = (case arg_writeEnable a of None \<Rightarrow> 0 | Some v \<Rightarrow> ucast v)
      \<and> latency_channel cf = (case arg_channel a of None \<Rightarrow> 0 | Some v \<Rightarrow> ucast v)))
    \<and> (\<exists>cf. ddr_args files a ddr_defaults = Inr cf
      \<and> (\<forall>k < CHANNAL_NUM. workGroupSize cf ! k = (case arg_workGroupSize a of None \<Rightarrow> 0x10000000 | Some v \<Rightarrow> ucast v)
           \<and> strideLength cf ! k = (case arg_strideLength a of None \<Rightarrow> 64 * 2 ^ k | Some v \<Rightarrow> v)
           \<and> memBurstSize cf ! k = (case arg_memBurstSize a of None \<Rightarrow> 64 | Some v \<Rightarrow> v))
      \<and> read_enable cf = (case arg_readEnable a of None \<Rightarrow> 1 | Some v \<Rightarrow> ucast v)
      \<and> write_enable cf = (case arg_writeEnable a of None \<Rightarrow> 0 | Some v \<Rightarrow> ucast v)
      \<and> latency_channel cf = 0)"
proof -
  have len: "length (workGroupSize hbm_defaults) = 32" "length (strideLength hbm_defaults) = 32"
    "length (workGroupSize ddr_defaults) = 32" "length (strideLength ddr_defaults) = 32"
    "length (memBurstSize ddr_defaults) = 32"
    using hbm_defaults_shape ddr_defaults_shape by (simp_all add: well_shaped_def)
  have f: "fill_loop 32 0 w xs = Inr (replicate 32 w)" if "length xs = 32" for w xs
    using fill_loop_all [of xs w] that by simp
  have g: "fill_loop n 0 w xs = Inr (replicate n w @ drop n xs)" if "length xs = 32" "n \<le> 3" for n w xs
    using fill_loop_ok [of 0 n xs w] that by simp
  show ?thesis
    using assms
    by (cases "arg_readEnable a"; cases "arg_writeEnable a"; cases "arg_channel a"; cases "arg_workGroupSize a";
        cases "arg_strideLength a"; cases "arg_memBurstSize a")
      (simp_all add: hbm_args_def ddr_args_def apply_args_def opt_set_def f g len nth_append CHANNAL_NUM_def
        hbm_defaults_def ddr_defaults_def)
qed

theorem args_reach_channels_witness:
  "\<exists>cf. ddr_args (\<lambda>_. None) (no_args\<lparr>arg_strideLength := Some 128\<rparr>) ddr_defaults = Inr cf
    \<and> strideLength cf ! 1 = 128 \<and> memBurstSize cf ! 1 = 64"
  using args_reach_channels [of "no_args\<lparr>arg_strideLength := Some 128\<rparr>" "\<lambda>_. None"]
  by (auto simp: no_args_def CHANNAL_NUM_def)

text \<open>
  The reported speed uses the operation count of the latency channel for every channel. With
  the defaults and channel 4 enabled for reading, the engine of channel 4 performs ten million
  bursts of 64 bytes, and the report counts a hundred thousand of them.
\<close>

theorem report_uses_latency_channel_count:
  "\<exists>r e u. hbm_main demo_os (\<lambda>_. 0) busy_xctl hbm_bus (\<lambda>_. None) (no_args\<lparr>arg_readEnable := Some 0x10\<rparr>) xhost0
      = Returned 0 (map (speed 450) (rp_lines r)) r u
    \<and> starts (device (rp_ctrl r)) = [e] \<and> lp_num_mem_ops (se_params e 4) = 10000000
    \<and> lp_mem_burst_size (se_params e 4) = 64 \<and> map sl_bytes (rp_lines r) = [64 * 100000]"
proof -
  let ?cf = "hbm_defaults\<lparr>read_enable := 0x10\<rparr>"
  obtain s where s: "initializeMemory demo_os (\<lambda>_. 0) busy_xctl (setNodeId 0 xhost0) = Inr s"
    using xhost_initialize by blast
  have "bit (0x10 :: u32) i \<longleftrightarrow> i = 4" for i
    using bit_exp_iff [of 4 i, where 'a = u32] by auto
  then have "map sl_bytes (result_lines 0 0x10 (numOps ?cf ! 0) (memBurstSize ?cf) busy_xctl [0 ..< 32]) = [64 * 100000]"
    by (simp add: result_lines_def upt_rec result_line_def hbm_defaults_def)
  moreover obtain r e u where
    "hbm_main demo_os (\<lambda>_. 0) busy_xctl hbm_bus (\<lambda>_. None) (no_args\<lparr>arg_readEnable := Some 0x10\<rparr>) xhost0
      = Returned 0 (map (speed 450) (rp_lines r)) r u"
    "rp_lines r = result_lines (write_enable ?cf) (read_enable ?cf) (numOps ?cf ! unat (latency_channel ?cf))
      (memBurstSize ?cf) busy_xctl [0 ..< 32]" "starts (device (rp_ctrl r)) = [e]"
    "\<forall>k < 32. se_params e k = channel_params hbm_design (dma_control_reg busy_xctl) ?cf k (k = unat (latency_channel ?cf) \<and> bit (latency_test_enable ?cf) 0)"
    using hbm_main_xctl [OF s busy_xctl_sel(5) read4_args read4_cfg(1) busy_xctl_sel(1,2) read4_cfg(2),
      of "\<lambda>_. None"] busy_xctl_sel(3) by auto
  moreover from this(4) have "lp_num_mem_ops (se_params e 4) = 10000000" "lp_mem_burst_size (se_params e 4) = 64"
    by (simp_all add: channel_params_def run_params_hbm hbm_defaults_def)
  ultimately show ?thesis by (intro exI [of _ r] exI [of _ e] exI [of _ u]) (simp add: hbm_defaults_def)
qed

end
