(* ===== verification/Clocked.thy ===== *)
theory Clocked
  imports Shuhai_Prelude
begin

text \<open>
  Clocked hardware: a function from the inputs of a cycle and the registers before the edge to the
  registers after it. A run over a list of inputs is \<^term>\<open>fold\<close> of that function. Here are the
  things that can be observed along a run and the induction rules for them, shared by the engines.
\<close>

section \<open>Observations along a run\<close>

fun collect :: "('i \<Rightarrow> 's \<Rightarrow> 's) \<Rightarrow> ('i \<Rightarrow> 's \<Rightarrow> 'a list) \<Rightarrow> 'i list \<Rightarrow> 's \<Rightarrow> 'a list" where
  "collect c out [] s = []"
| "collect c out (i # is) s = out i s @ collect c out is (c i s)"

text \<open>The number of cycles in which something holds.\<close>

definition cycles :: "('i \<Rightarrow> 's \<Rightarrow> 's) \<Rightarrow> ('i \<Rightarrow> 's \<Rightarrow> bool) \<Rightarrow> 'i list \<Rightarrow> 's \<Rightarrow> nat" where
  "cycles c P is s = length (collect c (\<lambda>i s. if P i s then [()] else []) is s)"

text \<open>A run that is live in every cycle.\<close>

fun busy :: "('i \<Rightarrow> 's \<Rightarrow> 's) \<Rightarrow> ('i \<Rightarrow> 's \<Rightarrow> bool) \<Rightarrow> 'i list \<Rightarrow> 's \<Rightarrow> bool" where
  "busy c live [] s = True"
| "busy c live (i # is) s = (live i s \<and> busy c live is (c i s))"

text \<open>The same as a relation: what was observed on the way from one state to another.\<close>

inductive trace :: "('i \<Rightarrow> 's \<Rightarrow> 's) \<Rightarrow> ('i \<Rightarrow> 's \<Rightarrow> bool) \<Rightarrow> ('i \<Rightarrow> 's \<Rightarrow> 'a list) \<Rightarrow> 's \<Rightarrow> 'a list \<Rightarrow> 's \<Rightarrow> bool"
  for c live out s where
  trace_start: "trace c live out s [] s"
| trace_cycle: "trace c live out s tr t \<Longrightarrow> live i t \<Longrightarrow> trace c live out s (tr @ out i t) (c i t)"

section \<open>Rules\<close>

lemma collect_append: "collect c out (is @ js) s = collect c out is s @ collect c out js (fold c is s)"
  by (induction "is" arbitrary: s) auto

lemma cycles_simps [simp]:
  "cycles c P [] s = 0" "cycles c P (i # is) s = of_bool (P i s) + cycles c P is (c i s)"
  by (simp_all add: cycles_def)

lemma cycles_append: "cycles c P (is @ js) s = cycles c P is s + cycles c P js (fold c is s)"
  by (simp add: cycles_def collect_append)

lemma cycles_le: "cycles c P is s \<le> length is"
  by (induction "is" arbitrary: s) (auto simp: le_SucI)

lemma busy_append: "busy c live (is @ js) s \<longleftrightarrow> busy c live is s \<and> busy c live js (fold c is s)"
  by (induction "is" arbitrary: s) auto

lemma run_induct [consumes 1, case_names Start Cycle]:
  assumes "busy c live is s" and "P [] s"
    and "\<And>js i. busy c live js s \<Longrightarrow> live i (fold c js s) \<Longrightarrow> P js (fold c js s) \<Longrightarrow> P (js @ [i]) (c i (fold c js s))"
  shows "P is (fold c is s)"
  using assms(1)
proof (induction "is" rule: rev_induct)
  case Nil
  then show ?case using assms(2) by simp
next
  case (snoc i js)
  then show ?case using assms(3) [of js i] by (simp add: busy_append)
qed

lemma trace_run: "busy c live is s \<Longrightarrow> trace c live out s (collect c out is s) (fold c is s)"
proof (induction "is" rule: rev_induct)
  case (snoc i js)
  then have "trace c live out s (collect c out js s) (fold c js s)" and "live i (fold c js s)"
    by (simp_all add: busy_append)
  then show ?case using trace_cycle [of c live out s _ _ i] by (simp add: collect_append)
qed (simp add: trace_start)

lemma run_of_trace: "trace c live out s tr t \<Longrightarrow> \<exists>is. busy c live is s \<and> tr = collect c out is s \<and> t = fold c is s"
proof (induction rule: trace.induct)
  case trace_start
  then show ?case by (intro exI [of _ "[]"]) simp
next
  case (trace_cycle tr t i)
  then obtain "is" where "busy c live is s" "tr = collect c out is s" "t = fold c is s" by blast
  with trace_cycle.hyps(2) show ?case
    by (intro exI [of _ "is @ [i]"]) (simp add: busy_append collect_append)
qed

text \<open>A part of a machine runs by itself, on the inputs the rest of the machine gives it.\<close>

abbreviation inputs_of :: "('i \<Rightarrow> 's \<Rightarrow> 's) \<Rightarrow> ('i \<Rightarrow> 's \<Rightarrow> 'j) \<Rightarrow> 'i list \<Rightarrow> 's \<Rightarrow> 'j list" where
  "inputs_of c g \<equiv> collect c (\<lambda>i s. [g i s])"

lemma part_run:
  assumes "\<And>i s. f (c i s) = d (g i s) (f s)"
  shows "f (fold c is s) = fold d (inputs_of c g is s) (f s)"
  by (induction "is" arbitrary: s) (simp_all add: assms)

lemma inputs_of_append: "inputs_of c g (is @ js) s = inputs_of c g is s @ inputs_of c g js (fold c is s)"
  by (simp add: collect_append)

lemma length_inputs_of [simp]: "length (inputs_of c g is s) = length is"
  by (induction "is" arbitrary: s) simp_all

lemma inputs_of_Nil_iff [simp]: "inputs_of c g is s = [] \<longleftrightarrow> is = []"
  by (cases "is") simp_all

end
