(* ===== verification/Axil_Slave.thy ===== *)
theory Axil_Slave
  imports Xdma_Control Clocked
begin

text \<open>
  The AXI-Lite slave of \<open>xdma_control.sv\<close> in the two designs, clock cycle by clock cycle: the state
  machines of the write and of the read channels, the registers, their outputs and the
  pointer into the latency memory. The master, the status inputs and the output of the memory core are
  arbitrary. The lemmas relate the cycles to the transactions of \<open>Xdma_Control\<close>.
\<close>

section \<open>Registers and inputs\<close>

datatype axil_w = WIDLE | WDATA | WBRSP

datatype axil_r = RIDLE | RDATA | RWAIT

text \<open>
  The registered outputs. Address and data of a write and the address of a read are latches: they
  follow the bus in the cycle of the handshake and hold their value after it.
\<close>

record (overloaded) 'a reg_out =
  out_hbm_reset :: bool
  out_params :: "'a lt_param"
  out_write_enable :: u32
  out_read_enable :: u32
  out_channel :: nat
  out_start :: bool

record (overloaded) 'a axil_slave =
  regs :: "nat \<Rightarrow> u32"
  w_cstate :: axil_w
  wr_addr :: nat
  wr_word :: u32
  r_cstate :: axil_r
  rd_addr :: nat
  counter :: "4 word"
  outs :: "'a reg_out"
  addrb :: "12 word"
  lat_timer_out :: u8

record axil_in =
  s_aresetn :: bool
  awaddr :: u32
  awvalid :: bool
  wdata :: u32
  wvalid :: bool
  bready :: bool
  araddr :: u32
  arvalid :: bool
  rready :: bool
  in_end_wr :: u32
  in_end_rd :: u32
  in_sum_wr :: u32
  in_sum_rd :: u32
  doutb :: u8

section \<open>One clock cycle\<close>

definition outs_of :: "'a design \<Rightarrow> (nat \<Rightarrow> u32) \<Rightarrow> 'a reg_out" where
  "outs_of D r = \<lparr>out_hbm_reset = bit (r 0) 0, out_params = reg_outputs D r, out_write_enable = take_bit (N_MEM_INTF D) (r 7),
     out_read_enable = take_bit (N_MEM_INTF D) (r 8), out_channel = hbm_channel r, out_start = bit (r 11) 0\<rparr>"

definition reset_regs :: "'a design \<Rightarrow> (nat \<Rightarrow> u32) \<Rightarrow> nat \<Rightarrow> u32" where
  "reset_regs D r j = (if j = 1 then 0x10000000 else if j = 2 then 0x40 else if j = 3 then 0x1000
     else if j \<le> 11 \<or> j \<in> set (more_reset D) then 0 else r j)"

definition next_regs :: "'a design \<Rightarrow> axil_in \<Rightarrow> 'a axil_slave \<Rightarrow> nat \<Rightarrow> u32" where
  "next_regs D i s =
     (if \<not> s_aresetn i then reset_regs D (regs s)
      else if w_cstate s = WBRSP then (regs s)(wr_addr s := wr_word s)
      else (regs s)(12 := take_bit (N_MEM_INTF D) (in_end_wr i), 13 := take_bit (N_MEM_INTF D) (in_end_rd i), 14 := in_sum_wr i, 15 := in_sum_rd i,
                    16 := ucast (lat_timer_out s)))"

text \<open>The ready and valid outputs are the bits of the one-hot states.\<close>

definition aw_hs :: "axil_in \<Rightarrow> 'a axil_slave \<Rightarrow> bool" where
  "aw_hs i s \<longleftrightarrow> w_cstate s = WIDLE \<and> awvalid i"

definition w_hs :: "axil_in \<Rightarrow> 'a axil_slave \<Rightarrow> bool" where
  "w_hs i s \<longleftrightarrow> w_cstate s = WDATA \<and> wvalid i"

definition b_hs :: "axil_in \<Rightarrow> 'a axil_slave \<Rightarrow> bool" where
  "b_hs i s \<longleftrightarrow> w_cstate s = WBRSP \<and> bready i"

definition ar_hs :: "axil_in \<Rightarrow> 'a axil_slave \<Rightarrow> bool" where
  "ar_hs i s \<longleftrightarrow> r_cstate s = RIDLE \<and> arvalid i"

definition r_hs :: "axil_in \<Rightarrow> 'a axil_slave \<Rightarrow> bool" where
  "r_hs i s \<longleftrightarrow> r_cstate s = RDATA \<and> rready i"

definition w_nstate :: "axil_in \<Rightarrow> 'a axil_slave \<Rightarrow> axil_w" where
  "w_nstate i s =
     (case w_cstate s of
        WIDLE \<Rightarrow> if aw_hs i s then WDATA else WIDLE
      | WDATA \<Rightarrow> if w_hs i s then WBRSP else WDATA
      | WBRSP \<Rightarrow> if b_hs i s then WIDLE else WBRSP)"

definition r_nstate :: "axil_in \<Rightarrow> 'a axil_slave \<Rightarrow> axil_r" where
  "r_nstate i s =
     (case r_cstate s of
        RIDLE \<Rightarrow> if ar_hs i s then RDATA else RIDLE
      | RDATA \<Rightarrow> if r_hs i s then RWAIT else RDATA
      | RWAIT \<Rightarrow> if counter s = 15 then RIDLE else RWAIT)"

definition next_addrb :: "axil_in \<Rightarrow> 'a axil_slave \<Rightarrow> 12 word" where
  "next_addrb i s =
     (if \<not> s_aresetn i \<or> out_hbm_reset (outs s) \<or> out_start (outs s) then 0
      else if rd_addr s = 16 \<and> r_hs i s then addrb s + 1 else addrb s)"

definition axil_cycle :: "'a design \<Rightarrow> axil_in \<Rightarrow> 'a axil_slave \<Rightarrow> 'a axil_slave" where
  "axil_cycle D i s =
     \<lparr>regs = next_regs D i s,
      w_cstate = (if \<not> s_aresetn i then WIDLE else w_nstate i s),
      wr_addr = (if aw_hs i s then reg_index (awaddr i) else wr_addr s),
      wr_word = (if w_hs i s then wdata i else wr_word s),
      r_cstate = (if \<not> s_aresetn i then RIDLE else r_nstate i s),
      rd_addr = (if ar_hs i s then reg_index (araddr i) else rd_addr s),
      counter = (if \<not> s_aresetn i \<or> r_cstate s \<noteq> RWAIT then 0 else counter s + 1),
      outs = outs_of D (regs s),
      addrb = next_addrb i s,
      lat_timer_out = (if \<not> s_aresetn i then 0 else doutb i)\<rparr>"

text \<open>What goes over the bus: addresses and data of writes, addresses and data of reads.\<close>

abbreviation aw_log :: "'a design \<Rightarrow> axil_in list \<Rightarrow> 'a axil_slave \<Rightarrow> nat list" where
  "aw_log D \<equiv> collect (axil_cycle D) (\<lambda>i s. if aw_hs i s then [reg_index (awaddr i)] else [])"

abbreviation w_log :: "'a design \<Rightarrow> axil_in list \<Rightarrow> 'a axil_slave \<Rightarrow> u32 list" where
  "w_log D \<equiv> collect (axil_cycle D) (\<lambda>i s. if w_hs i s then [wdata i] else [])"

abbreviation ar_log :: "'a design \<Rightarrow> axil_in list \<Rightarrow> 'a axil_slave \<Rightarrow> nat list" where
  "ar_log D \<equiv> collect (axil_cycle D) (\<lambda>i s. if ar_hs i s then [reg_index (araddr i)] else [])"

abbreviation r_log :: "'a design \<Rightarrow> axil_in list \<Rightarrow> 'a axil_slave \<Rightarrow> (nat \<times> u32) list" where
  "r_log D \<equiv> collect (axil_cycle D) (\<lambda>i s. if r_hs i s then [(rd_addr s, regs s (rd_addr s))] else [])"

abbreviation axil_run :: "'a design \<Rightarrow> axil_in list \<Rightarrow> 'a axil_slave \<Rightarrow> 'a axil_slave" where
  "axil_run D \<equiv> fold (axil_cycle D)"

section \<open>Example\<close>

definition ex_slave :: "33 axil_slave" where
  "ex_slave = \<lparr>regs = (\<lambda>j. if j = 16 then 30 else 0), w_cstate = WIDLE, wr_addr = 0, wr_word = 0, r_cstate = RIDLE, rd_addr = 0,
     counter = 0, outs = outs_of hbm_design (\<lambda>_. 0), addrb = 0, lat_timer_out = 30\<rparr>"

definition ex_idle :: axil_in where
  "ex_idle = \<lparr>s_aresetn = True, awaddr = 0, awvalid = False, wdata = 0, wvalid = False, bready = True, araddr = 0,
     arvalid = False, rready = True, in_end_wr = 0, in_end_rd = 0, in_sum_wr = 0, in_sum_rd = 0, doutb = 30\<rparr>"

definition ex_write :: "u32 \<Rightarrow> u32 \<Rightarrow> axil_in list" where
  "ex_write a d = [ex_idle\<lparr>awvalid := True, awaddr := a\<rparr>, ex_idle\<lparr>wvalid := True, wdata := d\<rparr>, ex_idle]"

definition ex_read :: "u32 \<Rightarrow> axil_in list" where
  "ex_read a = [ex_idle\<lparr>arvalid := True, araddr := a\<rparr>, ex_idle]"

section \<open>Writes arrive in order\<close>

definition status_reg :: "nat \<Rightarrow> bool" where
  "status_reg j \<longleftrightarrow> j \<in> {12 .. 16}"

definition after_writes :: "(nat \<times> u32) list \<Rightarrow> (nat \<Rightarrow> u32) \<Rightarrow> nat \<Rightarrow> u32" where
  "after_writes ws r = upd_regs ws r"

lemma after_writes_simps [simp]:
  "after_writes [] r = r" "after_writes (ws @ [(a, d)]) r = (after_writes ws r)(a := d)" "after_writes [(a, d)] r = r(a := d)"
  by (simp_all only: after_writes_def fold_append fold_simps o_apply id_apply prod.case)

text \<open>The registers with the write that is under way.\<close>

definition written :: "'a axil_slave \<Rightarrow> nat \<Rightarrow> u32" where
  "written s = (if w_cstate s = WBRSP then (regs s)(wr_addr s := wr_word s) else regs s)"

lemma written_cycle:
  assumes "s_aresetn i" and "\<not> status_reg j"
  shows "written (axil_cycle D i s) j = (if w_hs i s then ((written s)(wr_addr s := wdata i)) j else written s j)"
  using assms by (cases "w_cstate s")
    (auto simp: written_def axil_cycle_def next_regs_def w_nstate_def aw_hs_def w_hs_def b_hs_def status_reg_def)

text \<open>After \<open>n\<close> data words, the addresses are one ahead exactly while the slave waits for data.\<close>

lemma write_logs:
  assumes "\<forall>i \<in> set is. s_aresetn i" and "w_cstate s = WIDLE"
  shows "length (aw_log D is s) = length (w_log D is s) + of_bool (w_cstate (axil_run D is s) = WDATA)
    \<and> (aw_log D is s \<noteq> [] \<longrightarrow> wr_addr (axil_run D is s) = last (aw_log D is s))
    \<and> (\<forall>j. \<not> status_reg j \<longrightarrow> written (axil_run D is s) j = after_writes (zip (aw_log D is s) (w_log D is s)) (regs s) j)"
  using assms(1)
proof (induction "is" rule: rev_induct)
  case Nil
  then show ?case using assms(2) by (simp add: written_def)
next
  case (snoc i js)
  let ?t = "axil_run D js s" and ?a = "aw_log D js s" and ?w = "w_log D js s"
  have IH: "length ?a = length ?w + of_bool (w_cstate ?t = WDATA)" "?a \<noteq> [] \<Longrightarrow> wr_addr ?t = last ?a"
    "\<And>j. \<not> status_reg j \<Longrightarrow> written ?t j = after_writes (zip ?a ?w) (regs s) j"
    using snoc by (simp_all)
  have i: "s_aresetn i" using snoc.prems by simp
  consider (aw) "aw_hs i ?t" "\<not> w_hs i ?t" | (w) "w_hs i ?t" "\<not> aw_hs i ?t" | (none) "\<not> aw_hs i ?t" "\<not> w_hs i ?t"
    by (auto simp: aw_hs_def w_hs_def)
  then show ?case
  proof cases
    case aw
    then have st: "w_cstate ?t = WIDLE" "w_cstate (axil_cycle D i ?t) = WDATA" "wr_addr (axil_cycle D i ?t) = reg_index (awaddr i)"
      using i by (auto simp: aw_hs_def axil_cycle_def w_nstate_def)
    then have "length ?a = length ?w" using IH(1) by simp
    then show ?thesis using aw st IH(3) written_cycle [OF i, of _ D ?t] by (simp add: collect_append zip_append1)
  next
    case w
    then have st: "w_cstate ?t = WDATA" "w_cstate (axil_cycle D i ?t) = WBRSP" "wr_addr (axil_cycle D i ?t) = wr_addr ?t"
      using i by (auto simp: w_hs_def aw_hs_def axil_cycle_def w_nstate_def)
    then have l: "length ?a = length ?w + 1" using IH(1) by simp
    then obtain b a where a: "?a = b @ [a]" "length b = length ?w"
      by (cases ?a rule: rev_cases) simp_all
    then have "zip ?a (?w @ [wdata i]) = zip ?a ?w @ [(a, wdata i)]" by (simp add: zip_append1)
    then show ?thesis using w st l IH(2,3) a written_cycle [OF i, of _ D ?t] by (simp add: collect_append)
  next
    case none
    then have "w_cstate (axil_cycle D i ?t) = WDATA \<longleftrightarrow> w_cstate ?t = WDATA" "wr_addr (axil_cycle D i ?t) = wr_addr ?t"
      using i by (auto simp: aw_hs_def w_hs_def axil_cycle_def w_nstate_def split: axil_w.split)
    then show ?thesis using none IH written_cycle [OF i, of _ D ?t] by (simp add: collect_append)
  qed
qed

text \<open>The outputs depend on the registers that only the host writes.\<close>

definition same_config :: "(nat \<Rightarrow> u32) \<Rightarrow> (nat \<Rightarrow> u32) \<Rightarrow> bool" where
  "same_config r q \<longleftrightarrow> (\<forall>j. \<not> status_reg j \<longrightarrow> r j = q j)"

context register_design
begin

lemma outs_of_config: "same_config r q \<Longrightarrow> outs_of D r = outs_of D q"
proof -
  assume c: "same_config r q"
  then have "reg_outputs D r = reg_outputs D q" by (intro outputs_cong) (auto simp: same_config_def status_reg_def)
  with c show ?thesis by (simp add: same_config_def status_reg_def outs_of_def hbm_channel_def)
qed

end

text \<open>
  C19. Writes on the bus, in every design. Whatever the master does and whenever, without a reset: the slave takes
  one data word for each address, in order; when no answer is outstanding, every
  register but the status registers holds the last word written to it, and one cycle later the
  outputs show these registers.
\<close>

theorem writes_in_order:
  assumes "register_design D" and "\<forall>x \<in> set is. s_aresetn x" and "w_cstate s = WIDLE" and "w_cstate (axil_run D is s) \<noteq> WBRSP"
  defines "ws \<equiv> zip (aw_log D is s) (w_log D is s)"
  shows "length (aw_log D is s) = length (w_log D is s) + of_bool (w_cstate (axil_run D is s) = WDATA)
    \<and> (\<forall>j. \<not> status_reg j \<longrightarrow> regs (axil_run D is s) j = after_writes ws (regs s) j)
    \<and> outs (axil_run D (is @ [i]) s) = outs_of D (after_writes ws (regs s))"
proof -
  note l = write_logs [OF assms(2,3), of D]
  have r: "regs (axil_run D is s) j = after_writes ws (regs s) j" if "\<not> status_reg j" for j
    using l assms(4) that by (simp add: written_def ws_def)
  then have "outs (axil_run D (is @ [i]) s) = outs_of D (after_writes ws (regs s))"
    using register_design.outs_of_config [OF assms(1)] by (simp add: axil_cycle_def same_config_def)
  with r l show ?thesis by simp
qed

theorem writes_in_order_witness:
  "let is = ex_write 0x28 3 @ ex_write 0x04 64 @ ex_write 0x04 128
   in regs (axil_run hbm_design is ex_slave) 1 = 128 \<and> out_channel (outs (axil_run hbm_design (is @ [ex_idle]) ex_slave)) = 3"
proof -
  let ?is = "ex_write 0x28 3 @ ex_write 0x04 64 @ ex_write 0x04 128"
  have "\<forall>x \<in> set ?is. s_aresetn x" "w_cstate ex_slave = WIDLE" "w_cstate (axil_run hbm_design ?is ex_slave) \<noteq> WBRSP"
    "zip (aw_log hbm_design ?is ex_slave) (w_log hbm_design ?is ex_slave) = [(10, 3), (1, 64), (1, 128)]" "\<not> status_reg 1" by code_simp+
  moreover have "after_writes [(10, 3), (1, 64), (1, 128)] (regs ex_slave) 1 = 128"
    "out_channel (outs_of hbm_design (after_writes [(10, 3), (1, 64), (1, 128)] (regs ex_slave))) = 3" by code_simp+
  ultimately show ?thesis using writes_in_order [OF hbm.register_design_axioms, of ?is ex_slave ex_idle] unfolding Let_def by simp
qed

section \<open>Reads\<close>

lemma read_logs:
  assumes "\<forall>i \<in> set is. s_aresetn i" and "r_cstate s = RIDLE"
  shows "length (ar_log D is s) = length (r_log D is s) + of_bool (r_cstate (axil_run D is s) = RDATA)
    \<and> (ar_log D is s \<noteq> [] \<longrightarrow> rd_addr (axil_run D is s) = last (ar_log D is s))
    \<and> map fst (r_log D is s) = take (length (r_log D is s)) (ar_log D is s)"
  using assms(1)
proof (induction "is" rule: rev_induct)
  case Nil
  then show ?case using assms(2) by simp
next
  case (snoc i js)
  let ?t = "axil_run D js s" and ?a = "ar_log D js s" and ?r = "r_log D js s"
  have IH: "length ?a = length ?r + of_bool (r_cstate ?t = RDATA)" "?a \<noteq> [] \<Longrightarrow> rd_addr ?t = last ?a"
    "map fst ?r = take (length ?r) ?a" using snoc by auto
  have i: "s_aresetn i" using snoc.prems by simp
  consider (ar) "ar_hs i ?t" "\<not> r_hs i ?t" | (r) "r_hs i ?t" "\<not> ar_hs i ?t" | (none) "\<not> ar_hs i ?t" "\<not> r_hs i ?t"
    by (auto simp: ar_hs_def r_hs_def)
  then show ?case
  proof cases
    case ar
    then have "r_cstate ?t = RIDLE" "r_cstate (axil_cycle D i ?t) = RDATA" "rd_addr (axil_cycle D i ?t) = reg_index (araddr i)"
      using i by (auto simp: ar_hs_def axil_cycle_def r_nstate_def)
    then show ?thesis using ar IH by (simp add: collect_append)
  next
    case r
    then have st: "r_cstate ?t = RDATA" "r_cstate (axil_cycle D i ?t) = RWAIT" "rd_addr (axil_cycle D i ?t) = rd_addr ?t"
      using i by (auto simp: r_hs_def ar_hs_def axil_cycle_def r_nstate_def)
    then obtain b a where "?a = b @ [a]" "length b = length ?r"
      using IH(1) by (cases ?a rule: rev_cases) simp_all
    then show ?thesis using r st IH(2,3) by (simp add: collect_append)
  next
    case none
    then have "r_cstate (axil_cycle D i ?t) = RDATA \<longleftrightarrow> r_cstate ?t = RDATA" "rd_addr (axil_cycle D i ?t) = rd_addr ?t"
      using i by (auto simp: ar_hs_def r_hs_def axil_cycle_def r_nstate_def split: axil_r.split)
    then show ?thesis using none IH by (simp add: collect_append)
  qed
qed

section \<open>Cycles and transactions\<close>

text \<open>
  Between two transactions the slave stands for a state of \<open>Xdma_Control\<close>. The status registers follow
  their inputs: \<open>caught_up\<close> says that they have caught up, \<open>shows\<close> that the inputs of a cycle are those
  of that state.
\<close>

definition represents :: "'a design \<Rightarrow> 'a axil_slave \<Rightarrow> 'a xctl \<Rightarrow> bool" where
  "represents D s x \<longleftrightarrow> w_cstate s = WIDLE \<and> r_cstate s = RIDLE \<and> same_config (regs s) (dma_control_reg x)
     \<and> outs s = outs_of D (dma_control_reg x) \<and> addrb s = addrb_ori x
     \<and> (held_in_reset (dma_control_reg x) \<longrightarrow> addrb_ori x = 0)"

definition caught_up :: "'a design \<Rightarrow> 'a axil_slave \<Rightarrow> 'a xctl \<Rightarrow> bool" where
  "caught_up D s x \<longleftrightarrow> (\<forall>j. status_reg j \<longrightarrow> regs s j = reg_value D x j) \<and> lat_timer_out s = lat_ram x (addrb_ori x)"

definition shows_state :: "'a design \<Rightarrow> 'a xctl \<Rightarrow> axil_in \<Rightarrow> bool" where
  "shows_state D x i \<longleftrightarrow> in_end_wr i = reg_value D x 12 \<and> in_end_rd i = reg_value D x 13 \<and> in_sum_wr i = reg_value D x 14
     \<and> in_sum_rd i = reg_value D x 15 \<and> doutb i = lat_ram x (addrb_ori x)"

definition quiet :: "axil_in \<Rightarrow> bool" where
  "quiet i \<longleftrightarrow> s_aresetn i \<and> \<not> awvalid i \<and> \<not> arvalid i"

lemma held_outs: "out_hbm_reset (outs_of D r) \<or> out_start (outs_of D r) \<longleftrightarrow> held_in_reset r"
  by (simp add: outs_of_def held_in_reset_def)

lemma next_regs_config:
  "s_aresetn i \<Longrightarrow> same_config (next_regs D i s) (written s)"
  by (auto simp: same_config_def status_reg_def next_regs_def written_def)

lemma same_config_trans: "same_config r q \<Longrightarrow> same_config q p \<Longrightarrow> same_config r p"
  by (simp add: same_config_def)

lemma cycle_read_idle:
  assumes "s_aresetn i" and "\<not> arvalid i" and "r_cstate s = RIDLE"
  shows "r_cstate (axil_cycle D i s) = RIDLE"
    and "addrb (axil_cycle D i s) = (if out_hbm_reset (outs s) \<or> out_start (outs s) then 0 else addrb s)"
  using assms by (simp_all add: axil_cycle_def r_nstate_def ar_hs_def r_hs_def next_addrb_def)

lemma quiet_cycle:
  assumes "quiet i" and "w_cstate s = WIDLE" and "r_cstate s = RIDLE"
  shows "w_cstate (axil_cycle D i s) = WIDLE" "r_cstate (axil_cycle D i s) = RIDLE" "same_config (regs (axil_cycle D i s)) (regs s)"
    "outs (axil_cycle D i s) = outs_of D (regs s)"
    "addrb (axil_cycle D i s) = (if out_hbm_reset (outs s) \<or> out_start (outs s) then 0 else addrb s)"
  using assms cycle_read_idle [of i s] next_regs_config [of i D s]
  by (auto simp: quiet_def axil_cycle_def w_nstate_def aw_hs_def written_def)

lemma cycle_write_idle:
  assumes "s_aresetn i" and "\<not> awvalid i" and "w_cstate s = WIDLE"
  shows "w_cstate (axil_cycle D i s) = WIDLE" and "same_config (regs (axil_cycle D i s)) (regs s)"
  using assms next_regs_config [OF assms(1), of D s] by (simp_all add: axil_cycle_def w_nstate_def aw_hs_def written_def)

lemma caught_up_cycle:
  assumes "caught_up D s x" and "shows_state D x i" and "s_aresetn i" and "w_cstate s = WIDLE"
  shows "caught_up D (axil_cycle D i s) x"
proof -
  have "reg_value D x 16 = ucast (lat_ram x (addrb_ori x))"
    "take_bit (N_MEM_INTF D) (reg_value D x 12) = reg_value D x 12"
    "take_bit (N_MEM_INTF D) (reg_value D x 13) = reg_value D x 13" by (simp_all add: reg_value_def end_flags_def)
  moreover have "j = 12 \<or> j = 13 \<or> j = 14 \<or> j = 15 \<or> j = 16" if "status_reg j" for j
    using that by (auto simp: status_reg_def)
  ultimately show ?thesis using assms
    by (auto simp: caught_up_def shows_state_def axil_cycle_def next_regs_def)
qed

context register_design
begin

text \<open>During a write, registers and outputs hold the old or the new configuration.\<close>

lemma write_under_way:
  assumes "represents D s x" and "\<forall>i \<in> set (js @ ks). s_aresetn i \<and> \<not> arvalid i"
    and "aw_log D (js @ ks) s = [a]" and "w_log D (js @ ks) s = [d]"
  defines "r \<equiv> dma_control_reg x" and "r' \<equiv> (dma_control_reg x)(a := d)" and "t \<equiv> axil_run D js s"
  shows "r_cstate t = RIDLE \<and> (same_config (regs t) r \<or> same_config (regs t) r')
    \<and> (outs t = outs_of D r \<or> outs t = outs_of D r') \<and> (addrb t = addrb_ori x \<or> addrb t = 0 \<and> held_in_reset r')"
  using assms(2-4) unfolding t_def
proof (induction js arbitrary: ks rule: rev_induct)
  case Nil
  then show ?case using assms(1) by (simp add: represents_def r_def)
next
  case (snoc i js)
  let ?t = "axil_run D js s"
  have IH: "r_cstate ?t = RIDLE" "same_config (regs ?t) r \<or> same_config (regs ?t) r'"
    "outs ?t = outs_of D r \<or> outs ?t = outs_of D r'" "addrb ?t = addrb_ori x \<or> addrb ?t = 0 \<and> held_in_reset r'"
    using snoc.IH [of "i # ks"] snoc.prems by simp_all
  have i: "s_aresetn i" "\<not> arvalid i" using snoc.prems(1) by simp_all
  have r: "w_cstate s = WIDLE" "same_config (regs s) r" "held_in_reset r \<longrightarrow> addrb_ori x = 0"
    using assms(1) by (simp_all add: represents_def r_def)
  have l: "aw_log D js s @ aw_log D (i # ks) ?t = [a]" "w_log D js s @ w_log D (i # ks) ?t = [d]"
    using snoc.prems(2,3) by (simp_all add: collect_append)
  have "zip (aw_log D js s) (w_log D js s) \<in> {[], [(a, d)]}" using l by (auto simp: append_eq_Cons_conv)
  then have "same_config (written ?t) r \<or> same_config (written ?t) r'"
    using write_logs [of js s D] snoc.prems(1) r(1,2) by (auto simp: same_config_def r'_def r_def)
  then have "same_config (regs (axil_cycle D i ?t)) r \<or> same_config (regs (axil_cycle D i ?t)) r'"
    using same_config_trans [OF next_regs_config [OF i(1), of D ?t]] by (auto simp: axil_cycle_def)
  moreover have "outs (axil_cycle D i ?t) = outs_of D r \<or> outs (axil_cycle D i ?t) = outs_of D r'"
    using IH(2) outs_of_config by (auto simp: axil_cycle_def)
  moreover have "addrb (axil_cycle D i ?t) = addrb_ori x \<or> addrb (axil_cycle D i ?t) = 0 \<and> held_in_reset r'"
    unfolding cycle_read_idle(2) [OF i IH(1)] using IH(3,4) r(3) held_outs by metis
  ultimately show ?case using cycle_read_idle(1) [OF i IH(1)] by simp
qed

lemma write_transaction:
  assumes "represents D s x" and "\<forall>i \<in> set is. s_aresetn i \<and> \<not> arvalid i"
    and "aw_log D is s = [reg_index a]" and "w_log D is s = [d]" and "w_cstate (axil_run D is s) = WIDLE"
    and "quiet i" and "quiet j"
  shows "represents D (axil_run D (is @ [i, j]) s) (axil_write D a d x)"
proof -
  let ?r = "(dma_control_reg x)(reg_index a := d)"
  let ?t = "axil_run D is s"
  let ?u = "axil_cycle D i ?t"
  have t: "r_cstate ?t = RIDLE" "outs ?t = outs_of D (dma_control_reg x) \<or> outs ?t = outs_of D ?r"
    "addrb ?t = addrb_ori x \<or> addrb ?t = 0 \<and> held_in_reset ?r"
    using write_under_way [OF assms(1), of "is" "[]"] assms(2-4) by auto
  have x: "held_in_reset (dma_control_reg x) \<longrightarrow> addrb_ori x = 0" "w_cstate s = WIDLE" "same_config (regs s) (dma_control_reg x)"
    using assms(1) by (simp_all add: represents_def)
  have "same_config (regs ?t) ?r"
    using write_logs [of "is" s D] assms(2-5) x(2,3) by (auto simp: same_config_def written_def)
  note q = quiet_cycle [OF assms(6,5) t(1)] and c = this
  note q' = quiet_cycle [OF assms(7) q(1,2)]
  have "same_config (regs ?u) ?r" "outs ?u = outs_of D ?r" using q(3,4) c same_config_trans outs_of_config by metis+
  moreover have "addrb (axil_cycle D j ?u) = (if held_in_reset ?r then 0 else addrb_ori x)"
    unfolding q'(5) calculation(2) q(5) held_outs using t(2,3) x(1)
    by (elim disjE conjE) (simp_all add: held_outs)
  ultimately have "represents D (axil_cycle D j ?u) (axil_write D a d x)"
    using q' same_config_trans [OF q'(3)] outs_of_config
    by (auto simp: represents_def axil_write_def reg_write_def Let_def)
  then show ?thesis by simp
qed

lemma read_under_way:
  assumes "represents D s x" and "caught_up D s x" and "\<forall>i \<in> set is. s_aresetn i \<and> \<not> awvalid i \<and> shows_state D x i"
  defines "t \<equiv> axil_run D is s"
  shows "w_cstate t = WIDLE \<and> same_config (regs t) (dma_control_reg x) \<and> outs t = outs_of D (dma_control_reg x) \<and> caught_up D t x
    \<and> (\<forall>(a, v) \<in> set (r_log D is s). v = reg_value D x a)
    \<and> addrb t = (if held_in_reset (dma_control_reg x) then 0 else addrb_ori x + of_nat (length (filter (\<lambda>(a, v). a = 16) (r_log D is s))))"
  using assms(3) unfolding t_def
proof (induction "is" rule: rev_induct)
  case Nil
  then show ?case using assms(1,2) by (simp add: represents_def)
next
  case (snoc i js)
  let ?t = "axil_run D js s" and ?r = "dma_control_reg x"
  have IH: "w_cstate ?t = WIDLE" "same_config (regs ?t) ?r" "outs ?t = outs_of D ?r" "caught_up D ?t x"
    "\<forall>(a, v) \<in> set (r_log D js s). v = reg_value D x a"
    "addrb ?t = (if held_in_reset ?r then 0 else addrb_ori x + of_nat (length (filter (\<lambda>(a, v). a = 16) (r_log D js s))))"
    using snoc by simp_all
  have i: "s_aresetn i" "\<not> awvalid i" "shows_state D x i" using snoc.prems by simp_all
  note c = cycle_write_idle [OF i(1,2) IH(1)]
  have "regs ?t (rd_addr ?t) = reg_value D x (rd_addr ?t)"
    using IH(2,4) by (cases "status_reg (rd_addr ?t)") (auto simp: caught_up_def same_config_def reg_value_def status_reg_def)
  moreover have "addrb (axil_cycle D i ?t) = (if held_in_reset ?r then 0
      else if rd_addr ?t = 16 \<and> r_hs i ?t then addrb ?t + 1 else addrb ?t)"
    using i(1) by (simp add: axil_cycle_def next_addrb_def IH(3) held_outs)
  moreover have "outs (axil_cycle D i ?t) = outs_of D ?r" using outs_of_config [OF IH(2)] by (simp add: axil_cycle_def)
  ultimately show ?case
    using c(1) same_config_trans [OF c(2) IH(2)] caught_up_cycle [OF IH(4) i(3,1) IH(1)] IH(5,6)
    by (auto simp: collect_append)
qed

lemma read_transaction:
  assumes "represents D s x" and "caught_up D s x" and "\<forall>i \<in> set is. s_aresetn i \<and> \<not> awvalid i \<and> shows_state D x i"
    and "ar_log D is s = [reg_index a]" and "r_cstate (axil_run D is s) = RIDLE"
  shows "r_log D is s = [(reg_index a, fst (axil_read D a x))] \<and> represents D (axil_run D is s) (snd (axil_read D a x))"
proof -
  have s: "r_cstate s = RIDLE" "held_in_reset (dma_control_reg x) \<longrightarrow> addrb_ori x = 0"
    using assms(1) by (simp_all add: represents_def)
  have "length (r_log D is s) = 1" "map fst (r_log D is s) = take (length (r_log D is s)) [reg_index a]"
    using read_logs [OF _ s(1), of "is" D] assms(3-5) by auto
  then obtain v where l: "r_log D is s = [(reg_index a, v)]" by (cases "r_log D is s") auto
  with read_under_way [OF assms(1-3)] assms(5) s(2) show ?thesis
    by (simp add: axil_read_def reg_read_def represents_def)
qed

end

text \<open>
  C18. In every design, the slave carries out the transactions of \<open>Xdma_Control\<close>. Whatever time the master takes in the
  phases of a write, once it is answered and two cycles have passed, the registers, the outputs
  and the pointer of the latency memory are those of the abstract write. A read hands out
  the value of the abstract read, provided that the status registers have caught up with their
  inputs and these do not change, and leaves the slave in the state after it.
\<close>

theorem axil_transactions:
  assumes "register_design D" and "represents D s x" and "\<forall>i \<in> set is. s_aresetn i"
  shows "((\<forall>i \<in> set is. \<not> arvalid i) \<and> aw_log D is s = [reg_index a] \<and> w_log D is s = [d] \<and> w_cstate (axil_run D is s) = WIDLE
      \<and> quiet i \<and> quiet j \<longrightarrow> represents D (axil_run D (is @ [i, j]) s) (axil_write D a d x))
    \<and> (caught_up D s x \<and> (\<forall>i \<in> set is. \<not> awvalid i \<and> shows_state D x i) \<and> ar_log D is s = [reg_index a] \<and> r_cstate (axil_run D is s) = RIDLE
      \<longrightarrow> r_log D is s = [(reg_index a, fst (axil_read D a x))] \<and> represents D (axil_run D is s) (snd (axil_read D a x)))"
  using register_design.write_transaction [OF assms(1,2), of "is" a d i j]
    register_design.read_transaction [OF assms(1,2), of "is" a] assms(3) by blast

theorem axil_transactions_witness:
  "\<exists>x. represents hbm_design ex_slave x \<and> represents hbm_design (axil_run hbm_design (ex_write 0x04 64 @ [ex_idle, ex_idle]) ex_slave) (axil_write hbm_design 0x04 64 x)
    \<and> r_log hbm_design (ex_read 0x40 @ replicate 16 ex_idle) ex_slave = [(16, fst (axil_read hbm_design 0x40 x))]"
proof -
  let ?x = "\<lparr>dma_control_reg = (\<lambda>_. 0), lt_params = (\<lambda>_. reg_outputs hbm_design (\<lambda>_. 0)), starts = [], addrb_ori = 0, lat_ram = (\<lambda>_. 30),
    lat_timer_sum_wr = (\<lambda>_. 0), lat_timer_sum_rd = (\<lambda>_. 0), env_end = (\<lambda>_. (0, 0)), now = 0\<rparr>"
  let ?w = "ex_write 0x04 64" and ?r = "ex_read 0x40 @ replicate 16 ex_idle"
  have x: "represents hbm_design ex_slave ?x" "caught_up hbm_design ex_slave ?x" "shows_state hbm_design ?x ex_idle"
    by (auto simp: represents_def caught_up_def shows_state_def ex_slave_def ex_idle_def same_config_def held_in_reset_def status_reg_def reg_value_def)
  have w: "\<forall>i \<in> set ?w. s_aresetn i" "\<forall>i \<in> set ?w. \<not> arvalid i" "aw_log hbm_design ?w ex_slave = [reg_index 0x04]" "w_log hbm_design ?w ex_slave = [64]"
    "w_cstate (axil_run hbm_design ?w ex_slave) = WIDLE" "quiet ex_idle" by code_simp+
  have r: "\<forall>i \<in> set ?r. s_aresetn i" "\<forall>i \<in> set ?r. \<not> awvalid i" "ar_log hbm_design ?r ex_slave = [reg_index 0x40]"
    "r_cstate (axil_run hbm_design ?r ex_slave) = RIDLE" "reg_index 0x40 = 16" by code_simp+
  have "\<forall>i \<in> set ?r. shows_state hbm_design ?x i" using x(3) by (auto simp: ex_read_def shows_state_def)
  with axil_transactions [OF hbm.register_design_axioms x(1) w(1), of "0x04" 64 ex_idle ex_idle] axil_transactions [OF hbm.register_design_axioms x(1) r(1), of "0x40"] x w r
  show ?thesis by (intro exI [of _ ?x]) simp
qed

section \<open>The latency memory\<close>

lemma waiting:
  assumes "\<forall>x \<in> set js. s_aresetn x" and "r_cstate u = RWAIT" and "counter u = 0" and "length js \<le> 15"
  shows "r_cstate (axil_run D js u) = RWAIT \<and> counter (axil_run D js u) = of_nat (length js)"
  using assms(1,4)
proof (induction js rule: rev_induct)
  case Nil
  then show ?case using assms(2,3) by simp
next
  case (snoc x js)
  then have "(of_nat (length js) :: 4 word) \<noteq> 15"
    by (auto simp: word_unat_eq_iff unat_of_nat take_bit_nat_eq_self)
  with snoc show ?case by (simp add: axil_cycle_def r_nstate_def)
qed

lemma wait_17:
  assumes "\<forall>x \<in> set js. s_aresetn x" and "r_cstate u = RWAIT" and "counter u = 0" and "r_cstate (axil_run D js u) = RDATA"
  shows "17 \<le> length js"
proof (rule ccontr)
  assume "\<not> 17 \<le> length js"
  then consider "length js \<le> 15" | "length js = 16" by linarith
  then show False
  proof cases
    case 1
    then show ?thesis using waiting [OF assms(1-3)] assms(4) by simp
  next
    case 2
    then obtain ks x where "js = ks @ [x]" "length ks = 15" by (cases js rule: rev_cases) simp_all
    with waiting [of ks u] assms show ?thesis by (simp add: axil_cycle_def r_nstate_def)
  qed
qed

lemma status_delay:
  assumes "s_aresetn x" and "s_aresetn y" and "\<not> awvalid x" and "\<not> awvalid y" and "w_cstate u = WIDLE"
  shows "regs (axil_run D [x, y] u) 16 = ucast (doutb x)"
  using assms cycle_write_idle [of x u] by (simp add: axil_cycle_def next_regs_def)

lemma write_idle_run:
  "\<forall>x \<in> set js. s_aresetn x \<and> \<not> awvalid x \<Longrightarrow> w_cstate u = WIDLE \<Longrightarrow> w_cstate (axil_run D js u) = WIDLE"
  by (induction js arbitrary: u) (simp_all add: cycle_write_idle)

text \<open>
  C20. Reading the latency memory. Two reads of register 16 that follow each other: the memory core
  answers with a latency of 17 cycles, as it is instantiated, and two more registers are behind it.
  The wait of the slave keeps 17 cycles between the two reads; the second one returns the next
  entry if there are at least 19, and the entry of the first one again otherwise.
\<close>

theorem latency_read_spacing:
  assumes "r_hs i s" and "rd_addr s = 16" and "w_cstate s = WIDLE" and "\<not> out_hbm_reset (outs s)" and "\<not> out_start (outs s)"
    and "\<forall>x \<in> set (i # js @ [k]). s_aresetn x \<and> \<not> awvalid x"
    and "r_log D js (axil_cycle D i s) = []" and "r_hs k (axil_run D js (axil_cycle D i s))" and "rd_addr (axil_run D js (axil_cycle D i s)) = 16"
    and "\<forall>n < length js. doutb (js ! n) = m (if n < 17 then addrb s else addrb (axil_cycle D i s))"
  shows "17 \<le> length js \<and> r_log D (i # js @ [k]) s =
    [(16, regs s 16), (16, ucast (m (if 19 \<le> length js then addrb s + 1 else addrb s)))]"
proof -
  let ?u = "axil_cycle D i s"
  have i: "s_aresetn i" "\<not> awvalid i" "\<forall>x \<in> set js. s_aresetn x \<and> \<not> awvalid x" using assms(6) by simp_all
  have u: "r_cstate ?u = RWAIT" "counter ?u = 0" "addrb ?u = addrb s + 1" "w_cstate ?u = WIDLE"
    using assms(1-5) i cycle_write_idle(1) [of i s]
    by (simp_all add: axil_cycle_def r_nstate_def r_hs_def next_addrb_def)
  have l: "17 \<le> length js" using wait_17 [OF _ u(1,2), of js D] i(3) assms(8) by (simp add: r_hs_def)
  define n where "n = length js - 2"
  have "drop n js = [js ! n, js ! Suc n]"
    using l Cons_nth_drop_Suc [of n js] Cons_nth_drop_Suc [of "Suc n" js] by (simp add: n_def)
  then have js: "js = take n js @ [js ! n, js ! Suc n]" using append_take_drop_id [of n js] by simp
  have "regs (axil_run D js ?u) 16 = ucast (doutb (js ! n))"
  proof -
    have "\<forall>x \<in> {js ! n, js ! Suc n} \<union> set (take n js). s_aresetn x \<and> \<not> awvalid x"
      using i(3) l by (auto simp: n_def dest: in_set_takeD)
    then show ?thesis
      using status_delay [of "js ! n" "js ! Suc n" "axil_run D (take n js) ?u"] write_idle_run [OF _ u(4), of "take n js"]
      by (subst js) simp
  qed
  moreover have "doutb (js ! n) = m (if 19 \<le> length js then addrb s + 1 else addrb s)"
    using assms(10) l u(3) by (auto simp: n_def)
  ultimately show ?thesis using l assms(1,2,7-9) by (simp add: collect_append)
qed

text \<open>A master that reads as soon as the slave lets it gets the first entry twice.\<close>

theorem latency_read_spacing_witness:
  "r_log hbm_design (ex_idle # (replicate 16 ex_idle @ [ex_idle\<lparr>arvalid := True, araddr := 0x40\<rparr>]) @ [ex_idle])
    (ex_slave\<lparr>r_cstate := RDATA, rd_addr := 16\<rparr>) = [(16, 30), (16, 30)]"
proof -
  let ?s = "ex_slave\<lparr>r_cstate := RDATA, rd_addr := 16\<rparr>"
  let ?js = "replicate 16 ex_idle @ [ex_idle\<lparr>arvalid := True, araddr := 0x40\<rparr>]"
  have "r_hs ex_idle ?s" "rd_addr ?s = 16" "w_cstate ?s = WIDLE" "\<not> out_hbm_reset (outs ?s)" "\<not> out_start (outs ?s)"
    "\<forall>x \<in> set (ex_idle # ?js @ [ex_idle]). s_aresetn x \<and> \<not> awvalid x" "r_log hbm_design ?js (axil_cycle hbm_design ex_idle ?s) = []"
    "r_hs ex_idle (axil_run hbm_design ?js (axil_cycle hbm_design ex_idle ?s))" "rd_addr (axil_run hbm_design ?js (axil_cycle hbm_design ex_idle ?s)) = 16"
    "regs ?s 16 = 30" "addrb ?s = 0" "length ?js = 17" by code_simp+
  moreover have "doutb (?js ! n) = (\<lambda>a. 30 + ucast a) (if n < 17 then addrb ?s else addrb (axil_cycle hbm_design ex_idle ?s))" if "n < length ?js" for n
    using that by (auto simp: nth_append ex_idle_def ex_slave_def)
  ultimately show ?thesis
    using latency_read_spacing [where D = hbm_design and i = ex_idle and s = ?s and js = ?js and k = ex_idle and m = "\<lambda>a. 30 + ucast a"] by simp
qed

end
