(* ===== verification/Axi_Address.thy ===== *)
theory Axi_Address
  imports Xdma_Control Clocked
begin

text \<open>
  The part both traffic generators have in common: while an engine sends addresses, it raises the
  address, moves its offset by the stride whenever the memory takes one, and stops after the
  configured number. The locale is the contract of such an address channel; the read and the
  write engine interpret it.
\<close>

section \<open>Widths\<close>

text \<open>
  The modules take the widths of addresses, burst lengths and data as parameters, the model as
  types. \<open>clog2\<close> is the system function \<open>$clog2\<close>; a beat carries \<open>2 ^ beat_bits\<close> bytes.
\<close>

fun clog2 :: "nat \<Rightarrow> nat" where
  "clog2 n = (if n \<le> 1 then 0 else Suc (clog2 ((n + 1) div 2)))"

declare clog2.simps [simp del]

definition beat_bits :: "'d::len itself \<Rightarrow> nat" where
  "beat_bits w = clog2 (LENGTH('d) div 8)"

lemma beat_bits_eq: "beat_bits TYPE(256) = 5" "beat_bits TYPE(512) = 6"
  by (simp_all add: beat_bits_def clog2.simps)

section \<open>Addresses\<close>

text \<open>The address of the block \<open>k\<close> strides into the working set.\<close>

definition block_addr :: "'a::len lt_param \<Rightarrow> nat \<Rightarrow> 'a word" where
  "block_addr p k = lp_initial_addr p
     + (of_nat k * ucast (lp_stride p) AND ucast (lp_work_group_size p - 1))"

definition near_block :: "'a::len lt_param \<Rightarrow> nat \<Rightarrow> 'a word \<Rightarrow> bool" where
  "near_block p k a \<longleftrightarrow> a = block_addr p k \<or> 0 < k \<and> a = block_addr p (k - 1)"

lemma near_block_in_working_set:
  "near_block p k a \<Longrightarrow> a - lp_initial_addr p \<le> ucast (lp_work_group_size p - 1)"
  by (auto simp: near_block_def block_addr_def word_and_le1)

text \<open>The last index of a run, in the 64-bit arithmetic of the engines.\<close>

lemma unat_of_nat_u64: "n < 2 ^ 64 \<Longrightarrow> unat (of_nat n :: u64) = n"
  by (simp only: unat_of_nat) (simp add: take_bit_nat_eq_self)

lemma of_nat_eq_u64: "m < 2 ^ 64 \<Longrightarrow> n < 2 ^ 64 \<Longrightarrow> (of_nat m :: u64) = of_nat n \<longleftrightarrow> m = n"
  by (metis unat_of_nat_u64)

lemma pred_of_nat: "0 < n \<Longrightarrow> of_nat n - 1 = (of_nat (n - 1) :: u64)"
  by (simp add: of_nat_diff)

lemma last_index_eq:
  assumes "k < n" and "n < 2 ^ 64"
  shows "(of_nat k :: u64) = of_nat n - 1 \<longleftrightarrow> Suc k = n"
proof -
  have "0 < n" "k < 2 ^ 64" "n - 1 < 2 ^ 64" using assms by simp_all
  then show ?thesis unfolding pred_of_nat [OF \<open>0 < n\<close>] of_nat_eq_u64 [OF \<open>k < 2 ^ 64\<close> \<open>n - 1 < 2 ^ 64\<close>]
    using assms(1) by linarith
qed

lemma last_index_le:
  assumes "k < n" and "n < 2 ^ 64"
  shows "(of_nat n - 1 :: u64) \<le> of_nat k \<longleftrightarrow> Suc k = n"
proof -
  have "unat (of_nat n - 1 :: u64) = n - 1" "unat (of_nat k :: u64) = k"
    using assms pred_of_nat [of n] unat_of_nat_u64 [of "n - 1"] unat_of_nat_u64 [of k] by auto
  then show ?thesis unfolding word_le_nat_alt using assms by linarith
qed

section \<open>The contract\<close>

locale address_channel =
  fixes cycle :: "'i \<Rightarrow> 's \<Rightarrow> 's"
    and up :: "'i \<Rightarrow> bool" and ready :: "'i \<Rightarrow> bool"
    and begun :: "'a::len lt_param \<Rightarrow> 's \<Rightarrow> bool" and sending :: "'s \<Rightarrow> bool" and resting :: "'s \<Rightarrow> bool" and idle :: "'s \<Rightarrow> bool"
    and valid :: "'s \<Rightarrow> bool" and addr :: "'s \<Rightarrow> 'a word"
    and index :: "'s \<Rightarrow> u64" and offset :: "'s \<Rightarrow> 'a word"
    and holds :: "'a lt_param \<Rightarrow> 's \<Rightarrow> bool" and count :: "'a lt_param \<Rightarrow> nat"
  assumes begin_cycle: "begun p s \<Longrightarrow> up i \<Longrightarrow> holds p (cycle i s) \<and> sending (cycle i s) \<and> index (cycle i s) = 0
      \<and> offset (cycle i s) = 0 \<and> \<not> valid (cycle i s)"
    and begun_quiet: "begun p s \<Longrightarrow> \<not> valid s \<and> \<not> resting s \<and> \<not> sending s \<and> \<not> idle s"
    and wait_cycle: "sending s \<Longrightarrow> holds p s \<Longrightarrow> up i \<Longrightarrow> \<not> (ready i \<and> valid s) \<Longrightarrow>
      sending (cycle i s) \<and> valid (cycle i s) \<and> index (cycle i s) = index s \<and> offset (cycle i s) = offset s
      \<and> addr (cycle i s) = lp_initial_addr p + (offset s AND ucast (lp_work_group_size p - 1))"
    and take_cycle: "sending s \<Longrightarrow> holds p s \<Longrightarrow> up i \<Longrightarrow> ready i \<Longrightarrow> valid s \<Longrightarrow> index s = of_nat k \<Longrightarrow> k < count p \<Longrightarrow>
      index (cycle i s) = of_nat (Suc k) \<and> offset (cycle i s) = offset s + ucast (lp_stride p)
      \<and> addr (cycle i s) = lp_initial_addr p + (offset s AND ucast (lp_work_group_size p - 1))
      \<and> (sending (cycle i s) \<longleftrightarrow> Suc k \<noteq> count p) \<and> (valid (cycle i s) \<longleftrightarrow> Suc k \<noteq> count p)
      \<and> (resting (cycle i s) \<longleftrightarrow> Suc k = count p)"
    and rest_cycle: "resting s \<Longrightarrow> \<not> idle s \<Longrightarrow> up i \<Longrightarrow> \<not> valid s \<Longrightarrow>
      resting (cycle i s) \<and> \<not> sending (cycle i s) \<and> \<not> valid (cycle i s)"
    and holds_cycle: "holds p s \<Longrightarrow> up i \<Longrightarrow> sending s \<or> resting s \<and> \<not> idle s \<Longrightarrow> holds p (cycle i s)"
    and sending_active: "sending s \<Longrightarrow> \<not> idle s \<and> \<not> resting s"
begin

definition live :: "'i \<Rightarrow> 's \<Rightarrow> bool" where
  "live i s \<longleftrightarrow> up i \<and> \<not> idle s"

definition taken :: "'i \<Rightarrow> 's \<Rightarrow> 'a word list" where
  "taken i s = (if ready i \<and> valid s then [addr s] else [])"

text \<open>What holds while addresses are sent and after, \<open>tr\<close> being the addresses taken so far.\<close>

definition addr_inv :: "'a lt_param \<Rightarrow> 'a word list \<Rightarrow> 's \<Rightarrow> bool" where
  "addr_inv p tr s \<longleftrightarrow> holds p s \<and> (\<forall>k < length tr. near_block p k (tr ! k))
     \<and> (if sending s
        then length tr < count p \<and> index s = of_nat (length tr) \<and> offset s = of_nat (length tr) * ucast (lp_stride p)
          \<and> (valid s \<longrightarrow> near_block p (length tr) (addr s))
        else resting s \<and> length tr = count p \<and> \<not> valid s)"

text \<open>With a memory that is always ready the address is always one request late.\<close>

definition late_inv :: "'a lt_param \<Rightarrow> 'a word list \<Rightarrow> 's \<Rightarrow> bool" where
  "late_inv p tr s \<longleftrightarrow> tr = map (\<lambda>k. block_addr p (k - 1)) [0..<length tr]
     \<and> (sending s \<longrightarrow> (if valid s then addr s = block_addr p (length tr - 1) else tr = []))"

lemma addr_inv_begin:
  assumes "begun p s" and "up i" and "0 < count p"
  shows "addr_inv p [] (cycle i s)" and "late_inv p [] (cycle i s)" and "taken i s = []"
  using begin_cycle [OF assms(1,2)] begun_quiet [OF assms(1)] assms(3)
  by (simp_all add: addr_inv_def late_inv_def taken_def)

lemma addr_inv_cycle:
  assumes inv: "addr_inv p tr s" and up: "up i" and "\<not> idle s"
  shows "addr_inv p (tr @ taken i s) (cycle i s)"
proof (cases "sending s")
  case False
  with inv have r: "resting s" "\<not> valid s" "holds p s" by (simp_all add: addr_inv_def)
  with inv rest_cycle [OF r(1) assms(3) up r(2)] holds_cycle [OF r(3) up] False assms(3) show ?thesis
    by (simp add: addr_inv_def taken_def)
next
  case True
  with inv have h: "holds p s" and k: "length tr < count p" "index s = of_nat (length tr)"
    "offset s = of_nat (length tr) * ucast (lp_stride p)" and tr: "\<forall>k < length tr. near_block p k (tr ! k)"
    and v: "valid s \<longrightarrow> near_block p (length tr) (addr s)"
    by (simp_all add: addr_inv_def)
  have h': "holds p (cycle i s)" using holds_cycle [OF h up] True by simp
  show ?thesis
  proof (cases "ready i \<and> valid s")
    case False
    with wait_cycle [OF True h up this] h' k tr show ?thesis
      by (simp add: addr_inv_def taken_def near_block_def block_addr_def)
  next
    case hs: True
    then have "taken i s = [addr s]" "near_block p (length tr) (addr s)" using v by (simp_all add: taken_def)
    with tr have "\<forall>k < Suc (length tr). near_block p k ((tr @ taken i s) ! k)"
      by (simp add: less_Suc_eq nth_append)
    with take_cycle [OF True h up _ _ k(2,1)] hs h' k \<open>taken i s = _\<close> show ?thesis
      by (auto simp: addr_inv_def near_block_def block_addr_def algebra_simps)
  qed
qed

lemma late_inv_cycle:
  assumes "addr_inv p tr s" and "late_inv p tr s" and up: "up i" and "ready i" and "\<not> idle s"
  shows "late_inv p (tr @ taken i s) (cycle i s)"
proof (cases "sending s")
  case False
  with assms(1) have r: "resting s" "\<not> valid s" by (simp_all add: addr_inv_def)
  with rest_cycle [OF r(1) assms(5) up r(2)] assms(2) show ?thesis by (simp add: late_inv_def taken_def)
next
  case True
  with assms(1) have h: "holds p s" and k: "length tr < count p" "index s = of_nat (length tr)"
    "offset s = of_nat (length tr) * ucast (lp_stride p)" by (simp_all add: addr_inv_def)
  show ?thesis
  proof (cases "valid s")
    case False
    with wait_cycle [OF True h up] k assms(2) True show ?thesis by (simp add: late_inv_def taken_def block_addr_def)
  next
    case hs: True
    with take_cycle [OF True h up assms(4) hs k(2,1)] k assms(2,4) True show ?thesis
      by (simp add: late_inv_def taken_def block_addr_def)
  qed
qed

lemma trace_inv:
  assumes "trace cycle live taken s tr t" and "begun p s" and "0 < count p"
  shows "t = s \<and> tr = [] \<or> addr_inv p tr t"
  using assms(1)
proof (induction rule: trace.induct)
  case (trace_cycle tr t i)
  then have "up i" "\<not> idle t" by (simp_all add: live_def)
  then show ?case
    using trace_cycle.IH addr_inv_begin [OF assms(2) _ assms(3), of i] addr_inv_cycle [of p tr t i] by auto
qed simp

lemma requests:
  assumes "trace cycle live taken s tr t" and "begun p s" and "0 < count p"
  shows "length tr \<le> count p" and "resting t \<Longrightarrow> length tr = count p"
    and "\<forall>k < length tr. near_block p k (tr ! k)"
proof -
  from trace_inv [OF assms] have "tr = [] \<and> \<not> resting t \<or> addr_inv p tr t" using begun_quiet [OF assms(2)] by auto
  then show "length tr \<le> count p" "resting t \<Longrightarrow> length tr = count p" "\<forall>k < length tr. near_block p k (tr ! k)"
    by (auto simp: addr_inv_def sending_active split: if_splits)
qed

lemma requests_in_working_set:
  assumes "trace cycle live taken s tr t" and "begun p s" and "0 < count p" and "a \<in> set tr"
  shows "a - lp_initial_addr p \<le> ucast (lp_work_group_size p - 1)"
  using requests(3) [OF assms(1-3)] assms(4) by (metis in_set_conv_nth near_block_in_working_set)

end

end
