(* ===== verification/Rd_Engine.thy ===== *)
theory Rd_Engine
  imports Axi_Address
begin

text \<open>
  The read engine of a memory channel, \<open>hw/rtl/u280_hbm/rd_engine.sv\<close>, clock cycle by clock cycle,
  for any width of addresses: \<open>hbm_benchmark.sv\<close> gives it 33 bits in the HBM design and 34 in the
  DDR design, whose engines have the same text. A step is one rising edge of the clock: every non-blocking assignment reads the registers
  before the edge. The memory controller is the environment: its handshake signals are the inputs
  of every cycle, and the theorems hold for every behaviour of it that they name.
\<close>

section \<open>Registers and inputs\<close>

datatype rd_state = RD_IDLE | RD_STARTED | RD_LATENCY | RD_LAT_VALID | RD_LAT_RESP
  | RD_TH_VALID | RD_TH_RESP | RD_END

record (overloaded) 'a rd_engine =
  started :: bool
  lt_params_r :: "'a lt_param"
  work_group_size :: u32
  stride :: u32
  num_mem_ops :: u32
  mem_burst_size :: u16
  init_addr :: "'a word"
  isRdLatencyTest :: bool
  mem_op_index :: u64
  offset_addr :: "'a word"
  work_group_size_minus_1 :: u32
  num_mem_ops_r :: u64
  num_mem_ops_minus_1 :: u64
  read_resp_lasts :: u64
  guard_ARVALID :: bool
  m_axi_ARADDR :: "'a word"
  end_of_exec :: bool
  lat_timer_sum :: u64
  lat_timer_valid :: bool
  lat_timer :: u16
  state :: rd_state

record (overloaded) 'a rd_in =
  rst_n :: bool
  start :: bool
  lt_params_in :: "'a lt_param"
  m_axi_ARREADY :: bool
  m_axi_RVALID :: bool
  m_axi_RLAST :: bool

section \<open>One clock cycle\<close>

text \<open>The memory takes an address in the cycles in which it is ready and the address is valid.\<close>

definition ar_handshake :: "'a::len rd_in \<Rightarrow> 'a rd_engine \<Rightarrow> bool" where
  "ar_handshake i s \<longleftrightarrow> m_axi_ARREADY i \<and> guard_ARVALID s"

definition last_beat :: "'a::len rd_in \<Rightarrow> bool" where
  "last_beat i \<longleftrightarrow> m_axi_RLAST i \<and> m_axi_RVALID i"

definition next_ARADDR :: "'a::len rd_engine \<Rightarrow> 'a word" where
  "next_ARADDR s = init_addr s + (offset_addr s AND ucast (work_group_size_minus_1 s))"

text \<open>
  The state machine that drives the address channel. The four defaults come first, then the
  assignments of the current state override them.
\<close>

definition rd_fsm :: "'a::len rd_in \<Rightarrow> 'a rd_engine \<Rightarrow> 'a rd_engine" where
  "rd_fsm i s =
     (if \<not> rst_n i then s\<lparr>state := RD_IDLE\<rparr>
      else let d = s\<lparr>end_of_exec := False, guard_ARVALID := False, lat_timer_valid := False,
                     lat_timer_sum := lat_timer_sum s + 1\<rparr>
      in case state s of
        RD_IDLE \<Rightarrow>
          (if started s
           then d\<lparr>lat_timer_sum := lat_timer_sum s,
                  work_group_size := lp_work_group_size (lt_params_r s),
                  stride := lp_stride (lt_params_r s),
                  num_mem_ops := ucast (lp_num_mem_ops (lt_params_r s)),
                  mem_burst_size := ucast (lp_mem_burst_size (lt_params_r s)),
                  init_addr := lp_initial_addr (lt_params_r s),
                  isRdLatencyTest := lp_latency_test_enable (lt_params_r s),
                  state := RD_STARTED\<rparr>
           else d\<lparr>lat_timer_sum := lat_timer_sum s\<rparr>)
      | RD_STARTED \<Rightarrow>
          d\<lparr>work_group_size_minus_1 := work_group_size s - 1,
            num_mem_ops_r := ucast (num_mem_ops s),
            num_mem_ops_minus_1 := ucast (num_mem_ops s) - 1,
            mem_op_index := 0, offset_addr := 0, lat_timer_sum := 0,
            state := (if isRdLatencyTest s then RD_LAT_VALID else RD_TH_VALID)\<rparr>
      | RD_LAT_VALID \<Rightarrow>
          (let d = d\<lparr>offset_addr := offset_addr s + ucast (stride s), m_axi_ARADDR := next_ARADDR s,
                     guard_ARVALID := True\<rparr>
           in if ar_handshake i s
              then d\<lparr>mem_op_index := mem_op_index s + 1, lat_timer := 0, guard_ARVALID := False,
                     state := RD_LAT_RESP\<rparr>
              else d)
      | RD_LAT_RESP \<Rightarrow>
          (let d = d\<lparr>lat_timer := lat_timer s + 1\<rparr>
           in if last_beat i
              then d\<lparr>lat_timer_valid := True,
                     state := (if mem_op_index s = num_mem_ops_r s then RD_END else RD_LAT_VALID)\<rparr>
              else d)
      | RD_TH_VALID \<Rightarrow>
          (let d = d\<lparr>guard_ARVALID := True, m_axi_ARADDR := next_ARADDR s\<rparr>
           in if ar_handshake i s
              then (let d = d\<lparr>offset_addr := offset_addr s + ucast (stride s),
                              mem_op_index := mem_op_index s + 1\<rparr>
                    in if num_mem_ops_minus_1 s \<le> mem_op_index s
                       then d\<lparr>state := RD_TH_RESP, guard_ARVALID := False\<rparr>
                       else d)
              else d)
      | RD_TH_RESP \<Rightarrow> (if read_resp_lasts s = ucast (num_mem_ops s) then d\<lparr>state := RD_END\<rparr> else d)
      | RD_END \<Rightarrow> d\<lparr>end_of_exec := True, state := RD_IDLE\<rparr>
      | RD_LATENCY \<Rightarrow> d\<lparr>state := RD_IDLE\<rparr>)"

text \<open>One edge: the state machine and the four small processes beside it.\<close>

definition rd_cycle :: "'a::len rd_in \<Rightarrow> 'a rd_engine \<Rightarrow> 'a rd_engine" where
  "rd_cycle i s =
     (rd_fsm i s)\<lparr>started := rst_n i \<and> start i, lt_params_r := lt_params_in i,
       read_resp_lasts := (if started s then 0 else read_resp_lasts s + of_bool (last_beat i))\<rparr>"

text \<open>
  The burst length goes out beside the address; it follows the burst size by a cycle and nothing in the
  engine reads it. Its width and that of the data are those of the ports.
\<close>

definition next_ARLEN :: "'d::len itself \<Rightarrow> 'a::len rd_engine \<Rightarrow> 'l::len word" where
  "next_ARLEN w s = ucast (drop_bit (beat_bits w) (mem_burst_size s) - 1)"

section \<open>Runs\<close>

text \<open>The addresses the memory takes during a run, and the latencies the engine hands out.\<close>

definition ar_taken :: "'a::len rd_in \<Rightarrow> 'a rd_engine \<Rightarrow> 'a word list" where
  "ar_taken i s = (if ar_handshake i s then [m_axi_ARADDR s] else [])"

definition logged :: "'a::len rd_engine \<Rightarrow> u16 list" where
  "logged s = (if lat_timer_valid s then [lat_timer s] else [])"

abbreviation rd_run :: "'a::len rd_in list \<Rightarrow> 'a rd_engine \<Rightarrow> 'a rd_engine" where
  "rd_run \<equiv> fold rd_cycle"

abbreviation rd_addrs :: "'a::len rd_in list \<Rightarrow> 'a rd_engine \<Rightarrow> 'a word list" where
  "rd_addrs \<equiv> collect rd_cycle ar_taken"

abbreviation rd_log :: "'a::len rd_in list \<Rightarrow> 'a rd_engine \<Rightarrow> u16 list" where
  "rd_log \<equiv> collect rd_cycle (\<lambda>i s. logged (rd_cycle i s))"

text \<open>
  The engine between two visits of the idle state, with the addresses taken so far: the memory
  may do anything in every cycle.
\<close>

definition rd_live :: "'a::len rd_in \<Rightarrow> 'a rd_engine \<Rightarrow> bool" where
  "rd_live i s \<longleftrightarrow> rst_n i \<and> state s \<noteq> RD_IDLE"

abbreviation rd_trace :: "'a::len rd_engine \<Rightarrow> 'a word list \<Rightarrow> 'a rd_engine \<Rightarrow> bool" where
  "rd_trace \<equiv> trace rd_cycle rd_live ar_taken"

text \<open>The engine has taken its parameters over and begins.\<close>

definition launched :: "'a::len lt_param \<Rightarrow> 'a rd_engine \<Rightarrow> bool" where
  "launched p s \<longleftrightarrow> state s = RD_STARTED \<and> \<not> guard_ARVALID s \<and> \<not> lat_timer_valid s \<and> read_resp_lasts s = 0
     \<and> work_group_size s = lp_work_group_size p \<and> stride s = lp_stride p
     \<and> num_mem_ops s = ucast (lp_num_mem_ops p) \<and> init_addr s = lp_initial_addr p
     \<and> isRdLatencyTest s = lp_latency_test_enable p"

definition run_length :: "'a::len lt_param \<Rightarrow> nat" where
  "run_length p = unat (ucast (lp_num_mem_ops p) :: u32)"

section \<open>Single cycles\<close>

lemma idle_launches:
  assumes "state s = RD_IDLE" and "started s" and "rst_n i"
  shows "launched (lt_params_r s) (rd_cycle i s)"
  using assms by (simp add: launched_def rd_cycle_def rd_fsm_def)

text \<open>What stays fixed from the second cycle of a run on.\<close>

definition loaded :: "'a::len lt_param \<Rightarrow> 'a rd_engine \<Rightarrow> bool" where
  "loaded p s \<longleftrightarrow> work_group_size_minus_1 s = lp_work_group_size p - 1 \<and> stride s = lp_stride p
     \<and> num_mem_ops s = ucast (lp_num_mem_ops p) \<and> init_addr s = lp_initial_addr p
     \<and> num_mem_ops_r s = of_nat (run_length p) \<and> num_mem_ops_minus_1 s = of_nat (run_length p) - 1"

lemma loaded_started:
  assumes "launched p s" and "rst_n i"
  shows "loaded p (rd_cycle i s)" and "mem_op_index (rd_cycle i s) = 0" and "offset_addr (rd_cycle i s) = 0"
    and "lat_timer_sum (rd_cycle i s) = 0" and "\<not> guard_ARVALID (rd_cycle i s)" and "\<not> lat_timer_valid (rd_cycle i s)"
    and "state (rd_cycle i s) = (if lp_latency_test_enable p then RD_LAT_VALID else RD_TH_VALID)"
    and "ar_taken i s = []"
proof -
  have "ucast (ucast n :: u32) = (of_nat (unat (ucast n :: u32)) :: u64)" for n :: u64
    by (simp add: unsigned_of_nat)
  then show "loaded p (rd_cycle i s)" "mem_op_index (rd_cycle i s) = 0" "offset_addr (rd_cycle i s) = 0"
    "lat_timer_sum (rd_cycle i s) = 0" "\<not> guard_ARVALID (rd_cycle i s)" "\<not> lat_timer_valid (rd_cycle i s)"
    "state (rd_cycle i s) = (if lp_latency_test_enable p then RD_LAT_VALID else RD_TH_VALID)" "ar_taken i s = []"
    using assms by (simp_all add: launched_def loaded_def run_length_def rd_cycle_def rd_fsm_def ar_taken_def ar_handshake_def)
qed

lemma loaded_cycle:
  "loaded p s \<Longrightarrow> rst_n i \<Longrightarrow> state s \<noteq> RD_IDLE \<Longrightarrow> state s \<noteq> RD_STARTED \<Longrightarrow> loaded p (rd_cycle i s)"
  by (auto simp: loaded_def rd_cycle_def rd_fsm_def Let_def split: rd_state.split)

lemma next_ARADDR_loaded:
  "loaded p s \<Longrightarrow> offset_addr s = of_nat k * ucast (lp_stride p) \<Longrightarrow> next_ARADDR s = block_addr p k"
  by (simp add: loaded_def next_ARADDR_def block_addr_def)

text \<open>An engine with two operations ahead of it, and the signals of a memory, for examples.\<close>

definition ex_params :: "bool \<Rightarrow> 33 lt_param" where
  "ex_params le = \<lparr>lp_work_group_size = 256, lp_stride = 64, lp_num_mem_ops = 2, lp_mem_burst_size = 32,
     lp_initial_addr = 0, lp_latency_test_enable = le\<rparr>"

definition ex_engine :: "bool \<Rightarrow> 33 rd_engine" where
  "ex_engine le = \<lparr>started = False, lt_params_r = ex_params le, work_group_size = 256, stride = 64, num_mem_ops = 2,
     mem_burst_size = 32, init_addr = 0, isRdLatencyTest = le, mem_op_index = 0, offset_addr = 0,
     work_group_size_minus_1 = 0, num_mem_ops_r = 0, num_mem_ops_minus_1 = 0, read_resp_lasts = 0,
     guard_ARVALID = False, m_axi_ARADDR = 0, end_of_exec = False, lat_timer_sum = 0,
     lat_timer_valid = False, lat_timer = 0, state = RD_STARTED\<rparr>"

definition mem_in :: "bool \<Rightarrow> bool \<Rightarrow> 33 rd_in" where
  "mem_in rdy lb = \<lparr>rst_n = True, start = False, lt_params_in = ex_params True, m_axi_ARREADY = rdy,
     m_axi_RVALID = lb, m_axi_RLAST = lb\<rparr>"

lemma ex_launched: "launched (ex_params le) (ex_engine le)"
  by (simp add: launched_def ex_engine_def ex_params_def)

lemma ex_run_length: "run_length (ex_params le) = 2"
  by (simp add: run_length_def ex_params_def)

section \<open>Throughput runs: what the memory is asked\<close>

lemma run_length_less: "run_length p < 2 ^ 32" "run_length p < 2 ^ 64"
proof -
  show "run_length p < 2 ^ 32" using unsigned_less [of "ucast (lp_num_mem_ops p) :: u32"] by (simp add: run_length_def)
  then show "run_length p < 2 ^ 64" by simp
qed

text \<open>A cycle that raises or keeps the address without a handshake.\<close>

lemma th_wait:
  assumes "state s = RD_TH_VALID" and "rst_n i" and "\<not> ar_handshake i s"
  shows "state (rd_cycle i s) = RD_TH_VALID" "mem_op_index (rd_cycle i s) = mem_op_index s"
    "offset_addr (rd_cycle i s) = offset_addr s" "m_axi_ARADDR (rd_cycle i s) = next_ARADDR s"
    "guard_ARVALID (rd_cycle i s)"
  using assms by (simp_all add: rd_cycle_def rd_fsm_def Let_def)

lemma th_take:
  assumes "state s = RD_TH_VALID" and "rst_n i" and "ar_handshake i s"
  shows "mem_op_index (rd_cycle i s) = mem_op_index s + 1"
    "offset_addr (rd_cycle i s) = offset_addr s + ucast (stride s)" "m_axi_ARADDR (rd_cycle i s) = next_ARADDR s"
    "state (rd_cycle i s) = (if num_mem_ops_minus_1 s \<le> mem_op_index s then RD_TH_RESP else RD_TH_VALID)"
    "guard_ARVALID (rd_cycle i s) \<longleftrightarrow> \<not> num_mem_ops_minus_1 s \<le> mem_op_index s"
  using assms by (simp_all add: rd_cycle_def rd_fsm_def Let_def)

lemma th_rest:
  assumes "state s \<in> {RD_TH_RESP, RD_END}" and "rst_n i" and "\<not> guard_ARVALID s"
  shows "state (rd_cycle i s) \<in> {RD_TH_RESP, RD_END, RD_IDLE}" "\<not> guard_ARVALID (rd_cycle i s)" "ar_taken i s = []"
  using assms by (auto simp: rd_cycle_def rd_fsm_def Let_def ar_taken_def ar_handshake_def)

definition rd_begun :: "'a::len lt_param \<Rightarrow> 'a rd_engine \<Rightarrow> bool" where
  "rd_begun p s \<longleftrightarrow> launched p s \<and> \<not> lp_latency_test_enable p"

definition rd_sending :: "'a::len rd_engine \<Rightarrow> bool" where
  "rd_sending s \<longleftrightarrow> state s = RD_TH_VALID"

definition rd_resting :: "'a::len rd_engine \<Rightarrow> bool" where
  "rd_resting s \<longleftrightarrow> state s \<in> {RD_TH_RESP, RD_END, RD_IDLE}"

lemmas rd_phases = rd_sending_def rd_resting_def rd_begun_def

interpretation ra: address_channel rd_cycle rst_n m_axi_ARREADY rd_begun rd_sending rd_resting
  "\<lambda>s. state s = RD_IDLE" guard_ARVALID m_axi_ARADDR mem_op_index offset_addr loaded run_length
proof (unfold_locales, goal_cases)
  case (1 p s i)
  then show ?case using loaded_started [of p s i] by (simp add: rd_phases)
next
  case (2 p s)
  then show ?case by (simp add: rd_phases launched_def)
next
  case (3 s p i)
  then show ?case using th_wait [of s i] by (simp add: rd_phases ar_handshake_def next_ARADDR_def loaded_def)
next
  case (4 s p i k)
  then have "num_mem_ops_minus_1 s \<le> mem_op_index s \<longleftrightarrow> Suc k = run_length p"
    using last_index_le [of k "run_length p"] run_length_less(2) [of p] by (simp add: loaded_def)
  with 4 show ?case using th_take [of s i] by (simp add: rd_phases ar_handshake_def next_ARADDR_def loaded_def)
next
  case (5 s i)
  then show ?case using th_rest [of s i] by (auto simp: rd_phases)
next
  case (6 p s i)
  then show ?case using loaded_cycle [of p s i] by (auto simp: rd_phases)
next
  case (7 s)
  then show ?case by (simp add: rd_phases)
qed

lemma ra_observations: "ra.live = rd_live" "ra.taken = ar_taken"
  by (simp_all add: fun_eq_iff ra.live_def rd_live_def ra.taken_def ar_taken_def ar_handshake_def)

lemmas rd_requests = ra.requests [unfolded ra_observations]
lemmas rd_requests_in_working_set = ra.requests_in_working_set [unfolded ra_observations]

text \<open>
  In a throughput run the memory is asked exactly as often as the parameters say, 32 bits of
  the count being used, whatever it does: never more often while addresses are being sent, and
  that often once the engine waits for the responses or has finished. The request number \<open>k\<close> goes
  to the block number \<open>k\<close> or still to the one before: the address register is a cycle late after
  an accepted request.
\<close>

theorem rd_throughput_requests:
  assumes "rd_trace s tr t" and "launched p s" and "\<not> lp_latency_test_enable p" and "0 < run_length p"
  shows "length tr \<le> run_length p \<and> (state t \<in> {RD_TH_RESP, RD_END, RD_IDLE} \<longrightarrow> length tr = run_length p)
    \<and> (\<forall>k < length tr. tr ! k = block_addr p k \<or> 0 < k \<and> tr ! k = block_addr p (k - 1))"
  using rd_requests [OF assms(1), of p] assms(2-4) by (auto simp: rd_phases near_block_def)

theorem rd_throughput_requests_witness:
  "length (rd_addrs (replicate 4 (mem_in True False)) (ex_engine False)) = 2
    \<and> state (rd_run (replicate 4 (mem_in True False)) (ex_engine False)) = RD_TH_RESP"
proof -
  let ?is = "replicate 4 (mem_in True False)"
  have "busy rd_cycle rd_live ?is (ex_engine False)" "state (rd_run ?is (ex_engine False)) = RD_TH_RESP"
    by code_simp+
  with rd_throughput_requests [OF trace_run ex_launched, of ?is False] show ?thesis
    by (simp add: ex_run_length) (simp add: ex_params_def)
qed

section \<open>Throughput runs: when they end\<close>

definition lasts :: "'a::len rd_in list \<Rightarrow> nat" where
  "lasts is = length (filter last_beat is)"

lemma th_resp_cycle:
  assumes "state s \<in> {RD_TH_VALID, RD_TH_RESP}" and "rst_n i"
    and "state s = RD_TH_RESP \<longrightarrow> read_resp_lasts s \<noteq> ucast (num_mem_ops s)"
  shows "state (rd_cycle i s) \<in> {RD_TH_VALID, RD_TH_RESP}" and "lat_timer_sum (rd_cycle i s) = lat_timer_sum s + 1"
  using assms by (auto simp: rd_cycle_def rd_fsm_def Let_def)

lemma resp_count_cycle:
  "started (rd_cycle i s) \<longleftrightarrow> rst_n i \<and> start i"
  "\<not> started s \<Longrightarrow> read_resp_lasts (rd_cycle i s) = read_resp_lasts s + of_bool (last_beat i)"
  by (simp_all add: rd_cycle_def)

lemma lasts_snoc: "lasts (is @ [i]) = lasts is + of_bool (last_beat i)"
  by (simp add: lasts_def)

lemma resp_count_differs:
  assumes "loaded p s" and "n < run_length p" and "read_resp_lasts s = of_nat n"
  shows "read_resp_lasts s \<noteq> ucast (num_mem_ops s)"
proof -
  have "ucast (num_mem_ops s) = (of_nat (run_length p) :: u64)"
    using assms(1) by (simp add: loaded_def run_length_def unsigned_of_nat)
  moreover have "unat (of_nat n :: u64) = n" "unat (of_nat (run_length p) :: u64) = run_length p"
    using assms(2) run_length_less [of p] by (simp_all only: unat_of_nat) (simp_all add: take_bit_nat_eq_self)
  ultimately show ?thesis using assms(2,3) by (metis less_irrefl)
qed

definition th_progress :: "'a::len lt_param \<Rightarrow> 'a rd_in list \<Rightarrow> 'a word list \<Rightarrow> 'a rd_engine \<Rightarrow> bool" where
  "th_progress p is tr t \<longleftrightarrow> ra.addr_inv p tr t \<and> state t \<in> {RD_TH_VALID, RD_TH_RESP} \<and> \<not> started t
     \<and> read_resp_lasts t = of_nat (lasts is) \<and> lat_timer_sum t = of_nat (length is - 1)
     \<and> ((\<forall>i \<in> set is. m_axi_ARREADY i) \<longrightarrow> ra.late_inv p tr t)"

lemma th_progress_launched:
  assumes "launched p s" and "\<not> lp_latency_test_enable p" and "0 < run_length p" and "\<not> started s"
    and "rst_n i" and "\<not> start i"
  shows "th_progress p [i] (rd_addrs [i] s) (rd_run [i] s)"
  using ra.addr_inv_begin [of p s i] loaded_started [OF assms(1,5)] resp_count_cycle [where i = i and s = s] assms
  by (simp add: th_progress_def lasts_def launched_def rd_begun_def ra_observations)

lemma th_progress_cycle:
  assumes "th_progress p is tr t" and "is \<noteq> []" and "lasts is < run_length p" and "rst_n i" and "\<not> start i"
  shows "th_progress p (is @ [i]) (tr @ ar_taken i t) (rd_cycle i t)"
proof -
  have t: "ra.addr_inv p tr t" "loaded p t" "state t \<in> {RD_TH_VALID, RD_TH_RESP}" "state t \<noteq> RD_IDLE" "\<not> started t"
    "read_resp_lasts t = of_nat (lasts is)" "lat_timer_sum t = of_nat (length is - 1)"
    using assms(1) by (auto simp: th_progress_def ra.addr_inv_def)
  note st = th_resp_cycle [OF t(3) assms(4)] and ne = resp_count_differs [OF t(2) assms(3) t(6)]
  have "lat_timer_sum (rd_cycle i t) = of_nat (length is)"
    using st(2) ne t(7) assms(2) by (cases "is") simp_all
  with st(1) ne ra.addr_inv_cycle [OF t(1) assms(4) t(4)] resp_count_cycle [where i = i and s = t] t assms(5) show ?thesis
    using ra.late_inv_cycle [OF t(1) _ assms(4) _ t(4)] assms(1)
    by (auto simp: th_progress_def lasts_snoc ra_observations)
qed

lemma th_progress_run:
  assumes "launched p s" and "\<not> lp_latency_test_enable p" and "0 < run_length p" and "\<not> started s"
    and "is \<noteq> []" and "\<forall>i \<in> set is. rst_n i \<and> \<not> start i" and "lasts (butlast is) < run_length p"
  shows "th_progress p is (rd_addrs is s) (rd_run is s)"
  using assms(5-7)
proof (induction "is" rule: rev_induct)
  case (snoc i xs)
  show ?case
  proof (cases "xs = []")
    case True
    with snoc.prems th_progress_launched [OF assms(1-4)] show ?thesis by simp
  next
    case False
    then have "lasts (butlast xs) \<le> lasts xs" by (cases xs rule: rev_cases) (simp_all add: lasts_snoc)
    with snoc.prems have "th_progress p xs (rd_addrs xs s) (rd_run xs s)" using False by (intro snoc.IH) auto
    from th_progress_cycle [OF this False] snoc.prems show ?thesis
      by (simp add: collect_append fold_append)
  qed
qed simp

lemma th_finish:
  assumes "state s = RD_TH_RESP" and "read_resp_lasts s = ucast (num_mem_ops s)" and "rst_n i" and "rst_n j"
  shows "state (rd_run [i, j] s) = RD_IDLE" and "end_of_exec (rd_run [i, j] s)"
    and "lat_timer_sum (rd_run [i, j] s) = lat_timer_sum s + 2"
  using assms by (simp_all add: rd_cycle_def rd_fsm_def Let_def)

lemma rd_throughput_run_ends:
  assumes "launched p s" and "\<not> lp_latency_test_enable p" and "0 < run_length p" and "\<not> started s"
    and "\<forall>i \<in> set is. rst_n i \<and> \<not> start i" and "is \<noteq> []"
    and "length (rd_addrs is s) = run_length p" and "lasts is = run_length p" and "last_beat (last is)"
    and "rst_n i" and "rst_n j"
  shows "state (rd_run (is @ [i, j]) s) = RD_IDLE \<and> end_of_exec (rd_run (is @ [i, j]) s)
    \<and> lat_timer_sum (rd_run (is @ [i, j]) s) = of_nat (length is + 1)
    \<and> ((\<forall>i \<in> set is. m_axi_ARREADY i) \<longrightarrow> rd_addrs is s = map (\<lambda>k. block_addr p (k - 1)) [0..<run_length p])"
proof -
  have "lasts (butlast is) < run_length p"
    using assms(3,6,8,9) lasts_snoc [of "butlast is" "last is"] by simp
  note pr = th_progress_run [OF assms(1-4,6,5) this]
  let ?t = "rd_run is s"
  have t: "loaded p ?t" "state ?t = RD_TH_RESP" "lat_timer_sum ?t = of_nat (length is - 1)"
    using pr assms(7) by (auto simp: th_progress_def ra.addr_inv_def rd_phases split: if_splits)
  have "read_resp_lasts ?t = ucast (num_mem_ops ?t)"
    using pr t(1) assms(8) by (simp add: th_progress_def loaded_def run_length_def unsigned_of_nat)
  note f = th_finish [OF t(2) this assms(10,11)]
  have "of_nat (length is - 1) + 2 = (of_nat (length is + 1) :: u64)"
    using assms(6) by (cases "is") simp_all
  with f t(3) pr assms(7) show ?thesis
    by (auto simp: fold_append th_progress_def ra.late_inv_def)
qed

text \<open>
  C28. A throughput run ends. Let \<open>is\<close> be the cycles from the launch on, in which the memory took
  all addresses and answered all of them, the last answer in the last cycle. Two cycles later the
  engine reports the end and is idle again, and its timer shows the cycles of the run. With a
  memory that takes an address in every cycle, the first block is read twice and the last one
  never.
\<close>

theorem rd_throughput_ends:
  assumes "launched p s" and "\<not> lp_latency_test_enable p" and "0 < run_length p" and "\<not> started s"
    and "\<forall>i \<in> set is. rst_n i \<and> \<not> start i" and "is \<noteq> []"
    and "length (rd_addrs is s) = run_length p" and "lasts is = run_length p" and "last_beat (last is)"
    and "rst_n i" and "rst_n j"
  shows "state (rd_run (is @ [i, j]) s) = RD_IDLE \<and> end_of_exec (rd_run (is @ [i, j]) s)
    \<and> lat_timer_sum (rd_run (is @ [i, j]) s) = of_nat (length is + 1)
    \<and> ((\<forall>i \<in> set is. m_axi_ARREADY i) \<longrightarrow> rd_addrs is s = map (\<lambda>k. block_addr p (k - 1)) [0..<run_length p])"
  using rd_throughput_run_ends [OF assms] .

theorem rd_throughput_ends_witness:
  "let is = replicate 4 (mem_in True False) @ replicate 2 (mem_in True True); js = replicate 2 (mem_in True False)
   in lat_timer_sum (rd_run (is @ js) (ex_engine False)) = 7 \<and> end_of_exec (rd_run (is @ js) (ex_engine False))
     \<and> rd_addrs is (ex_engine False) = map (\<lambda>k. block_addr (ex_params False) (k - 1)) [0..<2]"
proof -
  let ?is = "replicate 4 (mem_in True False) @ replicate 2 (mem_in True True)"
  have "length (rd_addrs ?is (ex_engine False)) = 2" by code_simp
  moreover have "lasts ?is = 2" "last_beat (last ?is)" by code_simp+
  moreover have "\<not> lp_latency_test_enable (ex_params False)" "\<not> started (ex_engine False)"
    by (simp_all add: ex_params_def ex_engine_def)
  moreover have "\<forall>i \<in> set ?is. rst_n i \<and> \<not> start i" "\<forall>i \<in> set ?is. m_axi_ARREADY i" "rst_n (mem_in True False)"
    by (simp_all add: mem_in_def)
  ultimately show ?thesis
    using rd_throughput_ends [OF ex_launched, of False ?is "mem_in True False" "mem_in True False"]
    by (simp add: ex_run_length replicate_add [symmetric] Let_def numeral_2_eq_2)
qed

section \<open>Latency runs\<close>

text \<open>
  One operation of a latency run, as the memory sees it: the cycle that raises the address, the
  cycles the memory lets it wait, the cycle that takes it, the cycles without the last beat of
  the response and the cycle with it.
\<close>

datatype 'i lat_op = Lat_Op (raise_in: 'i) (stall_ins: "'i list") (take_in: 'i) (wait_ins: "'i list") (last_in: 'i)

definition op_inputs :: "'a::len rd_in lat_op \<Rightarrow> 'a rd_in list" where
  "op_inputs x = raise_in x # stall_ins x @ take_in x # wait_ins x @ [last_in x]"

definition op_ok :: "'a::len rd_in lat_op \<Rightarrow> bool" where
  "op_ok x \<longleftrightarrow> list_all rst_n (op_inputs x) \<and> list_all (\<lambda>i. \<not> m_axi_ARREADY i) (stall_ins x)
     \<and> m_axi_ARREADY (take_in x) \<and> list_all (\<lambda>i. \<not> last_beat i) (wait_ins x) \<and> last_beat (last_in x)"

text \<open>The cycles from the one that took the address to the one with the last beat.\<close>

definition op_latency :: "'a::len rd_in lat_op \<Rightarrow> nat" where
  "op_latency x = length (wait_ins x) + 1"

text \<open>
  The block each operation reads: the offset moves on in every cycle in which the engine offers
  an address, two of which are spent even if the memory is ready.
\<close>

fun lat_slots :: "nat \<Rightarrow> 'a::len rd_in lat_op list \<Rightarrow> nat list" where
  "lat_slots c [] = []"
| "lat_slots c (x # xs) = (c + length (stall_ins x)) # lat_slots (c + length (stall_ins x) + 2) xs"

lemma lat_slots_ready:
  assumes "\<forall>x \<in> set xs. stall_ins x = []"
  shows "lat_slots c xs = map (\<lambda>k. c + 2 * k) [0..<length xs]"
  using assms
proof (induction xs arbitrary: c)
  case (Cons x xs)
  have "map (\<lambda>k. c + 2 * k) [0..<length (x # xs)] = c # map (\<lambda>k. (c + 2) + 2 * k) [0..<length xs]"
    by (simp add: upt_conv_Cons map_Suc_upt [symmetric] del: upt_Suc)
  with Cons show ?case by simp
qed simp

definition lat_at :: "'a::len lt_param \<Rightarrow> rd_state \<Rightarrow> nat \<Rightarrow> nat \<Rightarrow> nat \<Rightarrow> 'a rd_engine \<Rightarrow> bool" where
  "lat_at p st c j tm s \<longleftrightarrow> loaded p s \<and> state s = st \<and> offset_addr s = of_nat c * ucast (lp_stride p)
     \<and> mem_op_index s = of_nat j \<and> lat_timer_sum s = of_nat tm"

lemma lat_raise:
  assumes "lat_at p RD_LAT_VALID c j tm s" and "rst_n i" and "\<not> ar_handshake i s"
  shows "lat_at p RD_LAT_VALID (Suc c) j (Suc tm) (rd_cycle i s)" and "guard_ARVALID (rd_cycle i s)"
    and "m_axi_ARADDR (rd_cycle i s) = block_addr p c" and "ar_taken i s = []" and "logged (rd_cycle i s) = []"
proof -
  have "next_ARADDR s = block_addr p c" using assms(1) by (intro next_ARADDR_loaded) (simp_all add: lat_at_def)
  with assms show "lat_at p RD_LAT_VALID (Suc c) j (Suc tm) (rd_cycle i s)" "guard_ARVALID (rd_cycle i s)"
    "m_axi_ARADDR (rd_cycle i s) = block_addr p c" "ar_taken i s = []" "logged (rd_cycle i s) = []"
    by (simp_all add: lat_at_def loaded_def rd_cycle_def rd_fsm_def Let_def ar_taken_def logged_def algebra_simps)
qed

lemma lat_stalls:
  assumes "lat_at p RD_LAT_VALID (Suc c) j tm s" and "guard_ARVALID s" and "m_axi_ARADDR s = block_addr p c"
    and "list_all rst_n ss" and "list_all (\<lambda>i. \<not> m_axi_ARREADY i) ss"
  shows "lat_at p RD_LAT_VALID (Suc (c + length ss)) j (tm + length ss) (rd_run ss s) \<and> guard_ARVALID (rd_run ss s)
    \<and> m_axi_ARADDR (rd_run ss s) = block_addr p (c + length ss) \<and> rd_addrs ss s = [] \<and> rd_log ss s = []"
  using assms
proof (induction ss arbitrary: c tm s)
  case (Cons i ss)
  then have "\<not> ar_handshake i s" "rst_n i" by (simp_all add: ar_handshake_def)
  note r = lat_raise [OF Cons.prems(1) this(2,1)]
  from Cons.IH [OF r(1-3)] Cons.prems(4,5) r(4,5) show ?case by simp
qed simp

lemma lat_take:
  assumes "lat_at p RD_LAT_VALID c j tm s" and "rst_n i" and "m_axi_ARREADY i" and "guard_ARVALID s"
  shows "lat_at p RD_LAT_RESP (Suc c) (Suc j) (Suc tm) (rd_cycle i s)" and "\<not> guard_ARVALID (rd_cycle i s)"
    and "lat_timer (rd_cycle i s) = 0" and "ar_taken i s = [m_axi_ARADDR s]" and "logged (rd_cycle i s) = []"
  using assms
  by (simp_all add: lat_at_def loaded_def rd_cycle_def rd_fsm_def Let_def ar_taken_def logged_def ar_handshake_def algebra_simps)

lemma lat_waits:
  assumes "lat_at p RD_LAT_RESP c j tm s" and "\<not> guard_ARVALID s" and "lat_timer s = of_nat d"
    and "list_all rst_n ws" and "list_all (\<lambda>i. \<not> last_beat i) ws"
  shows "lat_at p RD_LAT_RESP c j (tm + length ws) (rd_run ws s) \<and> \<not> guard_ARVALID (rd_run ws s)
    \<and> lat_timer (rd_run ws s) = of_nat (d + length ws) \<and> rd_addrs ws s = [] \<and> rd_log ws s = []"
  using assms
proof (induction ws arbitrary: d tm s)
  case (Cons i ws)
  then have "lat_at p RD_LAT_RESP c j (Suc tm) (rd_cycle i s)" "\<not> guard_ARVALID (rd_cycle i s)"
    "lat_timer (rd_cycle i s) = of_nat (Suc d)" "ar_taken i s = []" "logged (rd_cycle i s) = []"
    by (simp_all add: lat_at_def loaded_def rd_cycle_def rd_fsm_def Let_def ar_taken_def logged_def ar_handshake_def)
  with Cons.IH [OF this(1-3)] Cons.prems(4,5) show ?case by simp
qed simp

lemma lat_last:
  assumes "lat_at p RD_LAT_RESP c j tm s" and "\<not> guard_ARVALID s" and "rst_n i" and "last_beat i"
    and "j \<le> run_length p"
  shows "lat_at p (if j = run_length p then RD_END else RD_LAT_VALID) c j (Suc tm) (rd_cycle i s)"
    and "\<not> guard_ARVALID (rd_cycle i s)" and "ar_taken i s = []" and "logged (rd_cycle i s) = [lat_timer s + 1]"
proof -
  have "unat (of_nat j :: u64) = j" "unat (of_nat (run_length p) :: u64) = run_length p"
    using assms(5) run_length_less [of p] by (simp_all only: unat_of_nat) (simp_all add: take_bit_nat_eq_self)
  then have "(of_nat j :: u64) = of_nat (run_length p) \<longleftrightarrow> j = run_length p" by metis
  with assms show "lat_at p (if j = run_length p then RD_END else RD_LAT_VALID) c j (Suc tm) (rd_cycle i s)"
    "\<not> guard_ARVALID (rd_cycle i s)" "ar_taken i s = []" "logged (rd_cycle i s) = [lat_timer s + 1]"
    by (simp_all add: lat_at_def loaded_def rd_cycle_def rd_fsm_def Let_def ar_taken_def logged_def ar_handshake_def)
qed

lemma lat_op_run:
  assumes "lat_at p RD_LAT_VALID c j tm s" and "\<not> guard_ARVALID s" and "op_ok x" and "j < run_length p"
  defines "c' \<equiv> c + length (stall_ins x)"
  shows "lat_at p (if Suc j = run_length p then RD_END else RD_LAT_VALID) (c' + 2) (Suc j)
      (tm + length (op_inputs x)) (rd_run (op_inputs x) s)
    \<and> \<not> guard_ARVALID (rd_run (op_inputs x) s) \<and> rd_addrs (op_inputs x) s = [block_addr p c']
    \<and> rd_log (op_inputs x) s = [of_nat (op_latency x)]"
proof -
  have ok: "rst_n (raise_in x)" "rst_n (take_in x)" "rst_n (last_in x)" "list_all rst_n (stall_ins x)"
    "list_all rst_n (wait_ins x)" "list_all (\<lambda>i. \<not> m_axi_ARREADY i) (stall_ins x)" "m_axi_ARREADY (take_in x)"
    "list_all (\<lambda>i. \<not> last_beat i) (wait_ins x)" "last_beat (last_in x)"
    using assms(3) by (simp_all add: op_ok_def op_inputs_def)
  let ?a = "rd_cycle (raise_in x) s"
  let ?b = "rd_run (stall_ins x) ?a"
  let ?c = "rd_cycle (take_in x) ?b"
  let ?d = "rd_run (wait_ins x) ?c"
  have "\<not> ar_handshake (raise_in x) s" using assms(2) by (simp add: ar_handshake_def)
  note a = lat_raise [OF assms(1) ok(1) this]
  note b = lat_stalls [OF a(1-3) ok(4,6)]
  then have b': "lat_at p RD_LAT_VALID (Suc c') j (Suc tm + length (stall_ins x)) ?b" "guard_ARVALID ?b"
    "m_axi_ARADDR ?b = block_addr p c'" "rd_addrs (stall_ins x) ?a = []" "rd_log (stall_ins x) ?a = []"
    unfolding c'_def by blast+
  note t = lat_take [OF b'(1) ok(2,7) b'(2)]
  have "lat_timer ?c = of_nat 0" using t(3) by simp
  note d = lat_waits [OF t(1,2) this ok(5,8)]
  note l = lat_last [OF conjunct1 [OF d] _ ok(3,9)]
  have "Suc j \<le> run_length p" using assms(4) by simp
  note l' = l [OF _ this]
  show ?thesis
    using a(4,5) b'(3-5) t(4,5) d l'
    by (simp add: op_inputs_def op_latency_def fold_append collect_append collect_append add.commute add.left_commute)
qed

lemma lat_ops_run:
  assumes "lat_at p RD_LAT_VALID c j tm s" and "\<not> guard_ARVALID s" and "list_all op_ok xs" and "xs \<noteq> []"
    and "j + length xs = run_length p"
  shows "state (rd_run (concat (map op_inputs xs)) s) = RD_END
    \<and> rd_addrs (concat (map op_inputs xs)) s = map (block_addr p) (lat_slots c xs)
    \<and> rd_log (concat (map op_inputs xs)) s = map (\<lambda>x. of_nat (op_latency x)) xs
    \<and> lat_timer_sum (rd_run (concat (map op_inputs xs)) s) = of_nat (tm + length (concat (map op_inputs xs)))"
  using assms
proof (induction xs arbitrary: c j tm s)
  case (Cons x xs)
  then have "op_ok x" "j < run_length p" by simp_all
  note x = lat_op_run [OF Cons.prems(1,2) this]
  show ?case
  proof (cases "xs = []")
    case True
    with Cons.prems(5) x show ?thesis by (simp add: lat_at_def)
  next
    case False
    with Cons.prems(5) have "Suc j \<noteq> run_length p" by (cases xs) auto
    with x have "lat_at p RD_LAT_VALID (c + length (stall_ins x) + 2) (Suc j) (tm + length (op_inputs x)) (rd_run (op_inputs x) s)"
      "\<not> guard_ARVALID (rd_run (op_inputs x) s)" by simp_all
    from Cons.IH [OF this _ False] Cons.prems(3,5) x show ?thesis
      by (simp add: fold_append collect_append collect_append add.assoc)
  qed
qed simp

lemma rd_latency_spec:
  assumes "launched p s" and "lp_latency_test_enable p" and "rst_n i" and "list_all op_ok xs" and "xs \<noteq> []"
    and "length xs = run_length p"
  defines "is \<equiv> i # concat (map op_inputs xs)"
  shows "state (rd_run is s) = RD_END \<and> rd_log is s = map (\<lambda>x. of_nat (op_latency x)) xs
    \<and> rd_addrs is s = map (block_addr p) (lat_slots 0 xs) \<and> lat_timer_sum (rd_run is s) = of_nat (length is - 1)
    \<and> ((\<forall>x \<in> set xs. stall_ins x = []) \<longrightarrow> rd_addrs is s = map (\<lambda>k. block_addr p (2 * k)) [0..<run_length p])"
proof -
  note l = loaded_started [OF assms(1,3)]
  have "lat_at p RD_LAT_VALID 0 0 0 (rd_cycle i s)" using l assms(2) by (simp add: lat_at_def)
  from lat_ops_run [OF this l(5) assms(4,5)] assms(6) l(6,8) lat_slots_ready [of xs 0] show ?thesis
    by (simp add: is_def logged_def)
qed

text \<open>
  C29. A latency run ends, however long the memory lets each operation wait. It takes as many
  operations as the parameters say; each logged value is the number of cycles from the one in
  which the memory took the address to the one with the last beat of the response, modulo
  65536; the timer shows all cycles. The blocks read follow from the waiting times: with a memory that is always
  ready every second block is read.
\<close>

theorem rd_latency_run:
  assumes "launched p s" and "lp_latency_test_enable p" and "rst_n i" and "list_all op_ok xs" and "xs \<noteq> []"
    and "length xs = run_length p"
  defines "is \<equiv> i # concat (map op_inputs xs)"
  shows "state (rd_run is s) = RD_END \<and> rd_log is s = map (\<lambda>x. of_nat (op_latency x)) xs
    \<and> rd_addrs is s = map (block_addr p) (lat_slots 0 xs) \<and> lat_timer_sum (rd_run is s) = of_nat (length is - 1)
    \<and> ((\<forall>x \<in> set xs. stall_ins x = []) \<longrightarrow> rd_addrs is s = map (\<lambda>k. block_addr p (2 * k)) [0..<run_length p])"
  unfolding is_def by (rule rd_latency_spec [OF assms(1-6)])

theorem rd_latency_run_witness:
  "let x = Lat_Op (mem_in True False) [] (mem_in True False) (replicate 5 (mem_in True False)) (mem_in True True);
       is = mem_in True False # concat (map op_inputs [x, x])
   in rd_log is (ex_engine True) = [6, 6] \<and> state (rd_run is (ex_engine True)) = RD_END
     \<and> rd_addrs is (ex_engine True) = [block_addr (ex_params True) 0, block_addr (ex_params True) 2]"
proof -
  let ?x = "Lat_Op (mem_in True False) [] (mem_in True False) (replicate 5 (mem_in True False)) (mem_in True True)"
  have "list_all op_ok [?x, ?x]" "rst_n (mem_in True False)" "lp_latency_test_enable (ex_params True)" by code_simp+
  moreover have "length [?x, ?x] = run_length (ex_params True)" by (simp add: ex_run_length)
  ultimately show ?thesis
    using rd_latency_run [OF ex_launched, of True "mem_in True False" "[?x, ?x]"]
    by (simp add: Let_def op_latency_def ex_run_length numeral_2_eq_2)
qed

end
