(* ===== verification/Wr_Engine.thy ===== *)
theory Wr_Engine
  imports Axi_Address
begin

text \<open>
  The write engine of a memory channel, \<open>hw/rtl/u280_hbm/wr_engine.sv\<close>, clock cycle by clock cycle,
  with the widths \<open>hbm_benchmark.sv\<close> gives it. Addresses and data go out on two channels that the
  memory takes independently of each other. Registers that the read engine has too carry the
  prefix \<open>w_\<close>.
\<close>

section \<open>Registers and inputs\<close>

datatype wr_state = WR_IDLE | WR_STARTED | WR_TH_VALID | WR_TH_DATA | WR_END

record (overloaded) ('a, 'l, 'd) wr_engine =
  w_started :: bool
  w_lt_params_r :: "'a lt_param"
  w_work_group_size :: u32
  w_stride :: u32
  w_num_mem_ops :: u64
  w_mem_burst_size :: u16
  w_init_addr :: "'a word"
  w_mem_op_index :: u64
  w_offset_addr :: "'a word"
  w_work_group_size_minus_1 :: u32
  w_num_mem_ops_r :: u64
  w_num_mem_ops_minus_1 :: u64
  wr_ops :: u64
  burst_inc :: u8
  wr_data_done :: bool
  is_in_progress :: bool
  guard_AWVALID :: bool
  guard_WVALID :: bool
  m_axi_AWADDR :: "'a word"
  m_axi_AWLEN :: "'l word"
  m_axi_WDATA :: "'d word"
  w_end_of_exec :: bool
  w_lat_timer_sum :: u64
  w_state :: wr_state

record (overloaded) 'a wr_in =
  w_rst_n :: bool
  w_start :: bool
  w_lt_params_in :: "'a lt_param"
  m_axi_AWREADY :: bool
  m_axi_WREADY :: bool

section \<open>One clock cycle\<close>

definition m_axi_WVALID :: "('a::len, 'l::len, 'd::len) wr_engine \<Rightarrow> bool" where
  "m_axi_WVALID s \<longleftrightarrow> wr_ops s \<noteq> w_num_mem_ops_r s \<and> guard_WVALID s"

definition m_axi_WLAST :: "('a::len, 'l::len, 'd::len) wr_engine \<Rightarrow> bool" where
  "m_axi_WLAST s \<longleftrightarrow> unat (burst_inc s) = unat (m_axi_AWLEN s) \<and> guard_WVALID s"

definition w_next_AWADDR :: "('a::len, 'l::len, 'd::len) wr_engine \<Rightarrow> 'a word" where
  "w_next_AWADDR s = w_init_addr s + (w_offset_addr s AND ucast (w_work_group_size_minus_1 s))"

text \<open>The process that counts the beats of data.\<close>

definition wr_data :: "'a::len wr_in \<Rightarrow> ('a, 'l::len, 'd::len) wr_engine \<Rightarrow> u8 \<times> u64 \<times> bool" where
  "wr_data i s =
     (if \<not> w_rst_n i then (0, 0, False)
      else if w_started s then (0, 0, False)
      else if is_in_progress s \<and> m_axi_WREADY i \<and> guard_WVALID s then
        (if unat (burst_inc s) = unat (m_axi_AWLEN s)
         then (0, wr_ops s + 1, if wr_ops s = w_num_mem_ops_minus_1 s then True else wr_data_done s)
         else (burst_inc s + 1, wr_ops s, wr_data_done s))
      else (burst_inc s, wr_ops s, wr_data_done s))"

text \<open>The state machine.\<close>

definition wr_fsm :: "'a::len wr_in \<Rightarrow> ('a, 'l::len, 'd::len) wr_engine \<Rightarrow> ('a, 'l, 'd) wr_engine" where
  "wr_fsm i s =
     (if \<not> w_rst_n i then s\<lparr>is_in_progress := False, w_state := WR_IDLE\<rparr>
      else let d = s\<lparr>w_end_of_exec := False, guard_AWVALID := False, guard_WVALID := False,
                     w_lat_timer_sum := w_lat_timer_sum s + 1\<rparr>
      in case w_state s of
        WR_IDLE \<Rightarrow>
          (if w_started s
           then d\<lparr>w_lat_timer_sum := w_lat_timer_sum s,
                  w_work_group_size := lp_work_group_size (w_lt_params_r s),
                  w_stride := lp_stride (w_lt_params_r s),
                  w_num_mem_ops := lp_num_mem_ops (w_lt_params_r s),
                  w_mem_burst_size := ucast (lp_mem_burst_size (w_lt_params_r s)),
                  w_init_addr := lp_initial_addr (w_lt_params_r s),
                  w_state := WR_STARTED\<rparr>
           else d\<lparr>w_lat_timer_sum := w_lat_timer_sum s\<rparr>)
      | WR_STARTED \<Rightarrow>
          d\<lparr>is_in_progress := True, w_offset_addr := 0,
            w_work_group_size_minus_1 := w_work_group_size s - 1,
            w_num_mem_ops_r := w_num_mem_ops s, w_num_mem_ops_minus_1 := w_num_mem_ops s - 1,
            w_mem_op_index := 0, w_lat_timer_sum := 0, w_state := WR_TH_VALID\<rparr>
      | WR_TH_VALID \<Rightarrow>
          (let d = d\<lparr>guard_AWVALID := True, guard_WVALID := True, m_axi_AWADDR := w_next_AWADDR s\<rparr>
           in if m_axi_AWREADY i \<and> guard_AWVALID s
              then (let d = d\<lparr>w_offset_addr := w_offset_addr s + ucast (w_stride s),
                              w_mem_op_index := w_mem_op_index s + 1\<rparr>
                    in if w_mem_op_index s = w_num_mem_ops_minus_1 s
                       then d\<lparr>guard_AWVALID := False,
                              w_state := (if wr_data_done s then WR_END else WR_TH_DATA)\<rparr>
                       else d)
              else d)
      | WR_TH_DATA \<Rightarrow>
          (if wr_data_done s then d\<lparr>w_state := WR_END\<rparr> else d\<lparr>guard_WVALID := True\<rparr>)
      | WR_END \<Rightarrow> d\<lparr>is_in_progress := False, w_end_of_exec := True, w_state := WR_IDLE\<rparr>)"

definition wr_cycle :: "'a::len wr_in \<Rightarrow> ('a, 'l::len, 'd::len) wr_engine \<Rightarrow> ('a, 'l, 'd) wr_engine" where
  "wr_cycle i s =
     (let (b, n, e) = wr_data i s in
      (wr_fsm i s)\<lparr>w_started := w_rst_n i \<and> w_start i, w_lt_params_r := w_lt_params_in i,
        m_axi_AWLEN := ucast (drop_bit (beat_bits TYPE('d)) (w_mem_burst_size s) - 1), m_axi_WDATA := 0,
        burst_inc := b, wr_ops := n, wr_data_done := e\<rparr>)"

section \<open>Runs\<close>

definition aw_taken :: "'a::len wr_in \<Rightarrow> ('a, 'l::len, 'd::len) wr_engine \<Rightarrow> 'a word list" where
  "aw_taken i s = (if m_axi_AWREADY i \<and> guard_AWVALID s then [m_axi_AWADDR s] else [])"

text \<open>A beat the memory takes, the last flag it carries, and a cycle the engine counts as one.\<close>

definition w_beat :: "'a::len wr_in \<Rightarrow> ('a, 'l::len, 'd::len) wr_engine \<Rightarrow> bool" where
  "w_beat i s \<longleftrightarrow> m_axi_WREADY i \<and> m_axi_WVALID s"

definition w_lasts :: "'a::len wr_in \<Rightarrow> ('a, 'l::len, 'd::len) wr_engine \<Rightarrow> bool list" where
  "w_lasts i s = (if w_beat i s then [m_axi_WLAST s] else [])"

definition w_slot :: "'a::len wr_in \<Rightarrow> ('a, 'l::len, 'd::len) wr_engine \<Rightarrow> bool" where
  "w_slot i s \<longleftrightarrow> m_axi_WREADY i \<and> guard_WVALID s"

definition wr_live :: "'a::len wr_in \<Rightarrow> ('a, 'l::len, 'd::len) wr_engine \<Rightarrow> bool" where
  "wr_live i s \<longleftrightarrow> w_rst_n i \<and> w_state s \<noteq> WR_IDLE"

abbreviation wr_run :: "'a::len wr_in list \<Rightarrow> ('a, 'l::len, 'd::len) wr_engine \<Rightarrow> ('a, 'l, 'd) wr_engine" where
  "wr_run \<equiv> fold wr_cycle"

abbreviation wr_addrs :: "'a::len wr_in list \<Rightarrow> ('a, 'l::len, 'd::len) wr_engine \<Rightarrow> 'a word list" where
  "wr_addrs \<equiv> collect wr_cycle aw_taken"

abbreviation wr_trace :: "('a::len, 'l::len, 'd::len) wr_engine \<Rightarrow> 'a word list \<Rightarrow> ('a, 'l, 'd) wr_engine \<Rightarrow> bool" where
  "wr_trace \<equiv> trace wr_cycle wr_live aw_taken"

text \<open>The engine has taken its parameters over and begins.\<close>

definition w_launched :: "'a::len lt_param \<Rightarrow> ('a, 'l::len, 'd::len) wr_engine \<Rightarrow> bool" where
  "w_launched p s \<longleftrightarrow> w_state s = WR_STARTED \<and> \<not> guard_AWVALID s \<and> \<not> guard_WVALID s
     \<and> burst_inc s = 0 \<and> wr_ops s = 0 \<and> \<not> wr_data_done s
     \<and> w_work_group_size s = lp_work_group_size p \<and> w_stride s = lp_stride p
     \<and> w_num_mem_ops s = lp_num_mem_ops p \<and> w_mem_burst_size s = ucast (lp_mem_burst_size p)
     \<and> w_init_addr s = lp_initial_addr p"

definition w_count :: "'a::len lt_param \<Rightarrow> nat" where
  "w_count p = unat (lp_num_mem_ops p)"

text \<open>
  The beats of a burst: the burst size in units of a beat, of which the length field keeps its width.
  The abbreviations take the widths from the type of an engine. The counter of beats has eight bits, so
  that the length may have at most as many; it has four in the HBM design and eight in the DDR design.
\<close>

definition burst_beats :: "'l::len itself \<Rightarrow> 'd::len itself \<Rightarrow> 'a::len lt_param \<Rightarrow> nat" where
  "burst_beats l d p = unat (ucast (drop_bit (beat_bits d) (ucast (lp_mem_burst_size p) :: u16) - 1) :: 'l word) + 1"

abbreviation beats_of :: "('a::len, 'l::len, 'd::len) wr_engine \<Rightarrow> 'a lt_param \<Rightarrow> nat" where
  "beats_of s \<equiv> burst_beats TYPE('l) TYPE('d)"

abbreviation len_fits :: "('a::len, 'l::len, 'd::len) wr_engine \<Rightarrow> bool" where
  "len_fits s \<equiv> LENGTH('l) \<le> 8"

text \<open>An engine with one burst of one beat ahead of it, and the signals of a memory, for examples.\<close>

definition w_ex_params :: "33 lt_param" where
  "w_ex_params = \<lparr>lp_work_group_size = 256, lp_stride = 64, lp_num_mem_ops = 1, lp_mem_burst_size = 32,
     lp_initial_addr = 0, lp_latency_test_enable = False\<rparr>"

definition w_ex_engine :: "(33, 4, 256) wr_engine" where
  "w_ex_engine = \<lparr>w_started = False, w_lt_params_r = w_ex_params, w_work_group_size = 256, w_stride = 64,
     w_num_mem_ops = 1, w_mem_burst_size = 32, w_init_addr = 0, w_mem_op_index = 0, w_offset_addr = 0,
     w_work_group_size_minus_1 = 0, w_num_mem_ops_r = 0, w_num_mem_ops_minus_1 = 0, wr_ops = 0, burst_inc = 0,
     wr_data_done = False, is_in_progress = False, guard_AWVALID = False, guard_WVALID = False, m_axi_AWADDR = 0,
     m_axi_AWLEN = 0, m_axi_WDATA = 0, w_end_of_exec = False, w_lat_timer_sum = 0, w_state = WR_STARTED\<rparr>"

definition w_mem_in :: "bool \<Rightarrow> bool \<Rightarrow> 33 wr_in" where
  "w_mem_in aw w = \<lparr>w_rst_n = True, w_start = False, w_lt_params_in = w_ex_params, m_axi_AWREADY = aw, m_axi_WREADY = w\<rparr>"

lemma w_ex_launched: "w_launched w_ex_params w_ex_engine"
  by (simp add: w_launched_def w_ex_engine_def w_ex_params_def)

lemma w_ex_count: "w_count w_ex_params = 1" "beats_of w_ex_engine w_ex_params = 1"
  by code_simp+

section \<open>Single cycles\<close>

lemma w_idle_launches:
  assumes "w_state s = WR_IDLE" and "w_started s" and "w_rst_n i"
  shows "w_launched (w_lt_params_r s) (wr_cycle i s)"
  using assms by (simp add: w_launched_def wr_cycle_def wr_fsm_def wr_data_def)

definition w_loaded :: "'a::len lt_param \<Rightarrow> ('a, 'l::len, 'd::len) wr_engine \<Rightarrow> bool" where
  "w_loaded p s \<longleftrightarrow> w_work_group_size_minus_1 s = lp_work_group_size p - 1 \<and> w_stride s = lp_stride p
     \<and> w_init_addr s = lp_initial_addr p \<and> w_num_mem_ops_r s = of_nat (w_count p)
     \<and> w_num_mem_ops_minus_1 s = of_nat (w_count p) - 1 \<and> w_mem_burst_size s = ucast (lp_mem_burst_size p)
     \<and> m_axi_AWLEN s = of_nat (beats_of s p - 1)"

lemma w_loaded_started:
  assumes "w_launched p s" and "w_rst_n i"
  shows "w_loaded p (wr_cycle i s)" and "w_mem_op_index (wr_cycle i s) = 0" and "w_offset_addr (wr_cycle i s) = 0"
    and "w_lat_timer_sum (wr_cycle i s) = 0" and "\<not> guard_AWVALID (wr_cycle i s)" and "\<not> guard_WVALID (wr_cycle i s)"
    and "w_state (wr_cycle i s) = WR_TH_VALID" and "aw_taken i s = []" and "is_in_progress (wr_cycle i s)"
    and "burst_inc (wr_cycle i s) = 0" and "wr_ops (wr_cycle i s) = 0" and "\<not> wr_data_done (wr_cycle i s)"
  using assms
  by (simp_all add: w_launched_def w_loaded_def w_count_def burst_beats_def wr_cycle_def wr_fsm_def wr_data_def
      aw_taken_def split: prod.split)

lemma wr_cycle_fsm [simp]:
  "w_state (wr_cycle i s) = w_state (wr_fsm i s)" "w_offset_addr (wr_cycle i s) = w_offset_addr (wr_fsm i s)"
  "w_mem_op_index (wr_cycle i s) = w_mem_op_index (wr_fsm i s)" "m_axi_AWADDR (wr_cycle i s) = m_axi_AWADDR (wr_fsm i s)"
  "guard_AWVALID (wr_cycle i s) = guard_AWVALID (wr_fsm i s)" "guard_WVALID (wr_cycle i s) = guard_WVALID (wr_fsm i s)"
  "is_in_progress (wr_cycle i s) = is_in_progress (wr_fsm i s)" "w_lat_timer_sum (wr_cycle i s) = w_lat_timer_sum (wr_fsm i s)"
  "w_end_of_exec (wr_cycle i s) = w_end_of_exec (wr_fsm i s)" "w_started (wr_cycle i s) \<longleftrightarrow> w_rst_n i \<and> w_start i"
  "burst_inc (wr_cycle i s) = fst (wr_data i s)" "wr_ops (wr_cycle i s) = fst (snd (wr_data i s))"
  "wr_data_done (wr_cycle i s) = snd (snd (wr_data i s))"
  by (simp_all add: wr_cycle_def split: prod.split)

lemma w_loaded_cycle:
  assumes "w_loaded p s" and "w_rst_n i" and "w_state s \<noteq> WR_IDLE" and "w_state s \<noteq> WR_STARTED"
  shows "w_loaded p (wr_cycle i s)"
proof -
  have "m_axi_AWLEN (wr_cycle i s) = of_nat (beats_of s p - 1)"
    using assms(1) by (simp add: w_loaded_def burst_beats_def wr_cycle_def split: prod.split)
  with assms show ?thesis
    by (auto simp: w_loaded_def wr_cycle_def wr_fsm_def Let_def split: prod.split wr_state.split)
qed

lemma w_wait:
  assumes "w_state s = WR_TH_VALID" and "w_rst_n i" and "\<not> (m_axi_AWREADY i \<and> guard_AWVALID s)"
  shows "w_state (wr_fsm i s) = WR_TH_VALID" "w_mem_op_index (wr_fsm i s) = w_mem_op_index s"
    "w_offset_addr (wr_fsm i s) = w_offset_addr s" "m_axi_AWADDR (wr_fsm i s) = w_next_AWADDR s"
    "guard_AWVALID (wr_fsm i s)"
  using assms by (auto simp: wr_fsm_def Let_def)

lemma w_take:
  assumes "w_state s = WR_TH_VALID" and "w_rst_n i" and "m_axi_AWREADY i" and "guard_AWVALID s"
  shows "w_mem_op_index (wr_fsm i s) = w_mem_op_index s + 1"
    "w_offset_addr (wr_fsm i s) = w_offset_addr s + ucast (w_stride s)" "m_axi_AWADDR (wr_fsm i s) = w_next_AWADDR s"
    "w_state (wr_fsm i s) = (if w_mem_op_index s = w_num_mem_ops_minus_1 s
      then if wr_data_done s then WR_END else WR_TH_DATA else WR_TH_VALID)"
    "guard_AWVALID (wr_fsm i s) \<longleftrightarrow> w_mem_op_index s \<noteq> w_num_mem_ops_minus_1 s"
  using assms by (simp_all add: wr_fsm_def Let_def)

lemma w_rest:
  assumes "w_state s \<in> {WR_TH_DATA, WR_END}" and "w_rst_n i"
  shows "w_state (wr_fsm i s) \<in> {WR_TH_DATA, WR_END, WR_IDLE}" "\<not> guard_AWVALID (wr_fsm i s)"
  using assms by (auto simp: wr_fsm_def Let_def)

section \<open>The address channel\<close>

definition wr_sending :: "('a::len, 'l::len, 'd::len) wr_engine \<Rightarrow> bool" where
  "wr_sending s \<longleftrightarrow> w_state s = WR_TH_VALID"

definition wr_resting :: "('a::len, 'l::len, 'd::len) wr_engine \<Rightarrow> bool" where
  "wr_resting s \<longleftrightarrow> w_state s \<in> {WR_TH_DATA, WR_END, WR_IDLE}"

lemmas wr_phases = wr_sending_def wr_resting_def

lemma w_count_less: "w_count p < 2 ^ 64"
  unfolding w_count_def by (rule unat_less_u64)

interpretation wa: address_channel wr_cycle w_rst_n m_axi_AWREADY w_launched wr_sending wr_resting
  "\<lambda>s. w_state s = WR_IDLE" guard_AWVALID m_axi_AWADDR w_mem_op_index w_offset_addr w_loaded w_count
proof (unfold_locales, goal_cases)
  case (1 p s i)
  then show ?case using w_loaded_started [of p s i] by (simp add: wr_phases)
next
  case (2 p s)
  then show ?case by (simp add: wr_phases w_launched_def)
next
  case (3 s p i)
  then show ?case using w_wait [of s i] by (simp add: wr_phases w_next_AWADDR_def w_loaded_def)
next
  case (4 s p i k)
  then have "w_mem_op_index s = w_num_mem_ops_minus_1 s \<longleftrightarrow> Suc k = w_count p"
    using last_index_eq [of k "w_count p"] w_count_less [of p] by (simp add: w_loaded_def)
  with 4 show ?case using w_take [of s i] by (simp add: wr_phases w_next_AWADDR_def w_loaded_def)
next
  case (5 s i)
  then show ?case using w_rest [of s i] by (auto simp: wr_phases)
next
  case (6 p s i)
  then show ?case using w_loaded_cycle [of p s i] by (auto simp: wr_phases)
next
  case (7 s)
  then show ?case by (simp add: wr_phases)
qed

lemma wa_observations: "wa.live = wr_live" "wa.taken = aw_taken"
  by (simp_all add: fun_eq_iff wa.live_def wr_live_def wa.taken_def aw_taken_def)

lemmas wr_requests_spec = wa.requests [unfolded wa_observations]
lemmas wr_requests_in_working_set = wa.requests_in_working_set [unfolded wa_observations]

text \<open>
  Write addresses: whatever the memory does, the engine sends exactly the configured number of
  them, all 64 bits of the count being used. The address number \<open>k\<close> is the one of the block number
  \<open>k\<close> or still of the one before.
\<close>

theorem wr_requests:
  assumes "wr_trace s tr t" and "w_launched p s" and "0 < w_count p"
  shows "length tr \<le> w_count p \<and> (w_state t \<in> {WR_TH_DATA, WR_END, WR_IDLE} \<longrightarrow> length tr = w_count p)
    \<and> (\<forall>k < length tr. tr ! k = block_addr p k \<or> 0 < k \<and> tr ! k = block_addr p (k - 1))"
  using wr_requests_spec [OF assms] by (auto simp: wr_phases near_block_def)

theorem wr_requests_witness:
  "length (wr_addrs (replicate 3 (w_mem_in True True)) w_ex_engine) = 1
    \<and> wr_addrs (replicate 3 (w_mem_in True True)) w_ex_engine ! 0 = block_addr w_ex_params 0"
proof -
  let ?is = "replicate 3 (w_mem_in True True)"
  have "busy wr_cycle wr_live ?is w_ex_engine" and st: "w_state (wr_run ?is w_ex_engine) = WR_TH_DATA"
    by code_simp+
  then have "wr_trace w_ex_engine (wr_addrs ?is w_ex_engine) (wr_run ?is w_ex_engine)" by (intro trace_run)
  note H = wr_requests [OF this w_ex_launched, unfolded w_ex_count st]
  then have "length (wr_addrs ?is w_ex_engine) = 1" by simp
  with H show ?thesis by (metis less_numeral_extra(1,3))
qed

section \<open>The data channel\<close>

text \<open>
  The engine counts a beat in every cycle in which the memory is ready and the guard is up, also
  after the last beat, when it offers no data any more.
\<close>

lemma burst_beats_pos [simp]: "0 < burst_beats l d p"
  by (simp add: burst_beats_def)

lemma burst_beats_le: "burst_beats (l :: 'l::len itself) d p \<le> 2 ^ LENGTH('l)"
  using unsigned_less [where 'a = nat, of "ucast (drop_bit (beat_bits d) (ucast (lp_mem_burst_size p) :: u16) - 1) :: 'l word"]
  by (simp only: burst_beats_def)

lemma AWLEN_eq_iff:
  assumes "m < burst_beats TYPE('l::len) d p" and "LENGTH('l) \<le> 8"
  shows "unat (of_nat m :: u8) = unat (of_nat (burst_beats TYPE('l) d p - 1) :: 'l word) \<longleftrightarrow> Suc m = burst_beats TYPE('l) d p"
proof -
  obtain n where n: "burst_beats TYPE('l) d p = Suc n"
    using burst_beats_pos [of "TYPE('l)" d p] by (cases "burst_beats TYPE('l) d p") auto
  have "(2 :: nat) ^ LENGTH('l) \<le> 2 ^ 8" using assms(2) by (intro power_increasing) simp_all
  then have "n < 2 ^ LENGTH('l)" "m < 256" using burst_beats_le [of "TYPE('l)" d p] assms(1) n by simp_all
  then have "unat (of_nat n :: 'l word) = n" "unat (of_nat m :: u8) = m"
    by (simp_all only: unat_of_nat) (simp_all add: take_bit_nat_eq_self)
  then show ?thesis unfolding n by simp
qed

lemma div_mod_Suc_wrap:
  assumes "0 < L" and "Suc (c mod L) = L"
  shows "Suc c div L = Suc (c div L)" and "Suc c mod L = 0"
  using assms by (simp_all add: div_Suc mod_Suc)

lemma div_mod_Suc_step:
  assumes "0 < L" and "Suc (c mod L) \<noteq> L"
  shows "Suc c div L = c div L" and "Suc c mod L = Suc (c mod L)"
  using assms by (simp_all add: div_Suc mod_Suc)

lemma Suc_eq_mult_iff:
  assumes "0 < L" and "0 < N"
  shows "Suc c = N * L \<longleftrightarrow> Suc (c mod L) = L \<and> Suc (c div L) = N"
proof -
  have "N * L = Suc c" if "Suc (c mod L) = L" "Suc (c div L) = N"
    using that div_mult_mod_eq [of c L] by (metis add_Suc_right mult_Suc add.commute)
  moreover have "Suc (c mod L) = L \<and> Suc (c div L) = N" if "Suc c = N * L"
  proof -
    have "Suc c mod L = 0" "Suc c div L = N" using that assms by simp_all
    then show ?thesis using div_mod_Suc_wrap [OF assms(1), of c] div_mod_Suc_step [OF assms(1), of c] by fastforce
  qed
  ultimately show ?thesis by auto
qed

definition data_inv :: "'a::len lt_param \<Rightarrow> nat \<Rightarrow> ('a, 'l::len, 'd::len) wr_engine \<Rightarrow> bool" where
  "data_inv p c s \<longleftrightarrow> len_fits s \<and> w_loaded p s \<and> \<not> w_started s \<and> w_state s \<noteq> WR_STARTED \<and> (w_state s \<noteq> WR_IDLE \<longrightarrow> is_in_progress s)
     \<and> wr_ops s = of_nat (c div beats_of s p) \<and> burst_inc s = of_nat (c mod beats_of s p)
     \<and> (wr_data_done s \<longleftrightarrow> w_count p * beats_of s p \<le> c)"

lemma wr_data_idle:
  assumes "\<not> w_slot i s" and "w_rst_n i" and "\<not> w_started s"
  shows "wr_data i s = (burst_inc s, wr_ops s, wr_data_done s)"
  using assms by (auto simp: wr_data_def w_slot_def)

lemma wr_data_slot:
  fixes s :: "('a::len, 'l::len, 'd::len) wr_engine"
  assumes "data_inv p c s" and "w_slot i s" and "w_rst_n i" and "w_state s \<noteq> WR_IDLE"
    and "0 < w_count p" and "c < 2 ^ 64"
  shows "wr_data i s = (of_nat (Suc c mod beats_of s p), of_nat (Suc c div beats_of s p),
    w_count p * beats_of s p \<le> Suc c)"
proof -
  let ?L = "beats_of s p" and ?N = "w_count p"
  have L: "0 < ?L" by simp
  have "c div ?L < 2 ^ 64" by (rule le_less_trans [OF div_le_dividend assms(6)])
  have "of_nat (c div ?L) = (of_nat ?N - 1 :: u64) \<longleftrightarrow> Suc (c div ?L) = ?N"
    unfolding pred_of_nat [OF assms(5)]
    using of_nat_eq_u64 [OF \<open>c div ?L < 2 ^ 64\<close>, of "?N - 1"] w_count_less [of p] assms(5) by auto
  moreover have "?N * ?L \<le> Suc c \<longleftrightarrow> ?N * ?L \<le> c \<or> Suc (c mod ?L) = ?L \<and> Suc (c div ?L) = ?N"
    using Suc_eq_mult_iff [OF L assms(5), of c] by linarith
  moreover have "unat (burst_inc s) = unat (m_axi_AWLEN s) \<longleftrightarrow> Suc (c mod ?L) = ?L"
    using assms(1) AWLEN_eq_iff [where 'l = 'l and d = "TYPE('d)" and p = p and m = "c mod ?L"]
    by (simp add: data_inv_def w_loaded_def)
  ultimately show ?thesis
    using assms(1-4) div_mod_Suc_wrap [OF L, of c] div_mod_Suc_step [OF L, of c]
    by (cases "Suc (c mod ?L) = ?L") (auto simp: data_inv_def wr_data_def w_slot_def w_loaded_def)
qed

lemma in_progress_cycle:
  assumes "w_state s \<noteq> WR_IDLE" and "w_state s \<noteq> WR_STARTED" and "w_rst_n i" and "is_in_progress s"
  shows "w_state (wr_fsm i s) \<noteq> WR_STARTED" and "w_state (wr_fsm i s) \<noteq> WR_IDLE \<Longrightarrow> is_in_progress (wr_fsm i s)"
  using assms by (auto simp: wr_fsm_def Let_def split: wr_state.splits if_splits)

lemma data_inv_cycle:
  assumes inv: "data_inv p c s" and "w_rst_n i" and "w_state s \<noteq> WR_IDLE" and "\<not> w_start i"
    and "0 < w_count p" and "c < 2 ^ 64"
  shows "data_inv p (c + of_bool (w_slot i s)) (wr_cycle i s)"
proof -
  have s: "w_loaded p s" "w_state s \<noteq> WR_STARTED" "is_in_progress s" "\<not> w_started s"
    using inv assms(3) by (simp_all add: data_inv_def)
  from w_loaded_cycle [OF s(1) assms(2,3) s(2)] in_progress_cycle [OF assms(3) s(2) assms(2) s(3)] assms(4) s
    wr_data_idle [of i s] wr_data_slot [OF inv _ assms(2,3,5,6)] inv assms(2)
  show ?thesis by (cases "w_slot i s") (auto simp: data_inv_def)
qed

text \<open>How many of the first \<open>c\<close> counted cycles carry data, for \<open>N\<close> bursts of \<open>L\<close> beats.\<close>

definition beats_in :: "nat \<Rightarrow> nat \<Rightarrow> nat \<Rightarrow> nat" where
  "beats_in N L c = min c (N * L) + (c - (N + 1) * L)"

lemma beats_in_Suc: "0 < L \<Longrightarrow> beats_in N L (Suc c) = beats_in N L c + of_bool (c div L \<noteq> N)"
proof -
  assume "0 < L"
  then have "c div L = N \<longleftrightarrow> N * L \<le> c \<and> c < (N + 1) * L"
    using less_eq_div_iff_mult_less_eq [of L N c] div_less_iff_less_mult [of L c "N + 1"] by linarith
  then show ?thesis unfolding beats_in_def by (cases "N * L \<le> c"; cases "c < (N + 1) * L") auto
qed

lemma w_beat_iff:
  assumes "data_inv p c s" and "c < 2 ^ 64"
  shows "w_beat i s \<longleftrightarrow> w_slot i s \<and> c div beats_of s p \<noteq> w_count p"
proof -
  have "c div beats_of s p < 2 ^ 64" by (rule le_less_trans [OF div_le_dividend assms(2)])
  from of_nat_eq_u64 [OF this w_count_less] assms(1) show ?thesis
    by (auto simp: w_beat_def w_slot_def m_axi_WVALID_def data_inv_def w_loaded_def)
qed

text \<open>The last flag is up on the last of the beats of a burst.\<close>

lemma WLAST_iff:
  fixes s :: "('a::len, 'l::len, 'd::len) wr_engine"
  assumes "data_inv p c s" and "guard_WVALID s"
  shows "m_axi_WLAST s \<longleftrightarrow> Suc c mod beats_of s p = 0"
proof -
  let ?L = "beats_of s p"
  have L: "0 < ?L" by simp
  have "m_axi_WLAST s \<longleftrightarrow> Suc (c mod ?L) = ?L"
    using assms AWLEN_eq_iff [where 'l = 'l and d = "TYPE('d)" and p = p and m = "c mod ?L"]
    by (simp add: data_inv_def w_loaded_def m_axi_WLAST_def)
  then show ?thesis
    using div_mod_Suc_wrap(2) [OF L, of c] div_mod_Suc_step(2) [OF L, of c] by auto
qed

text \<open>The last flags of the beats sent in the first \<open>c\<close> counted cycles, for \<open>N\<close> bursts of \<open>L\<close> beats.\<close>

definition lasts_in :: "nat \<Rightarrow> nat \<Rightarrow> nat \<Rightarrow> bool list" where
  "lasts_in N L c = map (\<lambda>k. Suc k mod L = 0) (filter (\<lambda>k. k div L \<noteq> N) [0 ..< c])"

lemma lasts_in_first:
  assumes "0 < L" and "c \<le> (N + 1) * L"
  shows "lasts_in N L c = map (\<lambda>k. Suc k mod L = 0) [0 ..< min c (N * L)]"
proof -
  have "k div L \<noteq> N \<longleftrightarrow> k < N * L" if "k < c" for k
    using that assms(2) div_less_iff_less_mult [OF assms(1), of k N]
      div_less_iff_less_mult [OF assms(1), of k "N + 1"] by linarith
  then have "filter (\<lambda>k. k div L \<noteq> N) [0 ..< c] = filter (\<lambda>k. k < N * L) [0 ..< c]"
    by (intro filter_cong) auto
  also have "\<dots> = [0 ..< min c (N * L)]"
    by (induction c) (auto simp: min_def not_less_eq_eq dest: le_antisym)
  finally show ?thesis by (simp add: lasts_in_def)
qed

lemma w_lasts_cycle:
  assumes "data_inv p c s" and "c < 2 ^ 64"
  shows "lasts_in (w_count p) (beats_of s p) c @ w_lasts i s =
    lasts_in (w_count p) (beats_of s p) (c + of_bool (w_slot i s))"
  using w_beat_iff [OF assms, of i] WLAST_iff [OF assms(1)]
  by (auto simp: w_lasts_def lasts_in_def w_slot_def)

definition wr_undisturbed :: "'a::len wr_in \<Rightarrow> ('a, 'l::len, 'd::len) wr_engine \<Rightarrow> bool" where
  "wr_undisturbed i s \<longleftrightarrow> wr_live i s \<and> \<not> w_start i"

text \<open>The engine is done with the run only after the last beat.\<close>

definition ended_late :: "'a::len lt_param \<Rightarrow> nat \<Rightarrow> ('a, 'l::len, 'd::len) wr_engine \<Rightarrow> bool" where
  "ended_late p c s \<longleftrightarrow> (w_state s \<in> {WR_END, WR_IDLE} \<longrightarrow> w_count p * beats_of s p \<le> c)"

lemma ended_late_cycle:
  assumes "data_inv p c s" and "ended_late p c s" and "w_rst_n i" and "w_state s \<noteq> WR_IDLE"
  shows "ended_late p (c + of_bool (w_slot i s)) (wr_cycle i s)"
  using assms by (auto simp: ended_late_def data_inv_def wr_fsm_def Let_def split: wr_state.splits if_splits)

lemma data_inv_launched:
  assumes "w_launched p s" and "w_rst_n i" and "\<not> w_start i" and "0 < w_count p"
    and "len_fits s"
  shows "data_inv p 0 (wr_cycle i s)" and "ended_late p 0 (wr_cycle i s)" and "\<not> w_slot i s" and "\<not> w_beat i s"
proof -
  note l = w_loaded_started [OF assms(1,2)]
  have "\<not> guard_WVALID s" using assms(1) by (simp add: w_launched_def)
  then show "\<not> w_slot i s" "\<not> w_beat i s" by (simp_all add: w_slot_def w_beat_def m_axi_WVALID_def)
  show "ended_late p 0 (wr_cycle i s)" using l(7) by (simp add: ended_late_def del: wr_cycle_fsm)
  have "\<not> w_started (wr_cycle i s)" using assms(3) by simp
  with l assms(4,5) show "data_inv p 0 (wr_cycle i s)"
    by (simp add: data_inv_def del: wr_cycle_fsm)
qed

lemma data_run:
  assumes "busy wr_cycle wr_undisturbed is s" and "w_launched p s" and "0 < w_count p" and "length is < 2 ^ 64"
    and "len_fits s"
  shows "is = [] \<or> data_inv p (cycles wr_cycle w_slot is s) (wr_run is s)
    \<and> ended_late p (cycles wr_cycle w_slot is s) (wr_run is s)
    \<and> cycles wr_cycle w_beat is s = beats_in (w_count p) (beats_of s p) (cycles wr_cycle w_slot is s)
    \<and> collect wr_cycle w_lasts is s = lasts_in (w_count p) (beats_of s p) (cycles wr_cycle w_slot is s)"
  using assms(1,4)
proof (induction rule: run_induct)
  case (Cycle js i)
  let ?t = "wr_run js s" and ?c = "cycles wr_cycle w_slot js s"
  have i: "w_rst_n i" "w_state ?t \<noteq> WR_IDLE" "\<not> w_start i"
    using Cycle.hyps(2) by (simp_all add: wr_undisturbed_def wr_live_def)
  show ?case
  proof (cases "js = []")
    case True
    with data_inv_launched [OF assms(2) i(1,3) assms(3,5)] show ?thesis
      by (simp add: beats_in_def lasts_in_def w_lasts_def)
  next
    case False
    with Cycle have inv: "data_inv p ?c ?t" "ended_late p ?c ?t"
      "cycles wr_cycle w_beat js s = beats_in (w_count p) (beats_of s p) ?c"
      "collect wr_cycle w_lasts js s = lasts_in (w_count p) (beats_of s p) ?c" by simp_all
    have c: "?c < 2 ^ 64" using Cycle.prems cycles_le [of wr_cycle w_slot js s] by simp
    from data_inv_cycle [OF inv(1) i assms(3) c] ended_late_cycle [OF inv(1,2) i(1,2)] w_beat_iff [OF inv(1) c, of i]
      inv(3) beats_in_Suc [of "beats_of s p" "w_count p" ?c] w_lasts_cycle [OF inv(1) c, of i] inv(4)
    show ?thesis by (cases "w_slot i ?t") (simp_all add: cycles_append collect_append)
  qed
qed simp

text \<open>
  C27. Write data: while \<open>c\<close> counts the cycles in which the memory is ready and the engine's guard is
  up, the memory gets the configured bursts and no more as long as \<open>c\<close> stays below one burst more
  than that; every further cycle carries a beat that belongs to no address. The last flag is up on
  exactly the beats that end a burst, the \<open>L\<close>-th, \<open>2L\<close>-th, ..., so every burst the memory gets has the
  configured length. The engine ends its run only after the last configured beat.
\<close>

theorem wr_data_beats:
  assumes "busy wr_cycle wr_undisturbed is s" and "w_launched p s" and "0 < w_count p" and "length is < 2 ^ 64"
    and "len_fits s"
  defines "c \<equiv> cycles wr_cycle w_slot is s" and "N \<equiv> w_count p" and "L \<equiv> beats_of s p"
  shows "cycles wr_cycle w_beat is s = min c (N * L) + (c - (N + 1) * L)
    \<and> collect wr_cycle (\<lambda>i s. if w_beat i s then [m_axi_WLAST s] else []) is s
        = map (\<lambda>k. Suc k mod L = 0) (filter (\<lambda>k. k div L \<noteq> N) [0 ..< c])
    \<and> (c \<le> (N + 1) * L \<longrightarrow>
        collect wr_cycle (\<lambda>i s. if w_beat i s then [m_axi_WLAST s] else []) is s
        = map (\<lambda>k. Suc k mod L = 0) [0 ..< min c (N * L)])
    \<and> (w_state (wr_run is s) \<in> {WR_END, WR_IDLE} \<longrightarrow> N * L \<le> c)"
proof -
  have w: "collect wr_cycle (\<lambda>i s. if w_beat i s then [m_axi_WLAST s] else []) is s = collect wr_cycle w_lasts is s"
    by (simp only: w_lasts_def [abs_def])
  show ?thesis
    unfolding w using data_run [OF assms(1-5)] assms(2) lasts_in_first [of L c N]
    by (auto simp: c_def N_def L_def beats_in_def ended_late_def w_launched_def lasts_in_def)
qed

text \<open>A memory that takes data but lets the address wait gets four beats for a burst of one, each marked last.\<close>

theorem wr_data_beats_witness:
  "let is = replicate 7 (w_mem_in False True)
   in cycles wr_cycle w_slot is w_ex_engine = 5 \<and> cycles wr_cycle w_beat is w_ex_engine = 4
     \<and> collect wr_cycle (\<lambda>i s. if w_beat i s then [m_axi_WLAST s] else []) is w_ex_engine = [True, True, True, True]"
proof -
  let ?is = "replicate 7 (w_mem_in False True)"
  have "busy wr_cycle wr_undisturbed ?is w_ex_engine" "cycles wr_cycle w_slot ?is w_ex_engine = 5"
    by code_simp+
  with wr_data_beats [OF this(1) w_ex_launched] show ?thesis by (simp add: w_ex_count upt_rec)
qed

section \<open>Runs end\<close>

definition w_progress :: "'a::len lt_param \<Rightarrow> 'a wr_in list \<Rightarrow> ('a, 'l::len, 'd::len) wr_engine \<Rightarrow> bool" where
  "w_progress p is s \<longleftrightarrow> busy wr_cycle wr_undisturbed is s \<and> wa.addr_inv p (wr_addrs is s) (wr_run is s)
     \<and> w_state (wr_run is s) \<in> {WR_TH_VALID, WR_TH_DATA} \<and> w_lat_timer_sum (wr_run is s) = of_nat (length is - 1)"

lemma w_progress_launched:
  assumes "w_launched p s" and "0 < w_count p" and "w_rst_n i" and "\<not> w_start i"
  shows "w_progress p [i] s"
proof -
  note l = w_loaded_started [OF assms(1,3)]
  have "wr_undisturbed i s" using assms(1,3,4) by (simp add: wr_undisturbed_def wr_live_def w_launched_def)
  with wa.addr_inv_begin [OF assms(1,3,2)] l(4,7,8) show ?thesis
    by (simp add: w_progress_def wa_observations del: wr_cycle_fsm)
qed

lemma w_active_cycle:
  assumes "w_state s \<in> {WR_TH_VALID, WR_TH_DATA}" and "w_rst_n i" and "\<not> wr_data_done s"
  shows "w_state (wr_fsm i s) \<in> {WR_TH_VALID, WR_TH_DATA}" and "w_lat_timer_sum (wr_fsm i s) = w_lat_timer_sum s + 1"
  using assms by (auto simp: wr_fsm_def Let_def)

lemma w_progress_cycle:
  assumes pr: "w_progress p is s" and "is \<noteq> []" and "w_launched p s" and "0 < w_count p" and "length is < 2 ^ 64"
    and "cycles wr_cycle w_slot is s < w_count p * beats_of s p" and "w_rst_n i" and "\<not> w_start i"
    and "len_fits s"
  shows "w_progress p (is @ [i]) s"
proof -
  let ?t = "wr_run is s"
  have b: "busy wr_cycle wr_undisturbed is s" and st: "w_state ?t \<in> {WR_TH_VALID, WR_TH_DATA}"
    and tm: "w_lat_timer_sum ?t = of_nat (length is - 1)" and a: "wa.addr_inv p (wr_addrs is s) ?t"
    using pr by (simp_all add: w_progress_def)
  have "\<not> wr_data_done ?t" using data_run [OF b assms(3-5,9)] assms(2,6) by (auto simp: data_inv_def)
  note ac = w_active_cycle [OF st assms(7) this]
  have "w_state ?t \<noteq> WR_IDLE" using st by auto
  note a' = wa.addr_inv_cycle [OF a assms(7) this]
  have "w_lat_timer_sum (wr_cycle i ?t) = of_nat (length is)" using ac(2) tm assms(2) by (cases "is") simp_all
  then show ?thesis
    using b ac(1) a' \<open>w_state ?t \<noteq> WR_IDLE\<close> assms(7,8)
    by (simp add: w_progress_def busy_append collect_append wa_observations wr_undisturbed_def wr_live_def)
qed

lemma w_progress_run:
  assumes "w_launched p s" and "0 < w_count p" and "is \<noteq> []" and "\<forall>i \<in> set is. w_rst_n i \<and> \<not> w_start i"
    and "length is < 2 ^ 64" and "cycles wr_cycle w_slot (butlast is) s < w_count p * beats_of s p"
    and "len_fits s"
  shows "w_progress p is s"
  using assms(3-6)
proof (induction "is" rule: rev_induct)
  case (snoc i js)
  show ?case
  proof (cases "js = []")
    case True
    with snoc.prems w_progress_launched [OF assms(1,2)] show ?thesis by simp
  next
    case False
    then have "cycles wr_cycle w_slot (butlast js) s \<le> cycles wr_cycle w_slot js s"
      by (cases js rule: rev_cases) (simp_all add: cycles_append)
    with snoc.prems have pj: "w_progress p js s" using False by (intro snoc.IH) auto
    show ?thesis
    proof (rule w_progress_cycle [OF pj False assms(1,2) _ _ _ _ assms(7)])
      show "length js < 2 ^ 64" "cycles wr_cycle w_slot js s < w_count p * beats_of s p" "w_rst_n i" "\<not> w_start i"
        using snoc.prems by simp_all
    qed
  qed
qed simp

lemma w_finish:
  fixes s :: "('a::len, 'l::len, 'd::len) wr_engine"
  assumes "w_state s = WR_TH_DATA" and "wr_data_done s" and "wr_ops s = w_num_mem_ops_r s" and "w_rst_n i" and "w_rst_n j"
  shows "w_state (wr_run [i, j] s) = WR_IDLE" and "w_end_of_exec (wr_run [i, j] s)"
    and "w_lat_timer_sum (wr_run [i, j] s) = w_lat_timer_sum s + 2" and "cycles wr_cycle w_beat [i, j] s = 0"
proof -
  have st: "w_state (wr_cycle i s) = WR_END" "\<not> guard_WVALID (wr_cycle i s)" "w_lat_timer_sum (wr_cycle i s) = w_lat_timer_sum s + 1"
    using assms by (simp_all add: wr_fsm_def Let_def)
  moreover have "w_state (wr_cycle j t) = WR_IDLE" "w_end_of_exec (wr_cycle j t)" "w_lat_timer_sum (wr_cycle j t) = w_lat_timer_sum t + 1"
    if "w_state t = WR_END" for t :: "('a, 'l, 'd) wr_engine" using that assms(5) by (simp_all add: wr_fsm_def Let_def)
  ultimately show "w_state (wr_run [i, j] s) = WR_IDLE" "w_end_of_exec (wr_run [i, j] s)"
    "w_lat_timer_sum (wr_run [i, j] s) = w_lat_timer_sum s + 2" by (simp_all del: wr_cycle_fsm)
  show "cycles wr_cycle w_beat [i, j] s = 0"
    using assms(3) st(2) by (simp add: w_beat_def m_axi_WVALID_def del: wr_cycle_fsm)
qed

lemma wr_throughput_run_ends:
  assumes "w_launched p s" and "0 < w_count p" and "is \<noteq> []" and "\<forall>i \<in> set is. w_rst_n i \<and> \<not> w_start i"
    and "length is < 2 ^ 64" and "length (wr_addrs is s) = w_count p"
    and "cycles wr_cycle w_slot is s = w_count p * beats_of s p" and "w_slot (last is) (wr_run (butlast is) s)"
    and "w_rst_n i" and "w_rst_n j"
    and "len_fits s"
  shows "w_state (wr_run (is @ [i, j]) s) = WR_IDLE \<and> w_end_of_exec (wr_run (is @ [i, j]) s)
    \<and> w_lat_timer_sum (wr_run (is @ [i, j]) s) = of_nat (length is + 1)
    \<and> cycles wr_cycle w_beat (is @ [i, j]) s = w_count p * beats_of s p"
proof -
  let ?t = "wr_run is s"
  have "is = butlast is @ [last is]" using assms(3) by simp
  then have "cycles wr_cycle w_slot (butlast is) s + 1 = cycles wr_cycle w_slot is s"
    using assms(8) cycles_append [of wr_cycle w_slot "butlast is" "[last is]" s] by simp
  then have pr: "w_progress p is s" using w_progress_run [OF assms(1-5)] assms(7,11) by simp
  then have t: "w_state ?t = WR_TH_DATA" "w_lat_timer_sum ?t = of_nat (length is - 1)"
    using assms(6) by (auto simp: w_progress_def wa.addr_inv_def wr_phases split: if_splits)
  have d: "data_inv p (w_count p * beats_of s p) ?t"
    and b: "cycles wr_cycle w_beat is s = beats_in (w_count p) (beats_of s p) (w_count p * beats_of s p)"
    using data_run [of "is" s p] pr assms(1-3,5,7,11) by (auto simp: w_progress_def)
  then have "wr_data_done ?t" "wr_ops ?t = w_num_mem_ops_r ?t"
    by (simp_all add: data_inv_def w_loaded_def)
  note f = w_finish [OF t(1) this assms(9,10)]
  have "of_nat (length is - 1) + 2 = (of_nat (length is + 1) :: u64)" using assms(3) by (cases "is") simp_all
  with f t(2) b show ?thesis by (simp add: cycles_append beats_in_def del: wr_cycle_fsm)
qed

text \<open>
  A write run ends. Let \<open>is\<close> be the cycles from the launch on, in which the memory took all
  addresses and all beats, the last beat in the last cycle. Two cycles later the engine reports
  the end and is idle, its timer shows the cycles of the run, and the memory got exactly the
  configured bursts. The responses of the memory are not waited for.
\<close>

theorem wr_run_ends:
  assumes "w_launched p s" and "0 < w_count p" and "is \<noteq> []" and "\<forall>i \<in> set is. w_rst_n i \<and> \<not> w_start i"
    and "length is < 2 ^ 64" and "length (wr_addrs is s) = w_count p"
    and "cycles wr_cycle w_slot is s = w_count p * beats_of s p" and "w_slot (last is) (wr_run (butlast is) s)"
    and "w_rst_n i" and "w_rst_n j"
    and "len_fits s"
  shows "w_state (wr_run (is @ [i, j]) s) = WR_IDLE \<and> w_end_of_exec (wr_run (is @ [i, j]) s)
    \<and> w_lat_timer_sum (wr_run (is @ [i, j]) s) = of_nat (length is + 1)
    \<and> cycles wr_cycle w_beat (is @ [i, j]) s = w_count p * beats_of s p"
  using wr_throughput_run_ends [OF assms] .

theorem wr_run_ends_witness:
  "let x = w_mem_in True True; is = replicate 3 x @ [x, x]
   in w_end_of_exec (wr_run is w_ex_engine) \<and> cycles wr_cycle w_beat is w_ex_engine = 1"
proof -
  let ?is = "replicate 3 (w_mem_in True True)" and ?i = "w_mem_in True True"
  have "\<forall>i \<in> set ?is. w_rst_n i \<and> \<not> w_start i" "w_rst_n ?i" by (simp_all add: w_mem_in_def)
  moreover have "length (wr_addrs ?is w_ex_engine) = w_count w_ex_params" "0 < w_count w_ex_params"
    "cycles wr_cycle w_slot ?is w_ex_engine = w_count w_ex_params * beats_of w_ex_engine w_ex_params"
    "w_slot (last ?is) (wr_run (butlast ?is) w_ex_engine)" by code_simp+
  moreover have "?is \<noteq> []" "length ?is < 2 ^ 64" "len_fits w_ex_engine" by simp_all
  ultimately have "w_end_of_exec (wr_run (?is @ [?i, ?i]) w_ex_engine)
      \<and> cycles wr_cycle w_beat (?is @ [?i, ?i]) w_ex_engine = w_count w_ex_params * beats_of w_ex_engine w_ex_params"
    using wr_run_ends [OF w_ex_launched, of ?is ?i ?i] by blast
  then show ?thesis unfolding w_ex_count Let_def by simp
qed

end
