(* ===== verification/Lt_Engine.thy ===== *)
theory Lt_Engine
  imports Rd_Engine Wr_Engine
begin

text \<open>
  The wrapper of the two engines of a channel, \<open>hw/rtl/u280_hbm/lt_engine.sv\<close>, and the logic of
  \<open>hbm_benchmark.sv\<close> around it: the register with the parameters of the channel, the detection of
  the rising start bit, and the flags that remember that an engine has ended. All clocks of a
  channel are one clock here; the register file's outputs are inputs.
\<close>

section \<open>The wrapper\<close>

text \<open>Half of a parameter word: the parameters of a direction and the number of the channel.\<close>

record (overloaded) 'a lt_half =
  lh_param :: "'a lt_param"
  lh_id :: "5 word"

record (overloaded) ('a, 'l, 'd) lt_engine =
  start_wr_reg :: bool
  start_rd_reg :: bool
  ld_params_wr_reg :: bool
  ld_params_rd_reg :: bool
  lt_params_reg_wr :: "'a lt_half"
  lt_params_reg_rd :: "'a lt_half"
  staged_wr :: "'a lt_half"
  staged_rd :: "'a lt_half"
  wr :: "('a, 'l, 'd) wr_engine"
  rd :: "'a rd_engine"

record axi_in =
  arstn :: bool
  awready :: bool
  wready :: bool
  arready :: bool
  rvalid :: bool
  rlast :: bool

record (overloaded) 'a lt_in =
  le_axi :: axi_in
  le_start_wr :: bool
  le_start_rd :: bool
  le_ld_wr :: bool
  le_ld_rd :: bool
  le_params_wr :: "'a lt_half"
  le_params_rd :: "'a lt_half"

definition wr_inputs :: "axi_in \<Rightarrow> ('a::len, 'l::len, 'd::len) lt_engine \<Rightarrow> 'a wr_in" where
  "wr_inputs x s = \<lparr>w_rst_n = arstn x, w_start = start_wr_reg s, w_lt_params_in = lh_param (staged_wr s),
     m_axi_AWREADY = awready x, m_axi_WREADY = wready x\<rparr>"

definition rd_inputs :: "axi_in \<Rightarrow> ('a::len, 'l::len, 'd::len) lt_engine \<Rightarrow> 'a rd_in" where
  "rd_inputs x s = \<lparr>rst_n = arstn x, start = start_rd_reg s, lt_params_in = lh_param (staged_rd s),
     m_axi_ARREADY = arready x, m_axi_RVALID = rvalid x, m_axi_RLAST = rlast x\<rparr>"

text \<open>The read half is compared before the register and taken from behind it.\<close>

definition lt_cycle :: "nat \<Rightarrow> 'a::len lt_in \<Rightarrow> ('a, 'l::len, 'd::len) lt_engine \<Rightarrow> ('a, 'l, 'd) lt_engine" where
  "lt_cycle ENGINE_ID i s =
     \<lparr>start_wr_reg = le_start_wr i, start_rd_reg = le_start_rd i,
      ld_params_wr_reg = le_ld_wr i, ld_params_rd_reg = le_ld_rd i,
      lt_params_reg_wr = le_params_wr i, lt_params_reg_rd = le_params_rd i,
      staged_wr = (if ld_params_wr_reg s \<and> unat (lh_id (lt_params_reg_wr s)) = ENGINE_ID
                   then lt_params_reg_wr s else staged_wr s),
      staged_rd = (if ld_params_rd_reg s \<and> unat (lh_id (le_params_rd i)) = ENGINE_ID
                   then lt_params_reg_rd s else staged_rd s),
      wr = wr_cycle (wr_inputs (le_axi i) s) (wr s), rd = rd_cycle (rd_inputs (le_axi i) s) (rd s)\<rparr>"

section \<open>The channel\<close>

record (overloaded) ('a, 'l, 'd) hbm_chan =
  chan_params_wr :: "'a lt_half"
  chan_params_rd :: "'a lt_half"
  start_r :: bool
  start_rr :: bool
  start_wr :: bool
  start_rd :: bool
  ld_params_wr :: bool
  ld_params_rd :: bool
  end_wr_o :: bool
  end_rd_o :: bool
  engine :: "('a, 'l, 'd) lt_engine"

record (overloaded) 'a chan_in =
  ci_axi :: axi_in
  ci_params :: "'a lt_param"
  ci_channel :: nat
  ci_write_enable :: bool
  ci_read_enable :: bool
  ci_start :: bool

definition reset_params :: "nat \<Rightarrow> 'a::len lt_param \<Rightarrow> 'a lt_param" where
  "reset_params k p = p\<lparr>lp_initial_addr := 0x10000000 * of_nat k, lp_latency_test_enable := False\<rparr>"

definition next_params :: "nat \<Rightarrow> 'a::len chan_in \<Rightarrow> ('a, 'l::len, 'd::len) hbm_chan \<Rightarrow> 'a lt_half \<times> 'a lt_half" where
  "next_params k i s =
     (if \<not> arstn (ci_axi i) then (\<lparr>lh_param = reset_params k (ci_params i), lh_id = of_nat k\<rparr>, chan_params_wr s)
      else if ci_channel i = k then (\<lparr>lh_param = ci_params i, lh_id = of_nat k\<rparr>, chan_params_wr s)
      else (chan_params_wr s, chan_params_rd s))"

definition start_edge :: "('a::len, 'l::len, 'd::len) hbm_chan \<Rightarrow> bool" where
  "start_edge s \<longleftrightarrow> start_r s \<and> \<not> start_rr s"

definition lt_inputs :: "'a::len chan_in \<Rightarrow> ('a, 'l::len, 'd::len) hbm_chan \<Rightarrow> 'a lt_in" where
  "lt_inputs i s = \<lparr>le_axi = ci_axi i, le_start_wr = start_wr s, le_start_rd = start_rd s, le_ld_wr = ld_params_wr s,
     le_ld_rd = ld_params_rd s, le_params_wr = chan_params_wr s, le_params_rd = chan_params_rd s\<rparr>"

definition chan_cycle :: "nat \<Rightarrow> 'a::len chan_in \<Rightarrow> ('a, 'l::len, 'd::len) hbm_chan \<Rightarrow> ('a, 'l, 'd) hbm_chan" where
  "chan_cycle k i s =
     (let up = arstn (ci_axi i) in
      \<lparr>chan_params_wr = fst (next_params k i s), chan_params_rd = snd (next_params k i s),
       start_r = ci_start i, start_rr = start_r s,
       start_wr = (if \<not> up then False else if ci_write_enable i then start_edge s else start_wr s),
       start_rd = (if \<not> up then False else if ci_read_enable i then start_edge s else start_rd s),
       ld_params_wr = (if \<not> up \<or> ci_write_enable i then True else ld_params_wr s),
       ld_params_rd = (if \<not> up \<or> ci_read_enable i then True else ld_params_rd s),
       end_wr_o = (if \<not> up then False else if start_edge s then False
                   else if w_end_of_exec (wr (engine s)) then True else end_wr_o s),
       end_rd_o = (if \<not> up then False else if start_edge s then False
                   else if end_of_exec (rd (engine s)) then True else end_rd_o s),
       engine = lt_cycle k (lt_inputs i s) (engine s)\<rparr>)"

section \<open>The engines inside the channel\<close>

abbreviation rd_in_chan :: "nat \<Rightarrow> 'a::len chan_in list \<Rightarrow> ('a, 'l::len, 'd::len) hbm_chan \<Rightarrow> 'a rd_in list" where
  "rd_in_chan k \<equiv> inputs_of (chan_cycle k) (\<lambda>i s. rd_inputs (ci_axi i) (engine s))"

abbreviation wr_in_chan :: "nat \<Rightarrow> 'a::len chan_in list \<Rightarrow> ('a, 'l::len, 'd::len) hbm_chan \<Rightarrow> 'a wr_in list" where
  "wr_in_chan k \<equiv> inputs_of (chan_cycle k) (\<lambda>i s. wr_inputs (ci_axi i) (engine s))"

lemma rd_chan_run: "rd (engine (fold (chan_cycle k) is s)) = rd_run (rd_in_chan k is s) (rd (engine s))"
  by (rule part_run [where f = "\<lambda>s. rd (engine s)"]) (simp add: chan_cycle_def lt_cycle_def lt_inputs_def Let_def)

lemma wr_chan_run: "wr (engine (fold (chan_cycle k) is s)) = wr_run (wr_in_chan k is s) (wr (engine s))"
  by (rule part_run [where f = "\<lambda>s. wr (engine s)"]) (simp add: chan_cycle_def lt_cycle_def lt_inputs_def Let_def)

text \<open>A channel around two engines and the signals of its surroundings, for examples.\<close>

definition ex_half :: "33 lt_half" where
  "ex_half = \<lparr>lh_param = w_ex_params, lh_id = 4\<rparr>"

definition ex_chan :: "(33, 4, 256) wr_engine \<Rightarrow> 33 rd_engine \<Rightarrow> (33, 4, 256) hbm_chan" where
  "ex_chan w r = \<lparr>chan_params_wr = ex_half, chan_params_rd = ex_half, start_r = False, start_rr = False, start_wr = False,
     start_rd = False, ld_params_wr = True, ld_params_rd = True, end_wr_o = False, end_rd_o = False,
     engine = \<lparr>start_wr_reg = False, start_rd_reg = False, ld_params_wr_reg = True, ld_params_rd_reg = True,
       lt_params_reg_wr = ex_half, lt_params_reg_rd = ex_half, staged_wr = ex_half, staged_rd = ex_half, wr = w, rd = r\<rparr>\<rparr>"

definition ex_in :: "bool \<Rightarrow> bool \<Rightarrow> 33 chan_in" where
  "ex_in lb st = \<lparr>ci_axi = \<lparr>arstn = True, awready = True, wready = True, arready = True, rvalid = lb, rlast = lb\<rparr>,
     ci_params = ex_params False, ci_channel = 4, ci_write_enable = True, ci_read_enable = True, ci_start = st\<rparr>"

section \<open>Loading parameters and starting\<close>

text \<open>The channel holds the parameters \<open>p\<close> in all its stages.\<close>

definition held :: "nat \<Rightarrow> 'a::len lt_param \<Rightarrow> ('a, 'l::len, 'd::len) hbm_chan \<Rightarrow> bool" where
  "held k p s \<longleftrightarrow> (let h = \<lparr>lh_param = p, lh_id = of_nat k\<rparr>; e = engine s in
     chan_params_wr s = h \<and> chan_params_rd s = h \<and> lt_params_reg_wr e = h \<and> lt_params_reg_rd e = h
     \<and> lh_param (staged_wr e) = p \<and> lh_param (staged_rd e) = p
     \<and> w_lt_params_r (wr e) = p \<and> lt_params_r (rd e) = p)"

definition idle_engines :: "('a::len, 'l::len, 'd::len) hbm_chan \<Rightarrow> bool" where
  "idle_engines s \<longleftrightarrow> w_state (wr (engine s)) = WR_IDLE \<and> state (rd (engine s)) = RD_IDLE"

text \<open>The registers a start passes through: two of the start bit, then three in each direction.\<close>

definition wave :: "('a::len, 'l::len, 'd::len) hbm_chan \<Rightarrow> (bool \<times> bool) \<times> (bool \<times> bool \<times> bool) \<times> (bool \<times> bool \<times> bool)" where
  "wave s = ((start_r s, start_rr s),
     (start_wr s, start_wr_reg (engine s), w_started (wr (engine s))),
     (start_rd s, start_rd_reg (engine s), started (rd (engine s))))"

definition calm_wave :: "('a::len, 'l::len, 'd::len) hbm_chan \<Rightarrow> bool" where
  "calm_wave s \<longleftrightarrow> snd (wave s) = ((False, False, False), (False, False, False)) \<and> (start_r s \<longrightarrow> start_rr s)"

definition settled :: "nat \<Rightarrow> 'a::len lt_param \<Rightarrow> ('a, 'l::len, 'd::len) hbm_chan \<Rightarrow> bool" where
  "settled k p s \<longleftrightarrow> held k p s \<and> idle_engines s \<and> calm_wave s \<and> \<not> start_r s"

text \<open>In a cycle the channel is not in reset, and it is not selected or the registers hold \<open>p\<close>.\<close>

definition steady :: "nat \<Rightarrow> 'a::len lt_param \<Rightarrow> bool \<Rightarrow> bool \<Rightarrow> 'a chan_in \<Rightarrow> bool" where
  "steady k p we re i \<longleftrightarrow> arstn (ci_axi i) \<and> (ci_channel i = k \<longrightarrow> ci_params i = p)
     \<and> ci_write_enable i = we \<and> ci_read_enable i = re"

lemma cycle_inputs:
  "started (rd_cycle i s) \<longleftrightarrow> rst_n i \<and> start i" "lt_params_r (rd_cycle i s) = lt_params_in i"
  "w_lt_params_r (wr_cycle j t) = w_lt_params_in j"
  by (simp_all add: rd_cycle_def wr_cycle_def split: prod.split)

lemma chan_sel:
  "rd (engine (chan_cycle k i s)) = rd_cycle (rd_inputs (ci_axi i) (engine s)) (rd (engine s))"
  "wr (engine (chan_cycle k i s)) = wr_cycle (wr_inputs (ci_axi i) (engine s)) (wr (engine s))"
  by (simp_all add: chan_cycle_def lt_cycle_def lt_inputs_def Let_def)

lemma held_cycle: "held k p s \<Longrightarrow> steady k p we re i \<Longrightarrow> held k p (chan_cycle k i s)"
  by (auto simp: held_def steady_def chan_cycle_def lt_cycle_def lt_inputs_def next_params_def Let_def cycle_inputs
      wr_inputs_def rd_inputs_def)

lemma wave_cycle:
  assumes "steady k p we re i" and "wave s = ((a, b), (w1, w2, w3), (r1, r2, r3))"
  shows "wave (chan_cycle k i s) = ((ci_start i, a), (if we then a \<and> \<not> b else w1, w1, w2), (if re then a \<and> \<not> b else r1, r1, r2))"
  using assms
  by (auto simp: wave_def steady_def chan_cycle_def lt_cycle_def lt_inputs_def Let_def cycle_inputs start_edge_def
      wr_inputs_def rd_inputs_def)

lemma idle_cycle:
  assumes "steady k p we re i" and "idle_engines s" and "\<not> w_started (wr (engine s))" and "\<not> started (rd (engine s))"
  shows "idle_engines (chan_cycle k i s)"
  using assms
  by (simp add: idle_engines_def chan_sel steady_def rd_cycle_def rd_fsm_def wr_fsm_def rd_inputs_def wr_inputs_def)

lemma launch_cycle:
  assumes "steady k p we re i" and "held k p s" and "idle_engines s"
  shows "if w_started (wr (engine s)) then w_launched p (wr (engine (chan_cycle k i s)))
    else w_state (wr (engine (chan_cycle k i s))) = WR_IDLE"
    and "if started (rd (engine s)) then launched p (rd (engine (chan_cycle k i s)))
    else state (rd (engine (chan_cycle k i s))) = RD_IDLE"
proof -
  have p: "w_lt_params_r (wr (engine s)) = p" "lt_params_r (rd (engine s)) = p"
    using assms(2) by (simp_all add: held_def Let_def)
  have "w_rst_n (wr_inputs (ci_axi i) (engine s))" "rst_n (rd_inputs (ci_axi i) (engine s))"
    using assms(1) by (simp_all add: steady_def wr_inputs_def rd_inputs_def)
  with p assms(3) w_idle_launches [of "wr (engine s)"] idle_launches [of "rd (engine s)"]
  show "if w_started (wr (engine s)) then w_launched p (wr (engine (chan_cycle k i s)))
    else w_state (wr (engine (chan_cycle k i s))) = WR_IDLE"
    "if started (rd (engine s)) then launched p (rd (engine (chan_cycle k i s)))
    else state (rd (engine (chan_cycle k i s))) = RD_IDLE"
    by (auto simp: chan_sel idle_engines_def rd_cycle_def rd_fsm_def wr_fsm_def)
qed

lemma settled_launches:
  assumes "settled k p s" and "\<forall>i \<in> {i0, i1, i2, i3, i4}. steady k p we re i" and "ci_start i0"
    and "ci_start i2 \<longrightarrow> ci_start i1" and "ci_start i3 \<longrightarrow> ci_start i2" and "ci_start i4 \<longrightarrow> ci_start i3"
  defines "t \<equiv> fold (chan_cycle k) [i0, i1, i2, i3, i4] s"
  shows "(if we then w_launched p (wr (engine t)) else w_state (wr (engine t)) = WR_IDLE)
    \<and> (if re then launched p (rd (engine t)) else state (rd (engine t)) = RD_IDLE) \<and> calm_wave t"
proof -
  let ?s1 = "chan_cycle k i0 s"
  let ?s2 = "chan_cycle k i1 ?s1"
  let ?s3 = "chan_cycle k i2 ?s2"
  let ?s4 = "chan_cycle k i3 ?s3"
  have st: "steady k p we re i0" "steady k p we re i1" "steady k p we re i2" "steady k p we re i3" "steady k p we re i4"
    using assms(2) by auto
  obtain b where w0: "wave s = ((False, b), (False, False, False), (False, False, False))"
    using assms(1) by (auto simp: settled_def calm_wave_def wave_def)
  then have w1: "wave ?s1 = ((True, False), (False, False, False), (False, False, False))"
    using wave_cycle [OF st(1) w0] assms(3) by simp
  note w2 = wave_cycle [OF st(2) w1]
  note w3 = wave_cycle [OF st(3) w2]
  note w4 = wave_cycle [OF st(4) w3]
  note w5 = wave_cycle [OF st(5) w4]
  have q: "\<not> w_started (wr (engine s))" "\<not> started (rd (engine s))" using w0 by (auto simp: wave_def)
  have q1: "\<not> w_started (wr (engine ?s1))" "\<not> started (rd (engine ?s1))" using w1 by (simp_all add: wave_def)
  have q2: "\<not> w_started (wr (engine ?s2))" "\<not> started (rd (engine ?s2))" using w2 by (simp_all add: wave_def)
  have q3: "\<not> w_started (wr (engine ?s3))" "\<not> started (rd (engine ?s3))" using w3 by (simp_all add: wave_def)
  have q4: "w_started (wr (engine ?s4)) = we" "started (rd (engine ?s4)) = re" using w4 by (simp_all add: wave_def)
  have s: "idle_engines s" "held k p s" using assms(1) by (simp_all add: settled_def)
  note i = idle_cycle [OF st(4) idle_cycle [OF st(3) idle_cycle [OF st(2) idle_cycle [OF st(1) s(1) q] q1] q2] q3]
  note h = held_cycle [OF held_cycle [OF held_cycle [OF held_cycle [OF s(2) st(1)] st(2)] st(3)] st(4)]
  note l = launch_cycle [OF st(5) h i]
  have "calm_wave t" using w5 assms(4-6) by (auto simp: t_def calm_wave_def wave_def)
  with l q4 show ?thesis by (simp add: t_def)
qed

text \<open>Once out of reset, the wrapper always takes the parameters over.\<close>

definition loading :: "('a::len, 'l::len, 'd::len) hbm_chan \<Rightarrow> bool" where
  "loading s \<longleftrightarrow> ld_params_wr s \<and> ld_params_rd s \<and> ld_params_wr_reg (engine s) \<and> ld_params_rd_reg (engine s)"

text \<open>How far the parameters have come after \<open>n\<close> cycles in which the channel was selected.\<close>

definition filled :: "nat \<Rightarrow> 'a::len lt_param \<Rightarrow> nat \<Rightarrow> ('a, 'l::len, 'd::len) hbm_chan \<Rightarrow> bool" where
  "filled k p n s \<longleftrightarrow> (let h = \<lparr>lh_param = p, lh_id = of_nat k\<rparr>; e = engine s in
     (1 \<le> n \<longrightarrow> chan_params_wr s = h) \<and> (2 \<le> n \<longrightarrow> chan_params_rd s = h \<and> lt_params_reg_wr e = h)
     \<and> (3 \<le> n \<longrightarrow> lt_params_reg_rd e = h \<and> lh_param (staged_wr e) = p)
     \<and> (4 \<le> n \<longrightarrow> lh_param (staged_rd e) = p \<and> w_lt_params_r (wr e) = p) \<and> (5 \<le> n \<longrightarrow> lt_params_r (rd e) = p))"

lemma loading_cycle: "loading s \<Longrightarrow> loading (chan_cycle k i s)"
  by (simp add: loading_def chan_cycle_def lt_cycle_def lt_inputs_def Let_def)

lemma filled_cycle:
  assumes "filled k p n s" and "loading s" and "steady k p we re i" and "ci_channel i = k" and "k < 32"
  shows "filled k p (Suc n) (chan_cycle k i s)"
proof -
  have "unat (of_nat k :: 5 word) = k" using assms(5) by (simp add: unat_of_nat take_bit_nat_eq_self)
  with assms(1-4) show ?thesis
    by (simp add: filled_def loading_def steady_def chan_cycle_def lt_cycle_def lt_inputs_def next_params_def Let_def
        cycle_inputs wr_inputs_def rd_inputs_def)
qed

lemma filled_held: "filled k p 5 s \<Longrightarrow> held k p s"
  by (simp add: filled_def held_def Let_def)

text \<open>Cycles of a channel that is idle and sees no start.\<close>

definition at_rest :: "('a::len, 'l::len, 'd::len) hbm_chan \<Rightarrow> bool" where
  "at_rest s \<longleftrightarrow> idle_engines s \<and> calm_wave s \<and> \<not> start_r s"

lemma at_rest_cycle:
  assumes "at_rest s" and "steady k p we re i" and "\<not> ci_start i"
  shows "at_rest (chan_cycle k i s)"
proof -
  obtain b where w: "wave s = ((False, b), (False, False, False), (False, False, False))"
    using assms(1) by (auto simp: at_rest_def calm_wave_def wave_def)
  then have "\<not> w_started (wr (engine s))" "\<not> started (rd (engine s))" by (simp_all add: wave_def)
  then have "idle_engines (chan_cycle k i s)" using idle_cycle [OF assms(2), of s] assms(1) by (simp add: at_rest_def)
  moreover have "wave (chan_cycle k i s) = ((False, False), (False, False, False), (False, False, False))"
    using wave_cycle [OF assms(2) w] assms(3) by simp
  ultimately show ?thesis by (auto simp: at_rest_def calm_wave_def wave_def)
qed

lemma loads:
  assumes "at_rest s" and "loading s" and "k < 32" and "filled k p n s"
    and "\<forall>i \<in> set is. steady k p we re i \<and> ci_channel i = k \<and> \<not> ci_start i"
  shows "filled k p (n + length is) (fold (chan_cycle k) is s) \<and> at_rest (fold (chan_cycle k) is s)"
  using assms
proof (induction "is" arbitrary: s n)
  case (Cons i "is")
  from Cons.prems(5) have i: "steady k p we re i" "ci_channel i = k" "\<not> ci_start i"
    "\<forall>i \<in> set is. steady k p we re i \<and> ci_channel i = k \<and> \<not> ci_start i" by simp_all
  from Cons.IH [OF at_rest_cycle [OF Cons.prems(1) i(1,3)] loading_cycle [OF Cons.prems(2)] Cons.prems(3)
      filled_cycle [OF Cons.prems(4,2) i(1,2) Cons.prems(3)] i(4)] show ?case by simp
qed simp

lemma settled_waits:
  assumes "settled k p s" and "\<forall>i \<in> set is. steady k p we re i \<and> \<not> ci_start i"
  shows "settled k p (fold (chan_cycle k) is s)"
  using assms
proof (induction "is" arbitrary: s)
  case (Cons i "is")
  from Cons.prems(2) have i: "steady k p we re i" "\<not> ci_start i" "\<forall>i \<in> set is. steady k p we re i \<and> \<not> ci_start i"
    by simp_all
  have s: "at_rest s" "held k p s" using Cons.prems(1) by (simp_all add: settled_def at_rest_def)
  from at_rest_cycle [OF s(1) i(1,2)] held_cycle [OF s(2) i(1)] have "settled k p (chan_cycle k i s)"
    by (simp add: settled_def at_rest_def)
  from Cons.IH [OF this i(3)] show ?case by simp
qed simp

lemma loaded_launches:
  assumes "at_rest s" and "loading s" and "k < 32"
    and "length ls = 5" and "\<forall>i \<in> set ls. steady k p we' re' i \<and> ci_channel i = k \<and> \<not> ci_start i"
    and "\<forall>i \<in> set ms. steady k p we'' re'' i \<and> \<not> ci_start i"
    and "\<forall>i \<in> {i0, i1, i2, i3, i4}. steady k p we re i" and "ci_start i0"
    and "ci_start i2 \<longrightarrow> ci_start i1" and "ci_start i3 \<longrightarrow> ci_start i2" and "ci_start i4 \<longrightarrow> ci_start i3"
  defines "t \<equiv> fold (chan_cycle k) (ls @ ms @ [i0, i1, i2, i3, i4]) s"
  shows "(if we then w_launched p (wr (engine t)) else w_state (wr (engine t)) = WR_IDLE)
    \<and> (if re then launched p (rd (engine t)) else state (rd (engine t)) = RD_IDLE) \<and> calm_wave t"
proof -
  have "filled k p 0 s" by (simp add: filled_def)
  from loads [OF assms(1-3) this assms(5)] assms(4) have "settled k p (fold (chan_cycle k) ls s)"
    by (simp add: settled_def at_rest_def filled_held)
  from settled_launches [OF settled_waits [OF this assms(6)] assms(7-11)] show ?thesis
    unfolding t_def fold_append comp_apply .
qed

text \<open>The same as a relation between the channel before it is selected and when its engines begin.\<close>

inductive channel_start :: "nat \<Rightarrow> 'a::len lt_param \<Rightarrow> bool \<Rightarrow> bool \<Rightarrow> ('a, 'l::len, 'd::len) hbm_chan \<Rightarrow> ('a, 'l, 'd) hbm_chan \<Rightarrow> bool" for k p we re where
  load_and_start: "at_rest s \<Longrightarrow> loading s \<Longrightarrow> k < 32 \<Longrightarrow> length ls = 5
    \<Longrightarrow> \<forall>i \<in> set ls. steady k p we' re' i \<and> ci_channel i = k \<and> \<not> ci_start i
    \<Longrightarrow> \<forall>i \<in> set ms. steady k p we'' re'' i \<and> \<not> ci_start i
    \<Longrightarrow> \<forall>i \<in> {i0, i1, i2, i3, i4}. steady k p we re i \<Longrightarrow> ci_start i0
    \<Longrightarrow> ci_start i2 \<longrightarrow> ci_start i1 \<Longrightarrow> ci_start i3 \<longrightarrow> ci_start i2 \<Longrightarrow> ci_start i4 \<longrightarrow> ci_start i3
    \<Longrightarrow> channel_start k p we re s (fold (chan_cycle k) (ls @ ms @ [i0, i1, i2, i3, i4]) s)"

lemma channel_start_launched:
  assumes "channel_start k p we re s t"
  shows "we \<Longrightarrow> w_launched p (wr (engine t))" and "re \<Longrightarrow> launched p (rd (engine t))" and "calm_wave t"
  using assms
proof (induction rule: channel_start.induct)
  case (load_and_start s ls we' re' ms we'' re'' i0 i1 i2 i3 i4)
  note l = loaded_launches [OF load_and_start]
  {
    case 1
    then show ?case using l by simp
  next
    case 2
    then show ?case using l by simp
  next
    case 3
    then show ?case using l by simp
  }
qed

text \<open>
  C24. Programming and starting a channel. A channel that is out of reset and idle is selected for
  five cycles while the registers hold \<open>p\<close>; then, after any number of cycles in which it is not
  selected or the registers still hold \<open>p\<close>, the start bit rises. In the fifth cycle from then on
  exactly the engines that are enabled have taken \<open>p\<close> over and begin, and no further start is on its
  way, provided that the bit does not rise again.
\<close>

theorem channel_launches:
  assumes "at_rest s" and "loading s" and "k < 32"
    and "length ls = 5" and "\<forall>i \<in> set ls. steady k p we' re' i \<and> ci_channel i = k \<and> \<not> ci_start i"
    and "\<forall>i \<in> set ms. steady k p we'' re'' i \<and> \<not> ci_start i"
    and "\<forall>i \<in> {i0, i1, i2, i3, i4}. steady k p we re i" and "ci_start i0"
    and "ci_start i2 \<longrightarrow> ci_start i1" and "ci_start i3 \<longrightarrow> ci_start i2" and "ci_start i4 \<longrightarrow> ci_start i3"
  defines "t \<equiv> fold (chan_cycle k) (ls @ ms @ [i0, i1, i2, i3, i4]) s"
  shows "(if we then w_launched p (wr (engine t)) else w_state (wr (engine t)) = WR_IDLE)
    \<and> (if re then launched p (rd (engine t)) else state (rd (engine t)) = RD_IDLE) \<and> calm_wave t"
  unfolding t_def by (rule loaded_launches [OF assms(1-11)])

theorem channel_launches_witness:
  "let s = ex_chan (w_ex_engine\<lparr>w_state := WR_IDLE\<rparr>) (ex_engine True\<lparr>state := RD_IDLE\<rparr>);
       t = fold (chan_cycle 4) (replicate 5 (ex_in False False) @ [] @ replicate 5 (ex_in False True)) s
   in w_launched (ex_params False) (wr (engine t)) \<and> launched (ex_params False) (rd (engine t))"
proof -
  let ?s = "ex_chan (w_ex_engine\<lparr>w_state := WR_IDLE\<rparr>) (ex_engine True\<lparr>state := RD_IDLE\<rparr>)"
  let ?a = "ex_in False False" and ?b = "ex_in False True"
  have "at_rest ?s" "loading ?s"
    by (simp_all add: at_rest_def loading_def idle_engines_def calm_wave_def wave_def ex_chan_def w_ex_engine_def ex_engine_def)
  moreover have "steady 4 (ex_params False) True True ?a" "steady 4 (ex_params False) True True ?b"
    "ci_channel ?a = 4" "\<not> ci_start ?a" "ci_start ?b" by (simp_all add: steady_def ex_in_def)
  ultimately have "w_launched (ex_params False) (wr (engine (fold (chan_cycle 4) (replicate 5 ?a @ [] @ [?b, ?b, ?b, ?b, ?b]) ?s)))
      \<and> launched (ex_params False) (rd (engine (fold (chan_cycle 4) (replicate 5 ?a @ [] @ [?b, ?b, ?b, ?b, ?b]) ?s)))"
    using channel_launches [of ?s 4 "replicate 5 ?a" "ex_params False" True True "[]" True True ?b ?b ?b ?b ?b True True]
    by simp
  moreover have "replicate 5 ?b = [?b, ?b, ?b, ?b, ?b]" by (simp add: eval_nat_numeral)
  ultimately show ?thesis unfolding Let_def by simp
qed

text \<open>An idle channel, the same when both its engines begin, and what they then ask a memory that is always ready.\<close>

definition ex_idle :: "(33, 4, 256) hbm_chan" where
  "ex_idle = ex_chan (w_ex_engine\<lparr>w_state := WR_IDLE\<rparr>) (ex_engine True\<lparr>state := RD_IDLE\<rparr>)"

definition ex_begun :: "(33, 4, 256) hbm_chan" where
  "ex_begun = fold (chan_cycle 4) (replicate 5 (ex_in False False) @ [] @ replicate 5 (ex_in False True)) ex_idle"

lemma ex_channel_start: "channel_start 4 (ex_params False) True True ex_idle ex_begun"
proof -
  let ?a = "ex_in False False" and ?b = "ex_in False True"
  have "at_rest ex_idle" "loading ex_idle"
    by (simp_all add: at_rest_def loading_def idle_engines_def calm_wave_def wave_def ex_idle_def ex_chan_def
        w_ex_engine_def ex_engine_def)
  moreover have "steady 4 (ex_params False) True True ?a" "steady 4 (ex_params False) True True ?b"
    "ci_channel ?a = 4" "\<not> ci_start ?a" "ci_start ?b" by (simp_all add: steady_def ex_in_def)
  ultimately have "channel_start 4 (ex_params False) True True ex_idle
      (fold (chan_cycle 4) (replicate 5 ?a @ [] @ [?b, ?b, ?b, ?b, ?b]) ex_idle)"
    by (intro load_and_start) simp_all
  moreover have "replicate 5 ?b = [?b, ?b, ?b, ?b, ?b]" by (simp add: eval_nat_numeral)
  ultimately show ?thesis unfolding ex_begun_def by simp
qed

lemma ex_begun_reads:
  "\<exists>u. rd_trace (rd (engine ex_begun)) [0, 0] u \<and> state u = RD_TH_RESP"
proof -
  let ?is = "replicate 4 (mem_in True False)" and ?s = "rd (engine ex_begun)"
  have "busy rd_cycle rd_live ?is ?s" "rd_addrs ?is ?s = [0, 0]" "state (rd_run ?is ?s) = RD_TH_RESP" by code_simp+
  then show ?thesis using trace_run [of rd_cycle rd_live ?is ?s ar_taken] by auto
qed

lemma ex_begun_writes:
  "\<exists>u. wr_trace (wr (engine ex_begun)) [0, 0] u \<and> w_state u = WR_TH_DATA"
proof -
  let ?is = "replicate 4 (w_mem_in True False)" and ?s = "wr (engine ex_begun)"
  have "busy wr_cycle wr_live ?is ?s" "wr_addrs ?is ?s = [0, 0]" "w_state (wr_run ?is ?s) = WR_TH_DATA" by code_simp+
  then show ?thesis using trace_run [of wr_cycle wr_live ?is ?s aw_taken] by auto
qed

section \<open>Finishing\<close>

text \<open>A cycle without reset in which the start bit does not rise.\<close>

definition calm :: "'a::len chan_in \<Rightarrow> ('a, 'l::len, 'd::len) hbm_chan \<Rightarrow> bool" where
  "calm i s \<longleftrightarrow> arstn (ci_axi i) \<and> (ci_start i \<longrightarrow> start_r s)"

lemma calm_wave_sel:
  assumes "calm_wave s"
  shows "\<not> start_edge s" "\<not> start_wr_reg (engine s)" "\<not> start_rd_reg (engine s)"
    "\<not> w_started (wr (engine s))" "\<not> started (rd (engine s))"
  using assms by (auto simp: calm_wave_def wave_def start_edge_def)

lemma calm_wave_cycle:
  assumes "calm_wave s" and "calm i s"
  shows "calm_wave (chan_cycle k i s)"
proof -
  let ?we = "ci_write_enable i" and ?re = "ci_read_enable i"
  obtain a b where w: "wave s = ((a, b), (False, False, False), (False, False, False))" and "a \<longrightarrow> b"
    using assms(1) by (auto simp: calm_wave_def wave_def)
  have "a = start_r s" using w by (simp add: wave_def)
  have "steady k (ci_params i) ?we ?re i" using assms(2) by (simp add: steady_def calm_def)
  from wave_cycle [OF this w] \<open>a \<longrightarrow> b\<close> \<open>a = start_r s\<close> assms(2) show ?thesis by (auto simp: calm_wave_def calm_def) (auto simp: wave_def)
qed

lemma calm_run:
  assumes "busy (chan_cycle k) calm is s" and "calm_wave s"
  shows "calm_wave (fold (chan_cycle k) is s)"
    and "\<forall>x \<in> set (rd_in_chan k is s). rst_n x \<and> \<not> start x"
    and "\<forall>x \<in> set (wr_in_chan k is s). w_rst_n x \<and> \<not> w_start x"
  using assms
proof (induction "is" arbitrary: s)
  case (Cons i "is")
  {
    case 1
    with Cons.IH(1) [of "chan_cycle k i s"] calm_wave_cycle [of s i k] show ?case by simp
  next
    case 2
    with Cons.IH(2) [of "chan_cycle k i s"] calm_wave_cycle [of s i k] calm_wave_sel [of s] show ?case
      by (simp add: rd_inputs_def calm_def)
  next
    case 3
    with Cons.IH(3) [of "chan_cycle k i s"] calm_wave_cycle [of s i k] calm_wave_sel [of s] show ?case
      by (simp add: wr_inputs_def calm_def)
  }
qed simp_all

text \<open>A flag is set in the cycle after its engine has ended, and stays.\<close>

lemma end_flags_cycle:
  assumes "calm_wave s" and "calm i s"
  shows "end_of_exec (rd (engine s)) \<or> end_rd_o s \<Longrightarrow> end_rd_o (chan_cycle k i s)"
    and "w_end_of_exec (wr (engine s)) \<or> end_wr_o s \<Longrightarrow> end_wr_o (chan_cycle k i s)"
  using assms calm_wave_sel(1) [OF assms(1)] by (auto simp: chan_cycle_def calm_def Let_def)

lemma end_flags_run:
  assumes "busy (chan_cycle k) calm is s" and "calm_wave s"
  shows "end_rd_o s \<Longrightarrow> end_rd_o (fold (chan_cycle k) is s)" and "end_wr_o s \<Longrightarrow> end_wr_o (fold (chan_cycle k) is s)"
  using assms
  by (induction "is" arbitrary: s) (simp_all add: end_flags_cycle calm_wave_cycle)

lemma idle_rd_cycle:
  assumes "state s = RD_IDLE" and "\<not> started s" and "rst_n i" and "\<not> start i"
  shows "state (rd_cycle i s) = RD_IDLE" "\<not> started (rd_cycle i s)" "lat_timer_sum (rd_cycle i s) = lat_timer_sum s"
  using assms by (simp_all add: rd_cycle_def rd_fsm_def)

lemma idle_wr_cycle:
  assumes "w_state s = WR_IDLE" and "\<not> w_started s" and "w_rst_n i" and "\<not> w_start i"
  shows "w_state (wr_cycle i s) = WR_IDLE" "\<not> w_started (wr_cycle i s)" "w_lat_timer_sum (wr_cycle i s) = w_lat_timer_sum s"
  using assms by (simp_all add: wr_fsm_def)

lemma idle_timers_stay:
  assumes "state s = RD_IDLE" and "\<not> started s" and "\<forall>x \<in> set is. rst_n x \<and> \<not> start x"
  shows "lat_timer_sum (rd_run is s) = lat_timer_sum s"
  using assms
proof (induction "is" arbitrary: s)
  case (Cons i "is")
  from Cons.prems(3) have i: "rst_n i" "\<not> start i" "\<forall>x \<in> set is. rst_n x \<and> \<not> start x" by simp_all
  note c = idle_rd_cycle [OF Cons.prems(1,2) i(1,2)]
  have "lat_timer_sum (rd_run is (rd_cycle i s)) = lat_timer_sum (rd_cycle i s)" by (rule Cons.IH [OF c(1,2) i(3)])
  also have "\<dots> = lat_timer_sum s" by (rule c(3))
  finally show ?case unfolding fold_simps .
qed (simp only: fold_simps)

lemma w_idle_timers_stay:
  assumes "w_state s = WR_IDLE" and "\<not> w_started s" and "\<forall>x \<in> set is. w_rst_n x \<and> \<not> w_start x"
  shows "w_lat_timer_sum (wr_run is s) = w_lat_timer_sum s"
  using assms
proof (induction "is" arbitrary: s)
  case (Cons i "is")
  from Cons.prems(3) have i: "w_rst_n i" "\<not> w_start i" "\<forall>x \<in> set is. w_rst_n x \<and> \<not> w_start x" by simp_all
  note c = idle_wr_cycle [OF Cons.prems(1,2) i(1,2)]
  have "w_lat_timer_sum (wr_run is (wr_cycle i s)) = w_lat_timer_sum (wr_cycle i s)" by (rule Cons.IH [OF c(1,2) i(3)])
  also have "\<dots> = w_lat_timer_sum s" by (rule c(3))
  finally show ?case unfolding fold_simps .
qed (simp only: fold_simps)

text \<open>What the memory of the channel answers, in the inputs of the channel.\<close>

definition axi_lasts :: "'a::len chan_in list \<Rightarrow> nat" where
  "axi_lasts is = length (filter (\<lambda>i. rlast (ci_axi i) \<and> rvalid (ci_axi i)) is)"

lemma lasts_rd_in_chan: "lasts (rd_in_chan k is s) = axi_lasts is"
  by (induction "is" arbitrary: s) (simp_all add: lasts_def axi_lasts_def last_beat_def rd_inputs_def)

lemma last_rd_in_chan: "is \<noteq> [] \<Longrightarrow> last_beat (last (rd_in_chan k is s)) \<longleftrightarrow> rlast (ci_axi (last is)) \<and> rvalid (ci_axi (last is))"
  by (cases "is" rule: rev_cases) (simp_all add: collect_append last_beat_def rd_inputs_def)

lemma last_wr_in_chan:
  "is \<noteq> [] \<Longrightarrow> last (wr_in_chan k is s) = wr_inputs (ci_axi (last is)) (engine (fold (chan_cycle k) (butlast is) s))"
  "butlast (wr_in_chan k is s) = wr_in_chan k (butlast is) s"
  by (cases "is" rule: rev_cases; simp add: collect_append)+

text \<open>
  C25. A read run, seen from outside the channel. Let the read engine of a channel begin with \<open>p\<close>,
  and let the memory take all addresses and answer all requests during \<open>is\<close>, the last one in the
  last cycle. From three cycles later on, until the next start, the end flag is set and the timer
  shows the cycles of the run.
\<close>

theorem channel_read_completes:
  assumes "launched p (rd (engine s))" and "calm_wave s" and "\<not> lp_latency_test_enable p" and "0 < run_length p"
    and "busy (chan_cycle k) calm (is @ [i, j, l] @ js) s" and "is \<noteq> []"
    and "length (rd_addrs (rd_in_chan k is s) (rd (engine s))) = run_length p"
    and "axi_lasts is = run_length p" and "rlast (ci_axi (last is)) \<and> rvalid (ci_axi (last is))"
  defines "t \<equiv> fold (chan_cycle k) (is @ [i, j, l] @ js) s"
  shows "end_rd_o t \<and> lat_timer_sum (rd (engine t)) = of_nat (length is + 1)"
proof -
  let ?c = "chan_cycle k"
  let ?u = "fold ?c (is @ [i, j]) s"
  have b: "busy ?c calm (is @ [i, j]) s" "busy ?c calm (l # js) ?u" "calm l ?u" "busy ?c calm js (?c l ?u)"
    using assms(5) by (auto simp: busy_append)
  note q = calm_run [OF b(1) assms(2)] and q' = calm_run [OF b(2) calm_run(1) [OF b(1) assms(2)]]
  obtain x y where xy: "rd_in_chan k (is @ [i, j]) s = rd_in_chan k is s @ [x, y]" by (simp add: collect_append)
  have e: "rd (engine ?u) = rd_run (rd_in_chan k is s @ [x, y]) (rd (engine s))"
    unfolding rd_chan_run xy ..
  have "\<forall>x \<in> set (rd_in_chan k is s). rst_n x \<and> \<not> start x" "rst_n x" "rst_n y" using q(2) unfolding xy by auto
  from rd_throughput_run_ends [OF assms(1,3,4) calm_wave_sel(5) [OF assms(2)] this(1) _ assms(7) _ _ this(2,3)] assms(6,8,9)
  have u: "state (rd (engine ?u)) = RD_IDLE" "end_of_exec (rd (engine ?u))"
    "lat_timer_sum (rd (engine ?u)) = of_nat (length is + 1)"
    unfolding e by (simp_all add: lasts_rd_in_chan last_rd_in_chan)
  have t: "t = fold ?c (l # js) ?u" by (simp add: t_def)
  have "end_rd_o (?c l ?u)" using end_flags_cycle(1) [OF q(1) b(3)] u(2) by simp
  from end_flags_run(1) [OF b(4) calm_wave_cycle [OF q(1) b(3)] this] have "end_rd_o t" unfolding t by simp
  moreover have "lat_timer_sum (rd (engine t)) = lat_timer_sum (rd (engine ?u))"
    unfolding t rd_chan_run by (rule idle_timers_stay [OF u(1)[unfolded rd_chan_run] calm_wave_sel(5) [OF q(1), unfolded rd_chan_run] q'(2)])
  ultimately show ?thesis using u(3) by simp
qed

theorem channel_read_completes_witness:
  "let s = ex_chan w_ex_engine (ex_engine False); x = ex_in False False; y = ex_in True False;
       t = fold (chan_cycle 4) (([x, x, x, x, y, y]) @ [x, x, x] @ []) s
   in end_rd_o t \<and> lat_timer_sum (rd (engine t)) = 7"
proof -
  let ?s = "ex_chan w_ex_engine (ex_engine False)" and ?x = "ex_in False False" and ?y = "ex_in True False"
  let ?is = "[?x, ?x, ?x, ?x, ?y, ?y]"
  have e: "rd (engine ?s) = ex_engine False" by (simp add: ex_chan_def)
  have "length (rd_addrs (rd_in_chan 4 ?is ?s) (ex_engine False)) = run_length (ex_params False)"
    "axi_lasts ?is = run_length (ex_params False)" "0 < run_length (ex_params False)"
    "busy (chan_cycle 4) calm (?is @ [?x, ?x, ?x] @ []) ?s"
    "rlast (ci_axi (last ?is)) \<and> rvalid (ci_axi (last ?is))" "\<not> lp_latency_test_enable (ex_params False)" by code_simp+
  moreover have "calm_wave ?s" by (simp add: calm_wave_def wave_def ex_chan_def w_ex_engine_def ex_engine_def)
  ultimately show ?thesis
    using channel_read_completes [of "ex_params False" ?s 4 ?is ?x ?x ?x "[]"] ex_launched [of False]
    unfolding Let_def e by simp
qed

text \<open>
  C26. A write run, seen from outside the channel: the same for the write engine and its flag, when
  the memory took all addresses no later than the last beat of data.
\<close>

theorem channel_write_completes:
  assumes "w_launched p (wr (engine s))" and "calm_wave s" and "0 < w_count p"
    and "busy (chan_cycle k) calm (is @ [i, j, l] @ js) s" and "is \<noteq> []" and "length is < 2 ^ 64"
    and "length (wr_addrs (wr_in_chan k is s) (wr (engine s))) = w_count p"
    and "cycles wr_cycle w_slot (wr_in_chan k is s) (wr (engine s)) = w_count p * beats_of (wr (engine s)) p"
    and "wready (ci_axi (last is)) \<and> guard_WVALID (wr (engine (fold (chan_cycle k) (butlast is) s)))"
    and "len_fits (wr (engine s))"
  defines "t \<equiv> fold (chan_cycle k) (is @ [i, j, l] @ js) s"
  shows "end_wr_o t \<and> w_lat_timer_sum (wr (engine t)) = of_nat (length is + 1)"
proof -
  let ?c = "chan_cycle k"
  let ?u = "fold ?c (is @ [i, j]) s"
  have b: "busy ?c calm (is @ [i, j]) s" "busy ?c calm (l # js) ?u" "calm l ?u" "busy ?c calm js (?c l ?u)"
    using assms(4) by (auto simp: busy_append)
  note q = calm_run [OF b(1) assms(2)] and q' = calm_run [OF b(2) calm_run(1) [OF b(1) assms(2)]]
  obtain x y where xy: "wr_in_chan k (is @ [i, j]) s = wr_in_chan k is s @ [x, y]" by (simp add: collect_append)
  have e: "wr (engine ?u) = wr_run (wr_in_chan k is s @ [x, y]) (wr (engine s))" unfolding wr_chan_run xy ..
  have xs: "\<forall>x \<in> set (wr_in_chan k is s). w_rst_n x \<and> \<not> w_start x" "w_rst_n x" "w_rst_n y" using q(3) unfolding xy by auto
  have "w_slot (last (wr_in_chan k is s)) (wr_run (butlast (wr_in_chan k is s)) (wr (engine s)))"
    unfolding last_wr_in_chan(1) [OF assms(5)] last_wr_in_chan(2) wr_chan_run [symmetric]
    using assms(9) by (simp add: w_slot_def wr_inputs_def)
  from wr_throughput_run_ends [OF assms(1,3) _ xs(1) _ assms(7,8) this xs(2,3) assms(10)] assms(5,6)
  have u: "w_state (wr (engine ?u)) = WR_IDLE" "w_end_of_exec (wr (engine ?u))"
    "w_lat_timer_sum (wr (engine ?u)) = of_nat (length is + 1)"
    unfolding e by simp_all
  have t: "t = fold ?c (l # js) ?u" by (simp add: t_def)
  have "end_wr_o (?c l ?u)" using end_flags_cycle(2) [OF q(1) b(3)] u(2) by simp
  from end_flags_run(2) [OF b(4) calm_wave_cycle [OF q(1) b(3)] this] have "end_wr_o t" unfolding t by simp
  moreover have "w_lat_timer_sum (wr (engine t)) = w_lat_timer_sum (wr (engine ?u))"
    unfolding t wr_chan_run by (rule w_idle_timers_stay [OF u(1)[unfolded wr_chan_run] calm_wave_sel(4) [OF q(1), unfolded wr_chan_run] q'(3)])
  ultimately show ?thesis using u(3) by simp
qed

theorem channel_write_completes_witness:
  "let s = ex_chan w_ex_engine (ex_engine False); x = ex_in False False;
       t = fold (chan_cycle 4) ([x, x, x] @ [x, x, x] @ []) s
   in end_wr_o t \<and> w_lat_timer_sum (wr (engine t)) = 4"
proof -
  let ?s = "ex_chan w_ex_engine (ex_engine False)" and ?x = "ex_in False False"
  let ?is = "[?x, ?x, ?x]"
  have e: "wr (engine ?s) = w_ex_engine" by (simp add: ex_chan_def)
  have "length (wr_addrs (wr_in_chan 4 ?is ?s) w_ex_engine) = w_count w_ex_params"
    "cycles wr_cycle w_slot (wr_in_chan 4 ?is ?s) w_ex_engine = w_count w_ex_params * beats_of w_ex_engine w_ex_params"
    "0 < w_count w_ex_params" "busy (chan_cycle 4) calm (?is @ [?x, ?x, ?x] @ []) ?s"
    "wready (ci_axi (last ?is)) \<and> guard_WVALID (wr (engine (fold (chan_cycle 4) (butlast ?is) ?s)))" by code_simp+
  moreover have "calm_wave ?s" by (simp add: calm_wave_def wave_def ex_chan_def w_ex_engine_def ex_engine_def)
  ultimately show ?thesis
    using channel_write_completes [of w_ex_params ?s 4 ?is ?x ?x ?x "[]"] w_ex_launched
    unfolding Let_def e by simp
qed

end
