(* ===== verification/Lat_Log.thy ===== *)
theory Lat_Log
  imports Rd_Engine
begin

text \<open>
  The way of a measured latency from a read engine to the latency memory: the selection of the
  channel in \<open>hbm_benchmark.sv\<close>, on the clock of the memory, and the process in \<open>xdma_control.sv\<close>
  that empties a FIFO into the memory, on the clock of the register file. The FIFO and the memory
  are cores of the vendor: the words the FIFO offers are inputs, and the writes at the port of the
  memory are what is observed.
\<close>

section \<open>Selection of the channel\<close>

record lat_pipe =
  lat_timer_mid :: "nat \<Rightarrow> u16"
  lat_timer_valid_mid :: "nat \<Rightarrow> bool"
  lat_timer_o :: u16
  lat_timer_valid_o :: bool
  lat_timer_i :: u16
  lat_timer_valid_i :: bool

text \<open>The timers and valid bits of all channels, the number of the selected one and the lock of the clock.\<close>

record pipe_in =
  pi_lat_timer :: "nat \<Rightarrow> u16"
  pi_lat_timer_valid :: "nat \<Rightarrow> bool"
  pi_channel :: u8
  pi_lock :: bool

definition low_bits :: "u8 \<Rightarrow> nat" where
  "low_bits ch = unat (ucast ch :: 3 word)"

definition high_bits :: "u8 \<Rightarrow> nat" where
  "high_bits ch = unat (ucast (drop_bit 3 ch) :: 2 word)"

definition pipe_cycle :: "pipe_in \<Rightarrow> lat_pipe \<Rightarrow> lat_pipe" where
  "pipe_cycle i s =
     \<lparr>lat_timer_mid = (\<lambda>j. if \<not> pi_lock i then 0 else pi_lat_timer i (8 * j + low_bits (pi_channel i))),
      lat_timer_valid_mid = (\<lambda>j. pi_lock i \<and> pi_lat_timer_valid i (8 * j + low_bits (pi_channel i))),
      lat_timer_o = lat_timer_mid s (high_bits (pi_channel i)),
      lat_timer_valid_o = lat_timer_valid_mid s (high_bits (pi_channel i)),
      lat_timer_i = lat_timer_o s, lat_timer_valid_i = lat_timer_valid_o s\<rparr>"

text \<open>What enters the FIFO in a cycle, and what the engine of a channel shows.\<close>

definition fifo_push :: "pipe_in \<Rightarrow> lat_pipe \<Rightarrow> u16 list" where
  "fifo_push i s = (if lat_timer_valid_i s then [lat_timer_i s] else [])"

definition shown :: "nat \<Rightarrow> pipe_in \<Rightarrow> u16 list" where
  "shown k i = (if pi_lat_timer_valid i k then [pi_lat_timer i k] else [])"

definition selects :: "nat \<Rightarrow> pipe_in \<Rightarrow> bool" where
  "selects k i \<longleftrightarrow> pi_lock i \<and> unat (pi_channel i) = k"

text \<open>The words on their way, the oldest first, while channel \<open>k\<close> is selected.\<close>

definition in_pipe :: "nat \<Rightarrow> lat_pipe \<Rightarrow> u16 list" where
  "in_pipe k s = (if lat_timer_valid_i s then [lat_timer_i s] else [])
     @ (if lat_timer_valid_o s then [lat_timer_o s] else [])
     @ (if lat_timer_valid_mid s (k div 8) then [lat_timer_mid s (k div 8)] else [])"

lemma select_bits:
  assumes "unat ch = k" and "k < 32"
  shows "low_bits ch = k mod 8" and "high_bits ch = k div 8"
proof -
  show "low_bits ch = k mod 8" using assms by (simp add: low_bits_def unsigned_ucast_eq take_bit_eq_mod)
  have "k div 8 < 4" using assms(2) by simp
  then show "high_bits ch = k div 8"
    using assms by (simp add: high_bits_def unsigned_ucast_eq take_bit_eq_mod unat_drop_bit_eq drop_bit_eq_div unat_div)
qed

lemma pipe_step:
  assumes "selects k i" and "k < 32"
  shows "in_pipe k s @ shown k i = fifo_push i s @ in_pipe k (pipe_cycle i s)"
proof -
  have "low_bits (pi_channel i) = k mod 8" "high_bits (pi_channel i) = k div 8" "pi_lock i"
    using assms select_bits [of "pi_channel i" k] by (simp_all add: selects_def)
  then show ?thesis by (simp add: in_pipe_def shown_def fifo_push_def pipe_cycle_def)
qed

lemma pipe_run:
  assumes "\<forall>i \<in> set is. selects k i" and "k < 32"
  shows "in_pipe k s @ concat (map (shown k) is) = collect pipe_cycle fifo_push is s @ in_pipe k (fold pipe_cycle is s)"
  using assms
proof (induction "is" arbitrary: s)
  case (Cons i "is")
  then have "in_pipe k (pipe_cycle i s) @ concat (map (shown k) is) =
      collect pipe_cycle fifo_push is (pipe_cycle i s) @ in_pipe k (fold pipe_cycle is (pipe_cycle i s))" by simp
  with pipe_step [of k i s] Cons.prems show ?case by simp (metis append.assoc)
qed simp

text \<open>Three cycles without a new word empty the pipe.\<close>

lemma pipe_flush:
  assumes "\<forall>x \<in> {a, b, c}. selects k x \<and> \<not> pi_lat_timer_valid x k" and "k < 32"
  shows "in_pipe k (fold pipe_cycle [a, b, c] s) = []"
  using assms select_bits [of "pi_channel a" k] select_bits [of "pi_channel b" k] select_bits [of "pi_channel c" k]
  by (simp add: in_pipe_def pipe_cycle_def selects_def)

section \<open>From the FIFO to the memory\<close>

record log_ram =
  fifo_rd_en_r :: bool
  ram_wr_en :: bool
  ram_data_in :: u8
  addra_ori :: "12 word"

text \<open>The clear signal is the reset bit or the start bit of the register file.\<close>

record log_in =
  li_aresetn :: bool
  li_clear :: bool
  fifo_empty :: bool
  fifo_data_out :: u16

definition log_cycle :: "log_in \<Rightarrow> log_ram \<Rightarrow> log_ram" where
  "log_cycle i s =
     \<lparr>fifo_rd_en_r = \<not> fifo_empty i,
      ram_wr_en = (li_aresetn i \<and> \<not> fifo_empty i),
      ram_data_in = ucast (fifo_data_out i),
      addra_ori = (if \<not> li_aresetn i \<or> li_clear i then 0 else if fifo_rd_en_r s then addra_ori s + 1 else addra_ori s)\<rparr>"

definition fifo_pop :: "log_in \<Rightarrow> log_ram \<Rightarrow> u16 list" where
  "fifo_pop i s = (if fifo_empty i then [] else [fifo_data_out i])"

definition ram_write :: "log_in \<Rightarrow> log_ram \<Rightarrow> (12 word \<times> u8) list" where
  "ram_write i s = (if ram_wr_en s then [(addra_ori s, ram_data_in s)] else [])"

definition pending :: "log_ram \<Rightarrow> (12 word \<times> u8) list" where
  "pending s = (if ram_wr_en s then [(addra_ori s, ram_data_in s)] else [])"

text \<open>The \<open>n\<close>-th word since the last clear belongs at address \<open>n\<close>, cut to eight bits.\<close>

definition placed :: "nat \<Rightarrow> u16 list \<Rightarrow> (12 word \<times> u8) list" where
  "placed n ws = zip (map of_nat [n ..< n + length ws]) (map ucast ws)"

definition log_at :: "nat \<Rightarrow> log_ram \<Rightarrow> bool" where
  "log_at n s \<longleftrightarrow> fifo_rd_en_r s = ram_wr_en s \<and> addra_ori s + of_bool (ram_wr_en s) = of_nat n"

lemma placed_Nil [simp]: "placed n [] = []"
  by (simp add: placed_def)

lemma placed_Cons: "placed n (w # ws) = (of_nat n, ucast w) # placed (Suc n) ws"
  by (simp add: placed_def upt_conv_Cons del: upt_Suc)

lemma log_step:
  assumes "log_at n s" and "li_aresetn i" and "\<not> li_clear i"
  shows "log_at (n + length (fifo_pop i s)) (log_cycle i s)"
    and "ram_write i s = pending s" and "pending (log_cycle i s) = placed n (fifo_pop i s)"
  using assms by (auto simp: log_at_def fifo_pop_def ram_write_def pending_def placed_Cons log_cycle_def add.commute)

lemma placed_append: "placed n (ws @ vs) = placed n ws @ placed (n + length ws) vs"
  by (induction ws arbitrary: n) (simp_all add: placed_Cons)

lemma log_run:
  assumes "log_at n s" and "\<forall>i \<in> set is. li_aresetn i \<and> \<not> li_clear i"
  shows "collect log_cycle ram_write is s @ pending (fold log_cycle is s) =
    pending s @ placed n (collect log_cycle fifo_pop is s)"
  using assms
proof (induction "is" arbitrary: s n)
  case (Cons i "is")
  from Cons.prems(2) have i: "li_aresetn i" "\<not> li_clear i" "\<forall>i \<in> set is. li_aresetn i \<and> \<not> li_clear i" by simp_all
  note st = log_step [OF Cons.prems(1) i(1,2)]
  from Cons.IH [OF st(1) i(3)] show ?case
    by (simp add: st(2,3) placed_append)
qed simp

section \<open>The whole way\<close>

text \<open>The engine at the beginning of every cycle of a run and after it.\<close>

definition engine_states :: "'a::len rd_in list \<Rightarrow> 'a rd_engine \<Rightarrow> 'a rd_engine list" where
  "engine_states is s = collect rd_cycle (\<lambda>i s. [s]) is s @ [rd_run is s]"

lemma engine_states_simps [simp]:
  "engine_states [] s = [s]" "engine_states (i # is) s = s # engine_states is (rd_cycle i s)"
  by (simp_all add: engine_states_def)

lemma engine_states_logged: "concat (map logged (engine_states is s)) = logged s @ rd_log is s"
  by (induction "is" arbitrary: s) simp_all

text \<open>The inputs of the selection, cycle by cycle, are the outputs of the engine of channel \<open>k\<close>.\<close>

definition shows_engine :: "nat \<Rightarrow> 'a::len rd_engine list \<Rightarrow> pipe_in list \<Rightarrow> bool" where
  "shows_engine k es ps \<longleftrightarrow> map (\<lambda>i. (pi_lat_timer_valid i k, pi_lat_timer i k)) ps = map (\<lambda>e. (lat_timer_valid e, lat_timer e)) es"

lemma shows_engine_shown: "shows_engine k es ps \<Longrightarrow> map (shown k) ps = map logged es"
  unfolding shows_engine_def
  by (induction ps arbitrary: es) (auto simp: shown_def logged_def)

lemma pipe_transports:
  assumes "\<forall>i \<in> set (ps @ [a, b, c]). selects k i" and "k < 32" and "in_pipe k q = []"
    and "shows_engine k (engine_states is s) ps" and "\<not> lat_timer_valid s"
    and "\<forall>x \<in> {a, b, c}. \<not> pi_lat_timer_valid x k"
  shows "collect pipe_cycle fifo_push (ps @ [a, b, c]) q = rd_log is s"
proof -
  have "in_pipe k (fold pipe_cycle (ps @ [a, b, c]) q) = []"
    using pipe_flush [of a b c k "fold pipe_cycle ps q"] assms(1,2,6) by simp
  moreover have "concat (map (shown k) (ps @ [a, b, c])) = rd_log is s"
    using shows_engine_shown [OF assms(4)] engine_states_logged [of "is" s] assms(5,6)
    by (simp add: logged_def shown_def)
  ultimately show ?thesis using pipe_run [OF assms(1,2), of q] assms(3) by simp
qed

lemma latency_byte: "(ucast (of_nat m :: u16) :: u8) = of_nat (m mod 256)"
  by (intro word_unat_eq_iff [THEN iffD2]) (simp add: unsigned_ucast_eq unat_of_nat take_bit_eq_mod mod_mod_cancel)

lemma run_logs:
  assumes "launched p s" and "lp_latency_test_enable p" and "rst_n i" and "list_all op_ok xs" and "xs \<noteq> []"
    and "length xs = run_length p" and "es = engine_states (i # concat (map op_inputs xs)) s"
    and "\<forall>x \<in> set (ps @ [a, b, c]). selects k x" and "k < 32" and "in_pipe k q = []" and "shows_engine k es ps"
    and "\<forall>x \<in> {a, b, c}. \<not> pi_lat_timer_valid x k"
    and "collect log_cycle fifo_pop ls l = collect pipe_cycle fifo_push (ps @ [a, b, c]) q"
    and "log_at 0 l" and "\<not> ram_wr_en l" and "\<forall>x \<in> set ls. li_aresetn x \<and> \<not> li_clear x"
    and "\<not> ram_wr_en (fold log_cycle ls l)"
  shows "collect log_cycle ram_write ls l = placed 0 (map (\<lambda>x. of_nat (op_latency x)) xs)"
proof -
  have "\<not> lat_timer_valid s" using assms(1) by (simp add: launched_def)
  from pipe_transports [OF assms(8-10) assms(11) [unfolded assms(7)] this assms(12)]
  have "collect log_cycle fifo_pop ls l = map (\<lambda>x. of_nat (op_latency x)) xs"
    using rd_latency_spec [OF assms(1-6)] assms(13) by simp
  with log_run [OF assms(14,16)] assms(15,17) show ?thesis by (simp add: pending_def)
qed

text \<open>A memory that keeps what is written to it.\<close>

fun ram_after :: "(12 word \<times> u8) list \<Rightarrow> (12 word \<Rightarrow> u8) \<Rightarrow> 12 word \<Rightarrow> u8" where
  "ram_after [] m = m"
| "ram_after ((a, v) # ws) m = ram_after ws (m(a := v))"

lemma ram_after_other: "x \<notin> fst ` set ws \<Longrightarrow> ram_after ws m x = m x"
  by (induction ws m rule: ram_after.induct) auto

lemma placed_fst: "fst ` set (placed n ws) = of_nat ` {n ..< n + length ws}"
  by (simp add: placed_def set_map [symmetric] del: set_map) simp

lemma placed_apart:
  assumes "Suc n + length ws \<le> 4096"
  shows "of_nat n \<notin> fst ` set (placed (Suc n) ws)"
proof
  assume "of_nat n \<in> fst ` set (placed (Suc n) ws)"
  then obtain m where m: "(of_nat n :: 12 word) = of_nat m" "n < m" "m < 4096"
    using assms by (auto simp: placed_fst)
  have "unat (of_nat n :: 12 word) = n" "unat (of_nat m :: 12 word) = m"
    using m(2,3)
    by (simp_all only: unat_of_nat) (simp_all add: take_bit_nat_eq_self)
  with m show False by (metis less_irrefl)
qed

lemma ram_contents:
  assumes "n + length ws \<le> 4096" and "j < length ws"
  shows "ram_after (placed n ws) m (of_nat (n + j)) = ucast (ws ! j)"
  using assms
proof (induction ws arbitrary: n j m)
  case (Cons w ws)
  show ?case
  proof (cases j)
    case 0
    have "ram_after (placed (Suc n) ws) (m(of_nat n := ucast w)) (of_nat n) = ucast w"
      using ram_after_other [OF placed_apart [of n ws]] Cons.prems(1) by simp
    with 0 show ?thesis by (simp add: placed_Cons)
  next
    case (Suc i)
    have "ram_after (placed (Suc n) ws) (m(of_nat n := ucast w)) (of_nat (Suc n + i)) = ucast (ws ! i)"
      using Suc Cons.prems by (intro Cons.IH) simp_all
    with Suc show ?thesis by (simp add: placed_Cons)
  qed
qed simp

text \<open>
  Where measured latencies end up. A latency run on the selected channel, with a FIFO that
  hands on all words in order, no clear and time for the last word to arrive: the memory is
  written once per operation, at consecutive addresses from 0 on, with the latency of that
  operation, of which eight bits are kept.
\<close>

theorem latencies_logged:
  assumes "launched p s" and "lp_latency_test_enable p" and "rst_n i" and "list_all op_ok xs" and "xs \<noteq> []"
    and "length xs = run_length p" and "es = engine_states (i # concat (map op_inputs xs)) s"
    and "\<forall>x \<in> set (ps @ [a, b, c]). selects k x" and "k < 32" and "in_pipe k q = []" and "shows_engine k es ps"
    and "\<forall>x \<in> {a, b, c}. \<not> pi_lat_timer_valid x k"
    and fifo: "collect log_cycle fifo_pop ls l = collect pipe_cycle fifo_push (ps @ [a, b, c]) q"
    and "log_at 0 l" and "\<not> ram_wr_en l" and "\<forall>x \<in> set ls. li_aresetn x \<and> \<not> li_clear x"
    and "\<not> ram_wr_en (fold log_cycle ls l)"
  shows "collect log_cycle ram_write ls l =
    zip (map of_nat [0 ..< length xs]) (map (\<lambda>x. of_nat (op_latency x mod 256)) xs)"
  using run_logs [OF assms] by (simp add: placed_def latency_byte comp_def)

text \<open>An engine, a selection and a memory that see two operations of six cycles, for an example.\<close>

definition ex_op :: "33 rd_in lat_op" where
  "ex_op = Lat_Op (mem_in True False) [] (mem_in True False) (replicate 5 (mem_in True False)) (mem_in True True)"

definition ex_states :: "33 rd_engine list" where
  "ex_states = engine_states (mem_in True False # concat (map op_inputs [ex_op, ex_op])) (ex_engine True)"

definition ex_pipe_in :: "bool \<Rightarrow> u16 \<Rightarrow> pipe_in" where
  "ex_pipe_in v w = \<lparr>pi_lat_timer = (\<lambda>_. w), pi_lat_timer_valid = (\<lambda>_. v), pi_channel = 4, pi_lock = True\<rparr>"

definition ex_pipe :: lat_pipe where
  "ex_pipe = \<lparr>lat_timer_mid = (\<lambda>_. 0), lat_timer_valid_mid = (\<lambda>_. False), lat_timer_o = 0, lat_timer_valid_o = False,
     lat_timer_i = 0, lat_timer_valid_i = False\<rparr>"

definition ex_pipe_ins :: "pipe_in list" where
  "ex_pipe_ins = map (\<lambda>e. ex_pipe_in (lat_timer_valid e) (lat_timer e)) ex_states"

definition ex_log_in :: "bool \<Rightarrow> log_in" where
  "ex_log_in e = \<lparr>li_aresetn = True, li_clear = False, fifo_empty = e, fifo_data_out = 6\<rparr>"

definition ex_log :: log_ram where
  "ex_log = \<lparr>fifo_rd_en_r = False, ram_wr_en = False, ram_data_in = 0, addra_ori = 0\<rparr>"

definition ex_log_ins :: "log_in list" where
  "ex_log_ins = [ex_log_in False, ex_log_in True, ex_log_in False, ex_log_in True]"

abbreviation ex_quiet :: pipe_in where
  "ex_quiet \<equiv> ex_pipe_in False 0"

lemma ex_run_ok: "lp_latency_test_enable (ex_params True)" "rst_n (mem_in True False)" "list_all op_ok [ex_op, ex_op]"
  "[ex_op, ex_op] \<noteq> []" "length [ex_op, ex_op] = run_length (ex_params True)"
  by code_simp+

lemma ex_pipe_ok:
  "\<forall>x \<in> set (ex_pipe_ins @ [ex_quiet, ex_quiet, ex_quiet]). selects 4 x" "(4 :: nat) < 32" "in_pipe 4 ex_pipe = []"
  "shows_engine 4 ex_states ex_pipe_ins" "\<forall>x \<in> {ex_quiet, ex_quiet, ex_quiet}. \<not> pi_lat_timer_valid x 4"
  by (auto simp: ex_pipe_ins_def ex_pipe_in_def selects_def in_pipe_def ex_pipe_def shows_engine_def comp_def)

lemma ex_fifo_ok: "collect log_cycle fifo_pop ex_log_ins ex_log =
    collect pipe_cycle fifo_push (ex_pipe_ins @ [ex_quiet, ex_quiet, ex_quiet]) ex_pipe"
  by code_simp

lemma ex_log_ok:
  "log_at 0 ex_log" "\<not> ram_wr_en ex_log" "\<forall>x \<in> set ex_log_ins. li_aresetn x \<and> \<not> li_clear x"
  "\<not> ram_wr_en (fold log_cycle ex_log_ins ex_log)"
  by (simp_all add: log_at_def ex_log_def ex_log_ins_def ex_log_in_def log_cycle_def)

lemmas ex_latency_run = ex_launched ex_run_ok ex_states_def ex_pipe_ok ex_fifo_ok ex_log_ok

theorem latencies_logged_witness: "collect log_cycle ram_write ex_log_ins ex_log = [(0, 6), (1, 6)]"
  using latencies_logged [OF ex_latency_run] by (simp add: ex_op_def op_latency_def upt_rec)

end
