(* ===== verification/Ddr_Channel.thy ===== *)
theory Ddr_Channel
  imports Lt_Engine Lat_Log
begin

text \<open>
  What the DDR design, \<open>hw/rtl/u280_ddr\<close>, has of its own beside the widths: the flags of its channels, and
  a FIFO for the latencies of each channel instead of one behind a selection. The engines and
  their wrapper are the same files as in the HBM design. The lemmas carry the facts about
  the HBM design over: a channel is a channel of \<open>Lt_Engine\<close>, and the log, while one channel is
  selected, is the log of \<open>Lat_Log\<close>.
\<close>

section \<open>The channel\<close>

text \<open>
  The start bit has a pair of registers per channel, and the flags are cleared when any of the pairs
  shows an edge. Beside its inputs, a cycle gets whether the other channel's pair shows one.
\<close>

definition ddr_chan_cycle ::
  "nat \<Rightarrow> 'a::len chan_in \<times> bool \<Rightarrow> ('a, 'l::len, 'd::len) hbm_chan \<Rightarrow> ('a, 'l, 'd) hbm_chan" where
  "ddr_chan_cycle k x s =
     (let i = fst x; up = arstn (ci_axi i); any_edge = start_edge s \<or> snd x in
      (chan_cycle k i s)
      \<lparr>end_wr_o := (if \<not> up then False else if any_edge then False
                    else if w_end_of_exec (wr (engine s)) then True else end_wr_o s),
       end_rd_o := (if \<not> up then False else if any_edge then False
                    else if end_of_exec (rd (engine s)) then True else end_rd_o s)\<rparr>)"

text \<open>The state without the flags, which nothing in the channel looks at.\<close>

definition sans_flags :: "('a::len, 'l::len, 'd::len) hbm_chan \<Rightarrow> ('a, 'l, 'd) hbm_chan" where
  "sans_flags s = s\<lparr>end_wr_o := False, end_rd_o := False\<rparr>"

lemma sans_flags_cycle: "sans_flags (ddr_chan_cycle k x s) = sans_flags (chan_cycle k (fst x) (sans_flags s))"
  by (simp add: sans_flags_def ddr_chan_cycle_def chan_cycle_def next_params_def lt_inputs_def start_edge_def Let_def)

lemma sans_flags_cycle_hbm: "sans_flags (chan_cycle k i (sans_flags s)) = sans_flags (chan_cycle k i s)"
  by (simp add: sans_flags_def chan_cycle_def next_params_def lt_inputs_def start_edge_def Let_def)

lemma ddr_run_sans_flags:
  "sans_flags s = sans_flags t \<Longrightarrow> sans_flags (fold (ddr_chan_cycle k) xs s) = sans_flags (fold (chan_cycle k) (map fst xs) t)"
proof (induction xs arbitrary: s t)
  case (Cons x xs)
  have "sans_flags (ddr_chan_cycle k x s) = sans_flags (chan_cycle k (fst x) t)"
    unfolding sans_flags_cycle Cons.prems sans_flags_cycle_hbm ..
  then show ?case using Cons.IH by simp
qed simp

lemma ddr_run_alone:
  "\<forall>x \<in> set xs. \<not> snd x \<Longrightarrow> fold (ddr_chan_cycle k) xs s = fold (chan_cycle k) (map fst xs) s"
proof (induction xs arbitrary: s)
  case (Cons x xs)
  then have "ddr_chan_cycle k x s = chan_cycle k (fst x) s"
    by (simp add: ddr_chan_cycle_def chan_cycle_def Let_def)
  with Cons show ?case by simp
qed simp

text \<open>
  A channel of the DDR design is a channel of the HBM design. Whatever the other channel does, engines,
  parameters and start registers run as in \<open>Lt_Engine\<close>: the other channel only reaches the flags. As long as
  it shows no edge, the flags are the same too; an edge clears them, also when the engine ends in that
  very cycle.
\<close>

theorem ddr_channel_runs:
  "engine (fold (ddr_chan_cycle k) xs s) = engine (fold (chan_cycle k) (map fst xs) s)
   \<and> ((\<forall>x \<in> set xs. \<not> snd x) \<longrightarrow> fold (ddr_chan_cycle k) xs s = fold (chan_cycle k) (map fst xs) s)
   \<and> (let t = fold (ddr_chan_cycle k) (xs @ [(i, True)]) s in \<not> end_wr_o t \<and> \<not> end_rd_o t)"
proof (intro conjI)
  have "engine u = engine v" if "sans_flags u = sans_flags v" for u v :: "('a::len, 'b::len, 'c::len) hbm_chan"
    using arg_cong [OF that, of engine] by (simp add: sans_flags_def)
  then show "engine (fold (ddr_chan_cycle k) xs s) = engine (fold (chan_cycle k) (map fst xs) s)"
    using ddr_run_sans_flags [OF refl] by blast
  show "(\<forall>x \<in> set xs. \<not> snd x) \<longrightarrow> fold (ddr_chan_cycle k) xs s = fold (chan_cycle k) (map fst xs) s"
    using ddr_run_alone by blast
  have "\<not> end_wr_o (ddr_chan_cycle k (i, True) t) \<and> \<not> end_rd_o (ddr_chan_cycle k (i, True) t)" for t
    by (simp add: ddr_chan_cycle_def Let_def)
  then show "let t = fold (ddr_chan_cycle k) (xs @ [(i, True)]) s in \<not> end_wr_o t \<and> \<not> end_rd_o t"
    by (simp only: Let_def fold_append fold_simps o_apply not_False_eq_True)
qed

theorem ddr_channel_runs_witness:
  "fold (ddr_chan_cycle 4) [(ex_in True False, False), (ex_in True True, False)] (ex_chan w_ex_engine (ex_engine False))
    = fold (chan_cycle 4) [ex_in True False, ex_in True True] (ex_chan w_ex_engine (ex_engine False))"
  using ddr_channel_runs [of 4 "[(ex_in True False, False), (ex_in True True, False)]" "ex_chan w_ex_engine (ex_engine False)"]
  by (simp only: list.map fst_conv snd_conv list.set ball_simps not_False_eq_True simp_thms)

section \<open>The log\<close>

text \<open>A register in front of each FIFO, on the clock of its channel.\<close>

record ddr_pipe =
  dp_lat_timer_i :: u16
  dp_lat_timer_valid_i :: bool

definition ddr_pipe_cycle :: "bool \<times> u16 \<Rightarrow> ddr_pipe \<Rightarrow> ddr_pipe" where
  "ddr_pipe_cycle x s = \<lparr>dp_lat_timer_i = snd x, dp_lat_timer_valid_i = fst x\<rparr>"

definition ddr_fifo_push :: "bool \<times> u16 \<Rightarrow> ddr_pipe \<Rightarrow> u16 list" where
  "ddr_fifo_push x s = (if dp_lat_timer_valid_i s then [dp_lat_timer_i s] else [])"

text \<open>All FIFOs are emptied all the time; the memory takes the words of the selected channel's one.\<close>

record ddr_log =
  dl_fifo_rd_en_r :: "nat \<Rightarrow> bool"
  dl_ram_wr_en :: bool
  dl_ram_data_in :: u8
  dl_addra_ori :: "12 word"

record ddr_log_in =
  di_aresetn :: bool
  di_clear :: bool
  di_channel :: nat
  di_fifo_empty :: "nat \<Rightarrow> bool"
  di_fifo_data_out :: "nat \<Rightarrow> u16"

definition ddr_fifo_rd_en :: "ddr_log_in \<Rightarrow> nat \<Rightarrow> bool" where
  "ddr_fifo_rd_en i k \<longleftrightarrow> \<not> di_fifo_empty i k"

definition ddr_log_cycle :: "ddr_log_in \<Rightarrow> ddr_log \<Rightarrow> ddr_log" where
  "ddr_log_cycle i s =
     \<lparr>dl_fifo_rd_en_r = ddr_fifo_rd_en i,
      dl_ram_wr_en = (di_aresetn i \<and> ddr_fifo_rd_en i (di_channel i)),
      dl_ram_data_in = ucast (di_fifo_data_out i (di_channel i)),
      dl_addra_ori = (if \<not> di_aresetn i \<or> di_clear i then 0
                      else if dl_fifo_rd_en_r s (di_channel i) then dl_addra_ori s + 1 else dl_addra_ori s)\<rparr>"

definition ddr_fifo_pop :: "nat \<Rightarrow> ddr_log_in \<Rightarrow> ddr_log \<Rightarrow> u16 list" where
  "ddr_fifo_pop k i s = (if ddr_fifo_rd_en i k then [di_fifo_data_out i k] else [])"

definition ddr_ram_write :: "ddr_log_in \<Rightarrow> ddr_log \<Rightarrow> (12 word \<times> u8) list" where
  "ddr_ram_write i s = (if dl_ram_wr_en s then [(dl_addra_ori s, dl_ram_data_in s)] else [])"

text \<open>The log of the HBM design that channel \<open>k\<close> sees.\<close>

definition log_of :: "nat \<Rightarrow> ddr_log \<Rightarrow> log_ram" where
  "log_of k s = \<lparr>fifo_rd_en_r = dl_fifo_rd_en_r s k, ram_wr_en = dl_ram_wr_en s, ram_data_in = dl_ram_data_in s,
     addra_ori = dl_addra_ori s\<rparr>"

definition log_in_of :: "nat \<Rightarrow> ddr_log_in \<Rightarrow> log_in" where
  "log_in_of k i = \<lparr>li_aresetn = di_aresetn i, li_clear = di_clear i, fifo_empty = di_fifo_empty i k,
     fifo_data_out = di_fifo_data_out i k\<rparr>"

lemma log_of_cycle: "di_channel i = k \<Longrightarrow> log_of k (ddr_log_cycle i s) = log_cycle (log_in_of k i) (log_of k s)"
  by (simp add: log_of_def ddr_log_cycle_def log_cycle_def log_in_of_def ddr_fifo_rd_en_def)

lemma log_of_observed:
  "ddr_fifo_pop k i s = fifo_pop (log_in_of k i) (log_of k s)" "ddr_ram_write i s = ram_write (log_in_of k i) (log_of k s)"
  by (simp_all add: ddr_fifo_pop_def fifo_pop_def ddr_ram_write_def ram_write_def log_in_of_def log_of_def ddr_fifo_rd_en_def)

lemma log_of_run:
  assumes "\<forall>i \<in> set is. di_channel i = k"
  shows "log_of k (fold ddr_log_cycle is s) = fold log_cycle (map (log_in_of k) is) (log_of k s)"
    and "collect ddr_log_cycle (ddr_fifo_pop k) is s = collect log_cycle fifo_pop (map (log_in_of k) is) (log_of k s)"
    and "collect ddr_log_cycle ddr_ram_write is s = collect log_cycle ram_write (map (log_in_of k) is) (log_of k s)"
  using assms by (induction "is" arbitrary: s) (simp_all add: log_of_cycle log_of_observed [where k = k])

text \<open>The word on its way to the FIFO, and what the engine shows.\<close>

definition in_ddr_pipe :: "ddr_pipe \<Rightarrow> u16 list" where
  "in_ddr_pipe s = (if dp_lat_timer_valid_i s then [dp_lat_timer_i s] else [])"

definition timer_shown :: "bool \<times> u16 \<Rightarrow> u16 list" where
  "timer_shown x = (if fst x then [snd x] else [])"

lemma ddr_pipe_step: "ddr_fifo_push x s = in_ddr_pipe s" "in_ddr_pipe (ddr_pipe_cycle x s) = timer_shown x"
  by (simp_all add: ddr_fifo_push_def in_ddr_pipe_def ddr_pipe_cycle_def timer_shown_def)

lemma ddr_pipe_run:
  "in_ddr_pipe q @ concat (map timer_shown ps) =
   collect ddr_pipe_cycle ddr_fifo_push ps q @ in_ddr_pipe (fold ddr_pipe_cycle ps q)"
proof (induction ps arbitrary: q)
  case (Cons x ps)
  from Cons.IH [of "ddr_pipe_cycle x q"] show ?case by (simp add: ddr_pipe_step)
qed simp

text \<open>The outputs of an engine, as the register in front of its FIFO sees them.\<close>

definition timer_outputs :: "'a::len rd_engine list \<Rightarrow> (bool \<times> u16) list" where
  "timer_outputs = map (\<lambda>e. (lat_timer_valid e, lat_timer e))"

lemma ddr_pipe_transports:
  assumes "\<not> dp_lat_timer_valid_i q" and "\<not> lat_timer_valid s" and "\<not> fst z"
  shows "collect ddr_pipe_cycle ddr_fifo_push (timer_outputs (engine_states is s) @ [z]) q = rd_log is s"
proof -
  have "concat (map timer_shown (timer_outputs es)) = concat (map logged es)" for es :: "'a rd_engine list"
    by (induction es) (simp_all add: timer_outputs_def logged_def timer_shown_def)
  moreover have "concat (map logged (engine_states is s)) = rd_log is s"
    using engine_states_logged [of "is" s] assms(2) by (simp add: logged_def)
  moreover have "in_ddr_pipe q = []" "timer_shown z = []" using assms(1,3) by (simp_all add: in_ddr_pipe_def timer_shown_def)
  ultimately show ?thesis
    using ddr_pipe_run [of q "timer_outputs (engine_states is s) @ [z]"] by (simp add: ddr_pipe_step)
qed

lemma ddr_run_logs:
  assumes run: "launched p s" "lp_latency_test_enable p" "rst_n i" "list_all op_ok xs" "xs \<noteq> []"
      "length xs = run_length p" "es = engine_states (i # concat (map op_inputs xs)) s"
    and pipe: "\<not> dp_lat_timer_valid_i q" "\<not> fst z"
    and fifo: "collect ddr_log_cycle (ddr_fifo_pop k) ls l = collect ddr_pipe_cycle ddr_fifo_push (timer_outputs es @ [z]) q"
    and log: "\<forall>x \<in> set ls. di_aresetn x \<and> \<not> di_clear x \<and> di_channel x = k" "dl_addra_ori l = 0" "\<not> dl_ram_wr_en l"
      "\<not> dl_fifo_rd_en_r l k" "\<not> dl_ram_wr_en (fold ddr_log_cycle ls l)"
  shows "collect ddr_log_cycle ddr_ram_write ls l = placed 0 (map (\<lambda>x. of_nat (op_latency x)) xs)"
proof -
  have ch: "\<forall>x \<in> set ls. di_channel x = k" using log(1) by simp
  note o = log_of_run [OF ch, of l]
  have "\<not> lat_timer_valid s" using run(1) by (simp add: launched_def)
  from ddr_pipe_transports [OF pipe(1) this pipe(2), of "i # concat (map op_inputs xs)"] rd_latency_spec [OF run(1-6)]
  have "collect log_cycle fifo_pop (map (log_in_of k) ls) (log_of k l) = map (\<lambda>x. of_nat (op_latency x)) xs"
    unfolding o(2) [symmetric] fifo run(7) by metis
  moreover have "log_at 0 (log_of k l)" "pending (log_of k l) = []"
    using log(2-4) by (simp_all add: log_at_def log_of_def pending_def)
  moreover have "pending (fold log_cycle (map (log_in_of k) ls) (log_of k l)) = []"
    using log(5) o(1) [symmetric] by (simp add: log_of_def pending_def)
  moreover have "\<forall>x \<in> set (map (log_in_of k) ls). li_aresetn x \<and> \<not> li_clear x" using log(1) by (simp add: log_in_of_def)
  ultimately show ?thesis using log_run [of 0 "log_of k l" "map (log_in_of k) ls"] o(3) by simp
qed

section \<open>Example\<close>

text \<open>A DDR engine with two operations ahead of it, and the log of channel 1.\<close>

definition ddr_ex_params :: "34 lt_param" where
  "ddr_ex_params = \<lparr>lp_work_group_size = 256, lp_stride = 64, lp_num_mem_ops = 2, lp_mem_burst_size = 64,
     lp_initial_addr = 0, lp_latency_test_enable = True\<rparr>"

definition ddr_ex_engine :: "34 rd_engine" where
  "ddr_ex_engine = \<lparr>started = False, lt_params_r = ddr_ex_params, work_group_size = 256, stride = 64, num_mem_ops = 2,
     mem_burst_size = 64, init_addr = 0, isRdLatencyTest = True, mem_op_index = 0, offset_addr = 0,
     work_group_size_minus_1 = 0, num_mem_ops_r = 0, num_mem_ops_minus_1 = 0, read_resp_lasts = 0,
     guard_ARVALID = False, m_axi_ARADDR = 0, end_of_exec = False, lat_timer_sum = 0,
     lat_timer_valid = False, lat_timer = 0, state = RD_STARTED\<rparr>"

definition ddr_mem_in :: "bool \<Rightarrow> 34 rd_in" where
  "ddr_mem_in lb = \<lparr>rst_n = True, start = False, lt_params_in = ddr_ex_params, m_axi_ARREADY = True,
     m_axi_RVALID = lb, m_axi_RLAST = lb\<rparr>"

definition ddr_ex_op :: "34 rd_in lat_op" where
  "ddr_ex_op = Lat_Op (ddr_mem_in False) [] (ddr_mem_in False) (replicate 5 (ddr_mem_in False)) (ddr_mem_in True)"

definition ddr_ex_states :: "34 rd_engine list" where
  "ddr_ex_states = engine_states (ddr_mem_in False # concat (map op_inputs [ddr_ex_op, ddr_ex_op])) ddr_ex_engine"

definition ddr_ex_pipe :: ddr_pipe where
  "ddr_ex_pipe = \<lparr>dp_lat_timer_i = 0, dp_lat_timer_valid_i = False\<rparr>"

text \<open>The other channel's FIFO has a word in every cycle.\<close>

definition ddr_ex_in :: "bool \<Rightarrow> ddr_log_in" where
  "ddr_ex_in e = \<lparr>di_aresetn = True, di_clear = False, di_channel = 1, di_fifo_empty = (\<lambda>k. k = 1 \<and> e),
     di_fifo_data_out = (\<lambda>k. if k = 1 then 6 else 99)\<rparr>"

definition ddr_ex_log :: ddr_log where
  "ddr_ex_log = \<lparr>dl_fifo_rd_en_r = (\<lambda>_. False), dl_ram_wr_en = False, dl_ram_data_in = 0, dl_addra_ori = 0\<rparr>"

definition ddr_ex_ins :: "ddr_log_in list" where
  "ddr_ex_ins = [ddr_ex_in False, ddr_ex_in True, ddr_ex_in False, ddr_ex_in True]"

lemma ddr_ex_launched: "launched ddr_ex_params ddr_ex_engine"
  by (simp add: launched_def ddr_ex_engine_def ddr_ex_params_def)

lemma ddr_ex_run_ok: "lp_latency_test_enable ddr_ex_params" "rst_n (ddr_mem_in False)" "list_all op_ok [ddr_ex_op, ddr_ex_op]"
  "[ddr_ex_op, ddr_ex_op] \<noteq> []" "length [ddr_ex_op, ddr_ex_op] = run_length ddr_ex_params"
  by code_simp+

lemma ddr_ex_pipe_ok: "\<not> dp_lat_timer_valid_i ddr_ex_pipe" "\<not> fst (False, 0 :: u16)"
  by (simp_all add: ddr_ex_pipe_def)

lemma ddr_ex_fifo_ok: "collect ddr_log_cycle (ddr_fifo_pop 1) ddr_ex_ins ddr_ex_log =
    collect ddr_pipe_cycle ddr_fifo_push (timer_outputs ddr_ex_states @ [(False, 0)]) ddr_ex_pipe"
  by code_simp

lemma ddr_ex_log_ok:
  "\<forall>x \<in> set ddr_ex_ins. di_aresetn x \<and> \<not> di_clear x \<and> di_channel x = 1" "dl_addra_ori ddr_ex_log = 0"
  "\<not> dl_ram_wr_en ddr_ex_log" "\<not> dl_fifo_rd_en_r ddr_ex_log 1" "\<not> dl_ram_wr_en (fold ddr_log_cycle ddr_ex_ins ddr_ex_log)"
  by (simp_all add: ddr_ex_ins_def ddr_ex_in_def ddr_ex_log_def ddr_log_cycle_def ddr_fifo_rd_en_def)

lemmas ddr_ex_latency_run = ddr_ex_launched ddr_ex_run_ok ddr_ex_states_def ddr_ex_pipe_ok ddr_ex_fifo_ok ddr_ex_log_ok

end
