(* ===== verification/C_Int.thy ===== *)
theory C_Int
  imports Complex_Main Shuhai_Prelude
begin

text \<open>
  C's \<open>int\<close> as mathematical integers, for the CPU and GPU benchmarks: signed arithmetic whose result
  does not fit is undefined, \<^term>\<open>None\<close>; a conversion from a wider type keeps the low 32 bits; the
  remainder takes the sign of the dividend. Arrays are lists, accessed with a bounds check.
\<close>

definition in_int :: "int \<Rightarrow> bool" where
  "in_int x \<longleftrightarrow> - (2 ^ 31) \<le> x \<and> x < 2 ^ 31"

definition check_int :: "int \<Rightarrow> int option" where
  "check_int x = (if in_int x then Some x else None)"

definition to_int :: "int \<Rightarrow> int" where
  "to_int x = sint (word_of_int x :: u32)"

definition c_rem :: "int \<Rightarrow> int \<Rightarrow> int" where
  "c_rem a b = (if a < 0 then - (- a mod b) else a mod b)"

definition c_div :: "int \<Rightarrow> int \<Rightarrow> int option" where
  "c_div a b = (if b = 0 then None else Some (sgn a * sgn b * (\<bar>a\<bar> div \<bar>b\<bar>)))"

definition fetch :: "'a list \<Rightarrow> int \<Rightarrow> 'a option" where
  "fetch xs i = (if 0 \<le> i \<and> nat i < length xs then Some (xs ! nat i) else None)"

definition store :: "int \<Rightarrow> 'a \<Rightarrow> 'a list \<Rightarrow> 'a list option" where
  "store i v xs = (if 0 \<le> i \<and> nat i < length xs then Some (xs[nat i := v]) else None)"

definition check_long :: "int \<Rightarrow> int option" where
  "check_long x = (if - (2 ^ 63) \<le> x \<and> x < 2 ^ 63 then Some x else None)"

text \<open>
  The elapsed time between two \<open>clock_gettime\<close> results, seconds and nanoseconds, as both CPU
  benchmarks compute it: the factor of the seconds is written \<open>10e9\<close>.
\<close>

definition timespec_diff :: "int \<times> int \<Rightarrow> int \<times> int \<Rightarrow> int" where
  "timespec_diff t0 t1 = (fst t1 - fst t0) * (10 * 10 ^ 9) + snd t1 - snd t0"

lemma check_int_ok [simp]: "- (2 ^ 31) \<le> x \<Longrightarrow> x < 2 ^ 31 \<Longrightarrow> check_int x = Some x"
  by (simp add: check_int_def in_int_def)

lemma check_int_of_nat: "n < 2 ^ 31 \<Longrightarrow> check_int (int n) = Some (int n)"
  by (simp add: check_int_def in_int_def)

lemma check_int_overflow [simp]: "2 ^ 31 \<le> x \<Longrightarrow> check_int x = None"
  by (simp add: check_int_def in_int_def)

lemma check_long_ok [simp]: "- (2 ^ 63) \<le> x \<Longrightarrow> x < 2 ^ 63 \<Longrightarrow> check_long x = Some x"
  by (simp add: check_long_def)

lemma check_long_add:
  "0 \<le> a \<Longrightarrow> a < 2 ^ 62 \<Longrightarrow> 0 \<le> b \<Longrightarrow> b < 2 ^ 31 \<Longrightarrow> check_long (a + b) = Some (a + b)"
  by (simp add: check_long_def)

lemma check_int_Some: "check_int x = Some y \<longleftrightarrow> y = x \<and> in_int x"
  by (auto simp: check_int_def)

lemma c_rem_nonneg [simp]: "0 \<le> a \<Longrightarrow> c_rem a b = a mod b"
  by (simp add: c_rem_def)

lemma store_of_nat [simp]: "store (int i) v xs = (if i < length xs then Some (xs[i := v]) else None)"
  by (simp add: store_def)

lemma fetch_of_nat [simp]: "fetch xs (int i) = (if i < length xs then Some (xs ! i) else None)"
  by (simp add: fetch_def)

lemma in_int_nonneg: "0 \<le> x \<Longrightarrow> x < 2 ^ 31 \<Longrightarrow> in_int x"
  by (simp add: in_int_def)

lemma to_int_id: "in_int x \<Longrightarrow> to_int x = x"
proof -
  assume "in_int x"
  then have "signed_take_bit 31 x = x"
    by (intro signed_take_bit_int_eq_self) (simp_all add: in_int_def)
  then show ?thesis by (simp add: to_int_def signed_of_int)
qed

text \<open>The room a sum of bounded terms leaves.\<close>

lemma sum_room:
  assumes "0 \<le> x" and "x < R" and "acc + int (Suc n) * R \<le> M"
  shows "acc + x < M" and "acc + x + int n * R \<le> M"
proof -
  have "0 \<le> int n * R" by (rule mult_nonneg_nonneg) (use assms(1,2) in simp_all)
  moreover have "int (Suc n) * R = R + int n * R" by (simp add: algebra_simps)
  ultimately show "acc + x < M" "acc + x + int n * R \<le> M" using assms by linarith+
qed

text \<open>A loop that fills an array from index \<open>i\<close> on produces a map of its body.\<close>

lemma take_Suc_update: "i < length xs \<Longrightarrow> take (Suc i) (xs[i := v]) = take i xs @ [v]"
  by (simp add: take_Suc_conv_app_nth)

end
