(* ===== verification/Cpu_Latency.thy ===== *)
theory Cpu_Latency
  imports C_Int
begin

text \<open>
  The pointer chase of \<open>cpu_benchmark/latency_huge_table.cpp\<close>. The three global arrays are lists in
  the state, the mapping of \<open>p\<close> starts at the address \<open>base\<close>. The time stamp counter is a parameter:
  \<open>tsc k\<close> is the value the \<open>k\<close>-th execution of \<open>rdtsc\<close> returns. A load outside the mapped table and a
  store outside one of the result arrays is a fault, \<^term>\<open>None\<close>; so is a signed overflow. That \<open>test_latency\<close>, of type \<open>void *\<close>, ends without
  a \<open>return\<close>, which C++ leaves undefined, is not counted as one: \<open>pthread_join\<close> discards the value.
\<close>

section \<open>State\<close>

record latency_state =
  p_base :: int
  p_table :: "int list"
  index_t :: "int list"
  res :: "int list"
  addr :: int

definition array_size :: int where "array_size = 0x400000"

section \<open>Operations\<close>

text \<open>\<open>p[i] = 8*(i+stride)%array_size\<close>: the arithmetic on \<open>int\<close>, the remainder on \<open>long\<close>.\<close>

definition table_entry :: "int \<Rightarrow> int \<Rightarrow> int option" where
  "table_entry stride i = do {
     a \<leftarrow> check_int (i + stride);
     b \<leftarrow> check_int (8 * a);
     Some (c_rem b array_size) }"

fun fill_table :: "int \<Rightarrow> nat \<Rightarrow> nat \<Rightarrow> int list \<Rightarrow> int list option" where
  "fill_table stride 0 i xs = Some xs"
| "fill_table stride (Suc n) i xs = do {
     v \<leftarrow> table_entry stride (int i);
     xs \<leftarrow> store (int i) v xs;
     fill_table stride n (Suc i) xs }"

text \<open>\<open>movq (%rsi),%rdi\<close>: a load of eight bytes.\<close>

definition load :: "latency_state \<Rightarrow> int \<Rightarrow> int option" where
  "load s a = (let o' = a - p_base s in
     if 0 \<le> o' \<and> o' mod 8 = 0 \<and> nat (o' div 8) < length (p_table s) then Some (p_table s ! nat (o' div 8)) else None)"

text \<open>
  One iteration: the time stamps around the load and the store of the loaded value, the
  difference of the time stamps as an \<open>int\<close>, and the next address. \<open>n\<close> iterations are left.
\<close>

fun asm_loop :: "(nat \<Rightarrow> u64) \<Rightarrow> int \<Rightarrow> nat \<Rightarrow> nat \<Rightarrow> latency_state \<Rightarrow> latency_state option" where
  "asm_loop tsc start 0 i s = Some s"
| "asm_loop tsc start (Suc n) i s = do {
     v \<leftarrow> load s (addr s);
     xs \<leftarrow> store (int i) v (index_t s);
     ys \<leftarrow> store (int i) (to_int (uint (tsc (2 * i + 1) - tsc (2 * i)))) (res s);
     asm_loop tsc start n (i + 1) (s\<lparr>index_t := xs, res := ys, addr := start + v\<rparr>) }"

definition perf_counter_asm :: "(nat \<Rightarrow> u64) \<Rightarrow> nat \<Rightarrow> latency_state \<Rightarrow> latency_state option" where
  "perf_counter_asm tsc op s = do {
     let start = addr s;
     s \<leftarrow> asm_loop tsc start op 0 s;
     Some (s\<lparr>addr := start\<rparr>) }"

text \<open>
  The second variant reads the entries as indices and takes the time from \<open>clock_gettime\<close>: seconds
  and nanoseconds before and after.
\<close>

fun clock_loop :: "(nat \<Rightarrow> int \<times> int) \<Rightarrow> nat \<Rightarrow> nat \<Rightarrow> int \<Rightarrow> latency_state \<Rightarrow> (int \<times> latency_state) option" where
  "clock_loop clk 0 i j s = Some (j, s)"
| "clock_loop clk (Suc n) i j s = do {
     j \<leftarrow> fetch (p_table s) j;
     xs \<leftarrow> store (int i) j (index_t s);
     d \<leftarrow> check_int (timespec_diff (clk (2 * i)) (clk (2 * i + 1)));
     ys \<leftarrow> store (int i) d (res s);
     clock_loop clk n (i + 1) j (s\<lparr>index_t := xs, res := ys\<rparr>) }"

definition perf_counter :: "(nat \<Rightarrow> int \<times> int) \<Rightarrow> nat \<Rightarrow> latency_state \<Rightarrow> latency_state option" where
  "perf_counter clk op s = map_option snd (clock_loop clk op 0 0 s)"

fun add_all :: "int list \<Rightarrow> int \<Rightarrow> int option" where
  "add_all [] acc = Some acc"
| "add_all (x # xs) acc = bind (check_int (acc + x)) (add_all xs)"

text \<open>
  \<open>sumup += index_t[i]\<close> adds a \<open>long\<close> and converts the sum back to \<open>int\<close>.
\<close>

fun add_res_index :: "int list \<Rightarrow> int list \<Rightarrow> int \<Rightarrow> int option" where
  "add_res_index (r # rs) (x # xs) acc = bind (check_int (acc + r)) (\<lambda>a. add_res_index rs xs (to_int (a + x)))"
| "add_res_index _ _ acc = Some acc"

text \<open>
  The estimate of the clock frequency: time stamps and times of day (seconds, microseconds) before
  and after a pause.
\<close>

record calibration =
  tsc_start :: int
  tsc_end :: int
  tv_start :: "int \<times> int"
  tv_end :: "int \<times> int"

text \<open>The time stamp counter, read in two halves and joined in a signed 64-bit integer.\<close>

definition rdtsc :: "u32 \<Rightarrow> u32 \<Rightarrow> int option" where
  "rdtsc i j = bind (check_long (uint j * 2 ^ 32)) (\<lambda>h. check_long (h + uint i))"

definition calibrate :: "calibration \<Rightarrow> real option" where
  "calibrate c = do {
     let usec_delay = to_int (1000000 * (fst (tv_end c) - fst (tv_start c)) + (snd (tv_end c) - snd (tv_start c)));
     q \<leftarrow> c_div (tsc_end c - tsc_start c) usec_delay;
     Some (real_of_int q / 1000) }"

record latency_report =
  lr_freq :: real
  lr_file :: "int list"
  lr_first_sum :: int
  lr_total :: int
  lr_cycles :: int
  lr_state :: latency_state

text \<open>
  The thread: the three mappings, of which only the first is checked, the table, a first run, the
  table again, a second run, the sums. \<open>p_map\<close> is where the table is mapped, if it is; then
  \<open>Inl ()\<close> is the early return when it is not. \<open>mapped\<close> says whether the two other mappings
  succeeded; if not, the arrays have no element that can be stored to.
\<close>

definition test_latency ::
  "calibration \<Rightarrow> (nat \<Rightarrow> u64) \<Rightarrow> (nat \<Rightarrow> u64) \<Rightarrow> int \<Rightarrow> nat \<Rightarrow> bool \<Rightarrow> int option \<Rightarrow> (unit + latency_report) option" where
  "test_latency cal tsc1 tsc2 stride op mapped p_map =
     (case p_map of
        None \<Rightarrow> Some (Inl ())
      | Some base \<Rightarrow> do {
          let n = (if mapped then op else 0);
          t \<leftarrow> fill_table stride (nat array_size) 0 (replicate (nat array_size) 0);
          freq \<leftarrow> calibrate cal;
          let s = \<lparr>p_base = base, p_table = t, index_t = replicate n 0, res = replicate n 0, addr = base\<rparr>;
          s \<leftarrow> perf_counter_asm tsc1 op s;
          t \<leftarrow> fill_table stride (nat array_size) 0 (p_table s);
          let s = s\<lparr>p_table := t\<rparr>;
          sumup \<leftarrow> add_res_index (res s) (index_t s) 0;
          s \<leftarrow> perf_counter_asm tsc2 op s;
          cycles \<leftarrow> add_all (res s) 0;
          let total = fold (\<lambda>x a. to_int (a + x)) (index_t s) 0;
          Some (Inr \<lparr>lr_freq = freq, lr_file = res s, lr_first_sum = sumup, lr_total = total, lr_cycles = cycles,
                     lr_state = s\<rparr>) })"

text \<open>
  The program: one thread on CPU 5, with the globals \<open>stride\<close> and \<open>op\<close> as they are initialised. Its
  number is stored in an array with one element per CPU. The two pairs are the halves of the time
  stamp counter around the pause.
\<close>

definition latency_main ::
  "int \<Rightarrow> u32 \<times> u32 \<Rightarrow> u32 \<times> u32 \<Rightarrow> int \<times> int \<Rightarrow> int \<times> int \<Rightarrow> (nat \<Rightarrow> u64) \<Rightarrow> (nat \<Rightarrow> u64) \<Rightarrow> bool \<Rightarrow> int option
    \<Rightarrow> (unit + latency_report) option" where
  "latency_main cpu_nums r0 r1 tv0 tv1 tsc1 tsc2 mapped p_map =
     (if cpu_nums \<le> 5 then None
      else do {
        t0 \<leftarrow> rdtsc (fst r0) (snd r0);
        t1 \<leftarrow> rdtsc (fst r1) (snd r1);
        test_latency \<lparr>tsc_start = t0, tsc_end = t1, tv_start = tv0, tv_end = tv1\<rparr> tsc1 tsc2 32 100 mapped p_map })"

section \<open>The table\<close>

lemma table_entry_ok:
  assumes "0 \<le> i" and "0 \<le> stride" and "i + stride < 2 ^ 28"
  shows "table_entry stride i = Some (8 * (i + stride) mod array_size)"
  using assms by (simp add: table_entry_def)

lemma fill_table_ok:
  assumes "0 \<le> stride" and "int (length xs) + stride \<le> 2 ^ 28" and "i + n = length xs"
  shows "fill_table stride n i xs = Some (take i xs @ map (\<lambda>k. 8 * (int k + stride) mod array_size) [i ..< i + n])"
  using assms(2,3)
proof (induction n arbitrary: i xs)
  case (Suc n)
  have "table_entry stride (int i) = Some (8 * (int i + stride) mod array_size)"
    using Suc.prems assms(1) by (intro table_entry_ok) simp_all
  moreover have "[i ..< i + Suc n] = i # [Suc i ..< Suc i + n]" by (simp add: upt_conv_Cons)
  ultimately show ?case using Suc by (simp add: take_Suc_update del: upt_Suc)
qed simp

definition table :: "int \<Rightarrow> int list" where
  "table stride = map (\<lambda>k. 8 * (int k + stride) mod array_size) [0 ..< nat array_size]"

lemma fill_table_table:
  assumes "0 \<le> stride" and "stride \<le> 2 ^ 27" and "length xs = nat array_size"
  shows "fill_table stride (nat array_size) 0 xs = Some (table stride)"
  using assms fill_table_ok [of stride xs 0 "nat array_size"] by (simp add: table_def array_size_def)

lemma length_table [simp]: "length (table stride) = nat array_size"
  by (simp add: table_def)

text \<open>The byte offsets visited: the chase follows \<open>o \<mapsto> (o + 8 * stride) mod array_size\<close>.\<close>

definition chase_offset :: "int \<Rightarrow> nat \<Rightarrow> int" where
  "chase_offset stride k = 8 * stride * int k mod array_size"

lemma chase_offset_facts:
  "0 \<le> chase_offset stride k" "chase_offset stride k < array_size" "chase_offset stride k mod 8 = 0"
proof -
  show "0 \<le> chase_offset stride k" "chase_offset stride k < array_size"
    by (simp_all add: chase_offset_def array_size_def)
  have "8 dvd 8 * stride * int k mod array_size"
    by (rule dvd_mod) (simp_all add: array_size_def)
  then show "chase_offset stride k mod 8 = 0" by (simp add: chase_offset_def)
qed

lemma chase_offset_Suc:
  "chase_offset stride (Suc k) = (chase_offset stride k + 8 * stride) mod array_size"
  by (simp add: chase_offset_def mod_simps algebra_simps)

lemma load_table:
  assumes "p_table s = table stride"
  shows "load s (p_base s + chase_offset stride k) = Some (chase_offset stride (Suc k))"
proof -
  define q where "q = chase_offset stride k div 8"
  have q: "chase_offset stride k = 8 * q"
    using chase_offset_facts(3) [of stride k] unfolding q_def by presburger
  have "0 \<le> q" "nat q < nat array_size"
    using chase_offset_facts(1,2) [of stride k] by (simp_all add: q)
  then have "table stride ! nat q = 8 * (q + stride) mod array_size" by (simp add: table_def)
  also have "\<dots> = chase_offset stride (Suc k)" by (simp add: chase_offset_Suc q algebra_simps)
  finally show ?thesis
    using \<open>0 \<le> q\<close> \<open>nat q < nat array_size\<close> by (simp add: load_def Let_def assms q)
qed

section \<open>The chase\<close>

lemma asm_loop_ok:
  assumes "p_table s = table stride" and "p_base s = start" and "addr s = start + chase_offset stride i"
    and "length (index_t s) = i + n" and "length (res s) = i + n"
  shows "asm_loop tsc start n i s = Some (s\<lparr>
      index_t := take i (index_t s) @ map (\<lambda>k. chase_offset stride (Suc k)) [i ..< i + n],
      res := take i (res s) @ map (\<lambda>k. to_int (uint (tsc (2 * k + 1) - tsc (2 * k)))) [i ..< i + n],
      addr := start + chase_offset stride (i + n)\<rparr>)"
  using assms
proof (induction n arbitrary: i s)
  case (Suc n)
  have "load s (addr s) = Some (chase_offset stride (Suc i))"
    using load_table [OF Suc.prems(1), of i] Suc.prems(2,3) by simp
  moreover have "[i ..< i + Suc n] = i # [Suc i ..< Suc i + n]" by (simp add: upt_conv_Cons)
  ultimately show ?case
    using Suc.prems by (simp add: Suc.IH take_Suc_update del: upt_Suc)
qed simp

lemma perf_counter_asm_ok:
  assumes "p_table s = table stride" and "addr s = p_base s"
    and "length (index_t s) = op" and "length (res s) = op"
  shows "perf_counter_asm tsc op s = Some (s\<lparr>
      index_t := map (\<lambda>k. chase_offset stride (Suc k)) [0 ..< op],
      res := map (\<lambda>k. to_int (uint (tsc (2 * k + 1) - tsc (2 * k)))) [0 ..< op]\<rparr>)"
proof -
  have "chase_offset stride 0 = 0" by (simp add: chase_offset_def)
  with asm_loop_ok [of s stride "p_base s" 0 op tsc] assms show ?thesis
    by (simp add: perf_counter_asm_def Let_def)
qed

text \<open>The indices the second variant visits.\<close>

primrec clock_index :: "int \<Rightarrow> nat \<Rightarrow> int" where
  "clock_index stride 0 = 0"
| "clock_index stride (Suc k) = 8 * (clock_index stride k + stride) mod array_size"

lemma clock_index_bounds: "0 \<le> clock_index stride k" "clock_index stride k < array_size"
  by (cases k; simp add: array_size_def)+

lemma clock_loop_ok:
  assumes "p_table s = table stride" and "length (index_t s) = i + n" and "length (res s) = i + n"
    and "\<And>k. in_int (timespec_diff (clk (2 * k)) (clk (2 * k + 1)))"
  shows "clock_loop clk n i (clock_index stride i) s = Some (clock_index stride (i + n), s\<lparr>
      index_t := take i (index_t s) @ map (\<lambda>k. clock_index stride (Suc k)) [i ..< i + n],
      res := take i (res s) @ map (\<lambda>k. timespec_diff (clk (2 * k)) (clk (2 * k + 1))) [i ..< i + n]\<rparr>)"
  using assms(1-3)
proof (induction n arbitrary: i s)
  case (Suc n)
  have f: "fetch (p_table s) (clock_index stride i) = Some (clock_index stride (Suc i))"
    using Suc.prems(1) clock_index_bounds [of stride i] by (simp add: fetch_def table_def)
  have c: "check_int (timespec_diff (clk (2 * i)) (clk (2 * i + 1))) = Some (timespec_diff (clk (2 * i)) (clk (2 * i + 1)))"
    using assms(4) by (simp add: check_int_def)
  have "[i ..< i + Suc n] = i # [Suc i ..< Suc i + n]" by (simp add: upt_conv_Cons)
  with f c Suc.prems Suc.IH [of _ "Suc i"] show ?case
    by (simp add: take_Suc_update del: upt_Suc clock_index.simps)
qed simp

section \<open>Sums\<close>

lemma add_all_ok:
  assumes "\<forall>x \<in> set xs. 0 \<le> x \<and> x < R" and "0 \<le> acc" and "acc + int (length xs) * R \<le> 2 ^ 31 - 1"
  shows "add_all xs acc = Some (acc + sum_list xs)"
  using assms
proof (induction xs arbitrary: acc)
  case (Cons x xs)
  have x: "0 \<le> x" "x < R" using Cons.prems(1) by auto
  have b: "acc + x < 2 ^ 31 - 1" "acc + x + int (length xs) * R \<le> 2 ^ 31 - 1"
    using sum_room [OF x, of acc "length xs" "2 ^ 31 - 1"] Cons.prems(3) by simp_all
  have "add_all xs (acc + x) = Some (acc + x + sum_list xs)"
    by (rule Cons.IH) (use Cons.prems x b in auto)
  then show ?case using b(1) x Cons.prems(2) by (simp add: add.assoc)
qed simp

lemma add_res_index_ok:
  assumes "length xs = length rs" and "\<forall>x \<in> set rs. 0 \<le> x \<and> x < R" and "\<forall>x \<in> set xs. 0 \<le> x \<and> x < X"
    and "0 \<le> acc" and "acc + int (length rs) * (R + X) \<le> 2 ^ 31 - 1"
  shows "add_res_index rs xs acc = Some (acc + sum_list rs + sum_list xs)"
  using assms
proof (induction rs arbitrary: xs acc)
  case (Cons r rs)
  then obtain x xs' where xs: "xs = x # xs'" by (cases xs) auto
  have b0: "0 \<le> r" "r < R" "0 \<le> x" "x < X" using Cons.prems(2,3) xs by auto
  have rx: "0 \<le> r + x" "r + x < R + X" using b0 by simp_all
  have b: "acc + r + x < 2 ^ 31 - 1" "acc + r + x + int (length rs) * (R + X) \<le> 2 ^ 31 - 1"
    using sum_room [OF rx, of acc "length rs" "2 ^ 31 - 1"] Cons.prems(5) by (simp_all add: add.assoc)
  have t: "to_int (acc + r + x) = acc + r + x"
    using b b0 Cons.prems(4) by (intro to_int_id) (simp add: in_int_def)
  have "add_res_index rs xs' (acc + r + x) = Some (acc + r + x + sum_list rs + sum_list xs')"
    by (rule Cons.IH) (use Cons.prems xs b b0 in auto)
  then show ?case using b b0 Cons.prems(4) t by (simp add: xs algebra_simps)
qed simp

lemma fold_to_int_ok:
  assumes "\<forall>x \<in> set xs. 0 \<le> x \<and> x < X" and "0 \<le> acc" and "acc + int (length xs) * X \<le> 2 ^ 31 - 1"
  shows "fold (\<lambda>x a. to_int (a + x)) xs acc = acc + sum_list xs"
  using assms
proof (induction xs arbitrary: acc)
  case (Cons x xs)
  have x: "0 \<le> x" "x < X" using Cons.prems(1) by auto
  have b: "acc + x < 2 ^ 31 - 1" "acc + x + int (length xs) * X \<le> 2 ^ 31 - 1"
    using sum_room [OF x, of acc "length xs" "2 ^ 31 - 1"] Cons.prems(3) by simp_all
  have "to_int (acc + x) = acc + x" using b x Cons.prems(2) by (intro to_int_id) (simp add: in_int_def)
  then show ?case using Cons b x by simp
qed simp

definition demo_cal :: calibration where
  "demo_cal = \<lparr>tsc_start = 0, tsc_end = 250000000, tv_start = (10, 950000), tv_end = (11, 50000)\<rparr>"

lemma demo_calibrate: "calibrate demo_cal = Some (5 / 2)"
  by (simp add: calibrate_def demo_cal_def c_div_def to_int_id in_int_def Let_def)

section \<open>Properties\<close>

text \<open>
  The latency thread. With at most a hundred loads and differences of time stamps below
  \<open>2^23\<close>, the thread runs to its end without fault or overflow: load \<open>k\<close> of each run returns the byte
  offset \<open>8 * stride * (k + 1) mod array_size\<close> and is therefore inside the table, the file gets the
  differences of the time stamps around the loads of the second run, in order, and the printed
  number is their sum.
\<close>

theorem test_latency_correct:
  assumes "0 \<le> stride" and "stride \<le> 2 ^ 27" and "op \<le> 100"
    and "\<And>k. uint (tsc1 (2 * k + 1) - tsc1 (2 * k)) < 2 ^ 23"
    and "\<And>k. uint (tsc2 (2 * k + 1) - tsc2 (2 * k)) < 2 ^ 23"
    and "calibrate cal = Some f"
  shows "\<exists>r. test_latency cal tsc1 tsc2 stride op True (Some base) = Some (Inr r)
    \<and> lr_file r = map (\<lambda>k. uint (tsc2 (2 * k + 1) - tsc2 (2 * k))) [0 ..< op]
    \<and> index_t (lr_state r) = map (\<lambda>k. 8 * stride * (int k + 1) mod array_size) [0 ..< op]
    \<and> lr_cycles r = sum_list (lr_file r) \<and> lr_total r = sum_list (index_t (lr_state r))"
proof -
  define off where "off = map (\<lambda>k. chase_offset stride (Suc k)) [0 ..< op]"
  define d where "d = (\<lambda>tsc. map (\<lambda>k. uint (tsc (2 * k + 1) - tsc (2 * k) :: u64)) [0 ..< op])"
  have off: "\<forall>x \<in> set off. 0 \<le> x \<and> x < 2 ^ 22" "length off = op"
    using chase_offset_facts(1,2) [of stride] by (auto simp: off_def array_size_def)
  have d1: "\<forall>x \<in> set (d tsc1). 0 \<le> x \<and> x < 2 ^ 23" and d2: "\<forall>x \<in> set (d tsc2). 0 \<le> x \<and> x < 2 ^ 23"
    using assms(4,5) by (auto simp: d_def)
  have len: "length (d tsc) = op" for tsc by (simp add: d_def)
  have ti: "map (\<lambda>k. to_int (uint (tsc (2 * k + 1) - tsc (2 * k)))) [0 ..< op] = d tsc"
    if "\<And>k. uint (tsc (2 * k + 1) - tsc (2 * k)) < 2 ^ 23" for tsc
  proof -
    have "in_int (uint (tsc (2 * k + 1) - tsc (2 * k)))" for k
      by (rule in_int_nonneg, simp) (rule order_less_le_trans [OF that], simp)
    then show ?thesis by (simp add: d_def to_int_id)
  qed
  let ?s = "\<lambda>i r. \<lparr>p_base = base, p_table = table stride, index_t = i, res = r, addr = base\<rparr>"
  have f: "fill_table stride (nat array_size) 0 xs = Some (table stride)" if "length xs = nat array_size" for xs
    using fill_table_table [OF assms(1,2) that] .
  have r1: "perf_counter_asm tsc1 op (?s (replicate op 0) (replicate op 0)) = Some (?s off (d tsc1))"
    using perf_counter_asm_ok [of "?s (replicate op 0) (replicate op 0)" stride op tsc1] ti [of tsc1] assms(4)
    by (simp add: off_def)
  have r2: "perf_counter_asm tsc2 op (?s off (d tsc1)) = Some (?s off (d tsc2))"
    using perf_counter_asm_ok [of "?s off (d tsc1)" stride op tsc2] ti [of tsc2] assms(5) off len
    by (simp add: off_def)
  have s1: "add_res_index (d tsc1) off 0 = Some (sum_list (d tsc1) + sum_list off)"
    using add_res_index_ok [of off "d tsc1" "2 ^ 23" "2 ^ 22" 0] d1 off len assms(3) by simp
  have s2: "add_all (d tsc2) 0 = Some (sum_list (d tsc2))"
    using add_all_ok [of "d tsc2" "2 ^ 23" 0] d2 len assms(3) by simp
  have s3: "fold (\<lambda>x a. to_int (a + x)) off 0 = sum_list off"
    using fold_to_int_ok [of off "2 ^ 22" 0] off assms(3) by simp
  have "test_latency cal tsc1 tsc2 stride op True (Some base) = Some (Inr \<lparr>lr_freq = f, lr_file = d tsc2,
      lr_first_sum = sum_list (d tsc1) + sum_list off, lr_total = sum_list off, lr_cycles = sum_list (d tsc2),
      lr_state = ?s off (d tsc2)\<rparr>)"
    unfolding test_latency_def using f r1 r2 s1 s2 s3 assms(6) by (simp add: Let_def)
  then show ?thesis
    by (auto simp: d_def off_def chase_offset_def add.commute)
qed

theorem test_latency_correct_witness:
  "\<exists>r. test_latency demo_cal (\<lambda>k. of_nat k * 100) (\<lambda>k. of_nat k * 300) 32 3 True (Some 0x7f0000000000) = Some (Inr r)
    \<and> lr_file r = [300, 300, 300] \<and> index_t (lr_state r) = [256, 512, 768] \<and> lr_cycles r = 900"
proof -
  have "(of_nat (2 * k + 1) * 100 - of_nat (2 * k) * 100 :: u64) = 100"
    "(of_nat (2 * k + 1) * 300 - of_nat (2 * k) * 300 :: u64) = 300" for k :: nat
    by (simp_all add: algebra_simps)
  with test_latency_correct [of 32 3 "\<lambda>k. of_nat k * 100" "\<lambda>k. of_nat k * 300" demo_cal "5 / 2" "0x7f0000000000"]
  show ?thesis by (auto simp: upt_rec array_size_def demo_calibrate)
qed

lemma rdtsc_ok:
  assumes "uint j < 2 ^ 31" shows "rdtsc i j = Some (uint j * 2 ^ 32 + uint i)"
proof -
  have u: "0 \<le> uint j" "0 \<le> uint i" "uint i < 2 ^ 32" using unsigned_less [where 'a = int, of i] by simp_all
  have "check_long (x * 2 ^ 32 + y) = Some (x * 2 ^ 32 + y)" if "0 \<le> x" "x < 2 ^ 31" "0 \<le> y" "y < 2 ^ 32" for x y :: int
    using that by (auto simp: check_long_def)
  from this [OF u(1) assms u(2,3)] this [OF u(1) assms, of 0] show ?thesis by (simp add: rdtsc_def)
qed

text \<open>
  C37. The latency benchmark. On a machine with more than five CPUs, with time stamps below \<open>2^63\<close> and
  differences around a load below \<open>2^23\<close>, the program runs to its end without fault or overflow: load
  \<open>k\<close> of each run returns the byte offset \<open>256 * (k + 1)\<close>, which is inside the table; the file gets the
  differences of the time stamps around the hundred loads of the second run, in order, and the
  printed number is their sum. With five CPUs or fewer the number of the thread is stored outside
  its array.
\<close>

theorem latency_main_reports:
  assumes "uint (snd r0) < 2 ^ 31" and "uint (snd r1) < 2 ^ 31"
    and "\<And>k. uint (tsc1 (2 * k + 1) - tsc1 (2 * k)) < 2 ^ 23"
    and "\<And>k. uint (tsc2 (2 * k + 1) - tsc2 (2 * k)) < 2 ^ 23"
    and "calibrate \<lparr>tsc_start = uint (snd r0) * 2 ^ 32 + uint (fst r0), tsc_end = uint (snd r1) * 2 ^ 32 + uint (fst r1),
      tv_start = tv0, tv_end = tv1\<rparr> = Some f"
  shows "(n \<le> 5 \<longrightarrow> latency_main n r0 r1 tv0 tv1 tsc1 tsc2 True (Some base) = None)
    \<and> (5 < n \<longrightarrow> (\<exists>r. latency_main n r0 r1 tv0 tv1 tsc1 tsc2 True (Some base) = Some (Inr r)
      \<and> lr_file r = map (\<lambda>k. uint (tsc2 (2 * k + 1) - tsc2 (2 * k))) [0 ..< 100]
      \<and> index_t (lr_state r) = map (\<lambda>k. 256 * (int k + 1)) [0 ..< 100]
      \<and> lr_cycles r = sum_list (lr_file r) \<and> lr_total r = sum_list (index_t (lr_state r))))"
proof -
  have "8 * 32 * (int k + 1) mod array_size = 256 * (int k + 1)" if "k < 100" for k
    using that by (simp add: array_size_def)
  then have "map (\<lambda>k. 8 * 32 * (int k + 1) mod array_size) [0 ..< 100] = map (\<lambda>k. 256 * (int k + 1)) [0 ..< 100]" by simp
  with test_latency_correct [of 32 100, OF _ _ _ assms(3-5), of base] show ?thesis
    by (auto simp: latency_main_def rdtsc_ok [OF assms(1)] rdtsc_ok [OF assms(2)])
qed

theorem latency_main_reports_witness:
  "\<exists>r. latency_main 8 (0, 0) (250000000, 0) (10, 950000) (11, 50000) (\<lambda>k. of_nat k * 100) (\<lambda>k. of_nat k * 300) True
      (Some 0x7f0000000000) = Some (Inr r) \<and> lr_cycles r = 30000"
proof -
  have d: "(of_nat (2 * k + 1) * 100 - of_nat (2 * k) * 100 :: u64) = 100"
    "(of_nat (2 * k + 1) * 300 - of_nat (2 * k) * 300 :: u64) = 300" for k :: nat
    by (simp_all add: algebra_simps)
  have "sum_list (map (\<lambda>k :: nat. 300 :: int) [0 ..< 100]) = 30000" by (simp add: sum_list_triv)
  with latency_main_reports [of "(0, 0)" "(250000000, 0)" "\<lambda>k. of_nat k * 100" "\<lambda>k. of_nat k * 300" "(10, 950000)" "(11, 50000)" "5 / 2" 8
      "0x7f0000000000"] d demo_calibrate [unfolded demo_cal_def]
  show ?thesis by auto
qed

text \<open>
  The chase stays in the first eighth of the table: entries are byte offsets reduced by the
  number of entries and not by the size in bytes, so every load, whatever the stride, is in the
  first 4 MiB of the 32 MiB that are mapped and filled. As long as the run does not wrap, no entry
  is loaded twice.
\<close>

theorem chase_first_eighth:
  assumes "p_table s = table stride" and "addr s = p_base s" and "length (index_t s) = op" and "length (res s) = op"
  shows "\<exists>t. perf_counter_asm tsc op s = Some t
    \<and> (\<forall>x \<in> set (index_t t). 0 \<le> x \<and> 8 * x < 8 * int (length (p_table s)) \<and> x mod 8 = 0)
    \<and> (0 < stride \<and> 8 * stride * int op < array_size \<longrightarrow> distinct (index_t t))"
proof -
  have "distinct (map (\<lambda>k. chase_offset stride (Suc k)) [0 ..< op])"
    if "0 < stride" "8 * stride * int op < array_size"
  proof -
    have "chase_offset stride (Suc k) = 8 * stride * int (Suc k)" if "k < op" for k
    proof -
      have "8 * stride * int (Suc k) \<le> 8 * stride * int op"
        using that \<open>0 < stride\<close> by (intro mult_left_mono) simp_all
      then have "8 * stride * int (Suc k) < array_size" using \<open>8 * stride * int op < array_size\<close> by linarith
      moreover have "0 \<le> 8 * stride * int (Suc k)" using \<open>0 < stride\<close> by simp
      ultimately show ?thesis unfolding chase_offset_def by (intro mod_pos_pos_trivial)
    qed
    then show ?thesis using \<open>0 < stride\<close> by (auto simp: distinct_map inj_on_def)
  qed
  moreover have "length (p_table s) = nat array_size" by (simp add: assms(1))
  ultimately show ?thesis
    using perf_counter_asm_ok [OF assms, of tsc] chase_offset_facts [of stride]
    by (auto simp: array_size_def)
qed

theorem chase_first_eighth_witness:
  "\<exists>t. perf_counter_asm (\<lambda>k. 0) 100 \<lparr>p_base = 0x1000, p_table = table 32, index_t = replicate 100 0,
      res = replicate 100 0, addr = 0x1000\<rparr> = Some t \<and> distinct (index_t t)"
  using chase_first_eighth [of "\<lparr>p_base = 0x1000, p_table = table 32, index_t = replicate 100 0,
      res = replicate 100 0, addr = 0x1000\<rparr>" 32 100 "\<lambda>k. 0"]
  by (auto simp: array_size_def)

end
