(* ===== verification/Cpu_Throughput.thy ===== *)
theory Cpu_Throughput
  imports C_Int
begin

text \<open>
  The throughput benchmark \<open>cpu_benchmark/throughput.cpp\<close>: the accesses a thread makes to the shared
  array \<open>p\<close>, the sums it accumulates in \<open>int\<close>, the time and speed it computes, and the loop of \<open>main\<close>
  over strides and burst sizes. \<open>main\<close> writes the first of the eight 64-bit lanes of every element; the
  other lanes keep what \<open>aligned_alloc\<close> left there, which is a parameter. The threads share only the
  array, which nobody writes after it is initialised, and store to elements of their own, so they are
  run one after the other. The clock is a parameter; the difference of its seconds is multiplied as a
  \<open>double\<close>, which is exact for the differences considered. An access outside the array, an overflow
  of \<open>int\<close> or \<open>long\<close> and a use of an array element that does not exist are faults, \<^term>\<open>None\<close>. That
  the function of a thread, of type \<open>void *\<close>, has no \<open>return\<close> is not counted as one: nobody uses the value.
\<close>

section \<open>Parameters\<close>

definition work_group_size :: int where "work_group_size = 1024 * 1024 * 256"
definition op :: nat where "op = 1000000"
definition thread_num :: nat where "thread_num = 16"

section \<open>A thread\<close>

text \<open>\<open>p[(start+i*stride+j)%work_group_size]\<close>: the product is an \<open>int\<close>, the sums are \<open>long\<close>.\<close>

definition access :: "int \<Rightarrow> int \<Rightarrow> nat \<Rightarrow> nat \<Rightarrow> int option" where
  "access start stride i j = do {
     m \<leftarrow> check_int (int i * stride);
     a \<leftarrow> check_long (start + m);
     b \<leftarrow> check_long (a + int j);
     let k = c_rem b work_group_size;
     if 0 \<le> k \<and> k < work_group_size then Some k else None }"

text \<open>
  \<open>_mm512_reduce_add_epi32(p[k])\<close>: the element's first lane holds \<open>k\<close>, \<open>rest k\<close> is the sum of its
  remaining 32-bit lanes, and the addition of the lanes wraps.
\<close>

definition reduce_add :: "(int \<Rightarrow> int) \<Rightarrow> int \<Rightarrow> int" where
  "reduce_add rest k = to_int (k + rest k)"

text \<open>The loops over \<open>j\<close> and \<open>i\<close>: the elements read, and the sums unless the loop faults.\<close>

fun burst_loop :: "(int \<Rightarrow> int) \<Rightarrow> int \<Rightarrow> int \<Rightarrow> nat \<Rightarrow> nat \<Rightarrow> nat \<Rightarrow> int list \<Rightarrow> int list \<times> int list option" where
  "burst_loop rest start stride i 0 j acc = ([], Some acc)"
| "burst_loop rest start stride i (Suc n) j acc =
     (case access start stride i j of
        None \<Rightarrow> ([], None)
      | Some k \<Rightarrow>
          (case do { x \<leftarrow> fetch acc (int j); y \<leftarrow> check_int (x + reduce_add rest k); store (int j) y acc } of
             None \<Rightarrow> ([k], None)
           | Some acc' \<Rightarrow>
               (case burst_loop rest start stride i n (j + 1) acc' of (ks, r) \<Rightarrow> (k # ks, r))))"

fun op_loop :: "(int \<Rightarrow> int) \<Rightarrow> int \<Rightarrow> int \<Rightarrow> nat \<Rightarrow> nat \<Rightarrow> nat \<Rightarrow> int list \<Rightarrow> int list \<times> int list option" where
  "op_loop rest start stride burst 0 i acc = ([], Some acc)"
| "op_loop rest start stride burst (Suc n) i acc =
     (case burst_loop rest start stride i burst 0 acc of
        (ks, None) \<Rightarrow> (ks, None)
      | (ks, Some acc') \<Rightarrow>
          (case op_loop rest start stride burst n (i + 1) acc' of (ls, r) \<Rightarrow> (ks @ ls, r)))"

record thread_result =
  tr_time :: int
  tr_speed :: real

definition read_thread ::
  "(int \<Rightarrow> int) \<Rightarrow> (int \<times> int) \<times> (int \<times> int) \<Rightarrow> int \<Rightarrow> nat \<Rightarrow> nat \<Rightarrow> int list \<times> thread_result option" where
  "read_thread rest clk stride burst index =
     (case do { a \<leftarrow> check_long (int op * stride); check_long (a * int index) } of
        None \<Rightarrow> ([], None)
      | Some start \<Rightarrow>
          (case op_loop rest start stride burst op 0 (replicate burst 0) of
             (ks, None) \<Rightarrow> (ks, None)
           | (ks, Some acc) \<Rightarrow> (ks, do {
               t \<leftarrow> check_long (timespec_diff (fst clk) (snd clk));
               tp \<leftarrow> check_long (int op * int burst * 64);
               Some \<lparr>tr_time = t, tr_speed = real_of_int tp / real_of_int t\<rparr> })))"

section \<open>The rows of the report\<close>

record row =
  row_stride :: int
  row_burst :: nat
  row_peak :: real
  row_total :: real

text \<open>
  The threads of one row; \<open>tmp\<close> and \<open>Thread\<close> have an element per processor, \<open>t\<close> and \<open>sp\<close> twenty.
\<close>

fun run_threads :: "(int \<Rightarrow> int) \<Rightarrow> nat \<Rightarrow> (nat \<Rightarrow> (int \<times> int) \<times> (int \<times> int)) \<Rightarrow> int \<Rightarrow> nat \<Rightarrow> nat \<Rightarrow> nat \<Rightarrow> thread_result list option" where
  "run_threads rest cpu_nums clk stride burst 0 i = Some []"
| "run_threads rest cpu_nums clk stride burst (Suc n) i = do {
     _ \<leftarrow> (if i < cpu_nums \<and> i < 20 then Some () else None);
     r \<leftarrow> snd (read_thread rest (clk i) stride burst i);
     rs \<leftarrow> run_threads rest cpu_nums clk stride burst n (i + 1);
     Some (r # rs) }"

definition max_time :: "thread_result list \<Rightarrow> int" where
  "max_time rs = fold (\<lambda>r m. if m < tr_time r then tr_time r else m) rs 0"

definition run_row :: "(int \<Rightarrow> int) \<Rightarrow> nat \<Rightarrow> (nat \<Rightarrow> (int \<times> int) \<times> (int \<times> int)) \<Rightarrow> int \<Rightarrow> nat \<Rightarrow> row option" where
  "run_row rest cpu_nums clk stride burst = do {
     rs \<leftarrow> run_threads rest cpu_nums clk stride burst thread_num 0;
     let tp = real op * real burst * 64 * real thread_num;
     Some \<lparr>row_stride = stride, row_burst = burst, row_peak = tp / real_of_int (max_time rs),
           row_total = sum_list (map tr_speed rs)\<rparr> }"

text \<open>
  The two loops; the result is the list of rows written and whether the loop came to its end.
  \<open>clks stride burst\<close> are the clocks of a row's threads.
\<close>

fun burst_rows :: "(int \<Rightarrow> int) \<Rightarrow> nat \<Rightarrow> (int \<Rightarrow> nat \<Rightarrow> nat \<Rightarrow> (int \<times> int) \<times> (int \<times> int)) \<Rightarrow> int \<Rightarrow> nat \<Rightarrow> nat \<Rightarrow> row list \<times> bool" where
  "burst_rows rest cpu_nums clks stride burst 0 = ([], True)"
| "burst_rows rest cpu_nums clks stride burst (Suc n) =
     (case run_row rest cpu_nums (clks stride burst) stride burst of
        None \<Rightarrow> ([], False)
      | Some r \<Rightarrow> (case burst_rows rest cpu_nums clks stride (burst * 2) n of (rs, ok) \<Rightarrow> (r # rs, ok)))"

fun stride_rows :: "(int \<Rightarrow> int) \<Rightarrow> nat \<Rightarrow> (int \<Rightarrow> nat \<Rightarrow> nat \<Rightarrow> (int \<times> int) \<times> (int \<times> int)) \<Rightarrow> int \<Rightarrow> nat \<Rightarrow> row list \<times> bool" where
  "stride_rows rest cpu_nums clks stride 0 = ([], True)"
| "stride_rows rest cpu_nums clks stride (Suc n) =
     (case burst_rows rest cpu_nums clks stride 8 5 of
        (rs, False) \<Rightarrow> (rs, False)
      | (rs, True) \<Rightarrow> (case stride_rows rest cpu_nums clks (stride * 2) n of (ss, ok) \<Rightarrow> (rs @ ss, ok)))"

definition throughput_main ::
  "(int \<Rightarrow> int) \<Rightarrow> nat \<Rightarrow> (int \<Rightarrow> nat \<Rightarrow> nat \<Rightarrow> (int \<times> int) \<times> (int \<times> int)) \<Rightarrow> row list \<times> bool" where
  "throughput_main rest cpu_nums clks = stride_rows rest cpu_nums clks 64 11"

section \<open>Accesses\<close>

definition access_index :: "int \<Rightarrow> int \<Rightarrow> nat \<Rightarrow> nat \<Rightarrow> int" where
  "access_index start stride i j = (start + int i * stride + int j) mod work_group_size"

lemma access_ok:
  assumes "0 \<le> start" and "0 \<le> stride" and "int i * stride < 2 ^ 31" and "start < 2 ^ 61" and "j < 2 ^ 31"
  shows "access start stride i j = Some (access_index start stride i j)"
proof -
  have m: "0 \<le> int i * stride" using assms(2) by simp
  have j: "int j < 2 ^ 31" using assms(5) by simp
  define x where "x = int i * stride"
  have x: "0 \<le> x" "x < 2 ^ 31" using m assms(3) by (simp_all only: x_def)
  then have "check_int x = Some x" by simp
  moreover have "check_long (start + x) = Some (start + x)"
    using x assms(1,4) by (intro check_long_add) simp_all
  moreover have "check_long (start + x + int j) = Some (start + x + int j)"
    using x j assms(1,4) by (intro check_long_add) simp_all
  moreover have "c_rem (start + x + int j) work_group_size = access_index start stride i j"
    using x assms(1) by (simp add: access_index_def x_def)
  moreover have "0 \<le> access_index start stride i j" "access_index start stride i j < work_group_size"
    by (simp_all add: access_index_def work_group_size_def)
  ultimately show ?thesis by (simp add: access_def Let_def flip: x_def)
qed

lemma access_overflow: "2 ^ 31 \<le> int i * stride \<Longrightarrow> access start stride i j = None"
  by (simp add: access_def)

text \<open>The value of the element an access reads, and the sum of the first \<open>i\<close> of them.\<close>

definition elem :: "(int \<Rightarrow> int) \<Rightarrow> int \<Rightarrow> int \<Rightarrow> nat \<Rightarrow> nat \<Rightarrow> int" where
  "elem rest start stride i j = reduce_add rest (access_index start stride i j)"

definition part_sum :: "(int \<Rightarrow> int) \<Rightarrow> int \<Rightarrow> int \<Rightarrow> nat \<Rightarrow> nat \<Rightarrow> int" where
  "part_sum rest start stride i j = (\<Sum>m < i. elem rest start stride m j)"

lemma part_sum_Suc: "part_sum rest start stride i j + elem rest start stride i j = part_sum rest start stride (Suc i) j"
  by (simp add: part_sum_def)

lemma sum_step:
  assumes "j < length acc"
  shows "do { x \<leftarrow> fetch acc (int j); y \<leftarrow> check_int (x + v); store (int j) y acc } =
    (if in_int (acc ! j + v) then Some (acc[j := acc ! j + v]) else None)"
  using assms by (simp add: check_int_def)

lemma burst_loop_fits:
  assumes "\<And>j. j < 2 ^ 31 \<Longrightarrow> access start stride i j = Some (access_index start stride i j)"
    and "j + n = length acc" and "length acc \<le> 2 ^ 31"
    and "\<forall>l \<in> {j ..< j + n}. in_int (acc ! l + elem rest start stride i l)"
  shows "burst_loop rest start stride i n j acc = (map (access_index start stride i) [j ..< j + n],
    Some (take j acc @ map (\<lambda>l. acc ! l + elem rest start stride i l) [j ..< j + n]))"
  using assms(2-4)
proof (induction n arbitrary: j acc)
  case (Suc n)
  define v where "v = acc ! j + elem rest start stride i j"
  have j: "j < length acc" "j < 2 ^ 31" using Suc.prems by simp_all
  have "in_int v" using Suc.prems(3) by (simp add: v_def)
  with sum_step [OF j(1), of "elem rest start stride i j"]
  have st: "do { x \<leftarrow> fetch acc (int j); y \<leftarrow> check_int (x + elem rest start stride i j); store (int j) y acc }
      = Some (acc[j := v])" by (simp only: v_def if_True)
  have "burst_loop rest start stride i n (Suc j) (acc[j := v]) =
      (map (access_index start stride i) [Suc j ..< Suc j + n],
       Some (take (Suc j) (acc[j := v]) @ map (\<lambda>l. acc[j := v] ! l + elem rest start stride i l) [Suc j ..< Suc j + n]))"
    using Suc.prems by (intro Suc.IH) simp_all
  moreover have "map (\<lambda>l. acc[j := v] ! l + elem rest start stride i l) [Suc j ..< Suc j + n] =
      map (\<lambda>l. acc ! l + elem rest start stride i l) [Suc j ..< Suc j + n]" by (rule map_cong) auto
  moreover have "[j ..< j + Suc n] = j # [Suc j ..< Suc j + n]" by (simp add: upt_conv_Cons)
  ultimately show ?case
    using assms(1) [OF j(2)] st [unfolded elem_def] take_Suc_update [OF j(1), of v]
    by (simp add: elem_def v_def del: upt_Suc)
qed simp

lemma burst_loop_stops:
  assumes "\<And>j. j < 2 ^ 31 \<Longrightarrow> access start stride i j = Some (access_index start stride i j)"
    and "j + n = length acc" and "length acc \<le> 2 ^ 31"
    and "\<not> (\<forall>l \<in> {j ..< j + n}. in_int (acc ! l + elem rest start stride i l))"
  shows "\<exists>m \<le> n. burst_loop rest start stride i n j acc = (map (access_index start stride i) [j ..< j + m], None)"
  using assms(2-4)
proof (induction n arbitrary: j acc)
  case (Suc n)
  define v where "v = acc ! j + elem rest start stride i j"
  have j: "j < length acc" "j < 2 ^ 31" using Suc.prems by simp_all
  note st = sum_step [OF j(1), of "elem rest start stride i j", folded v_def, unfolded elem_def]
  show ?case
  proof (cases "in_int v")
    case False
    then have "burst_loop rest start stride i (Suc n) j acc = (map (access_index start stride i) [j ..< j + 1], None)"
      using assms(1) [OF j(2)] st by simp
    then show ?thesis by (intro exI [of _ 1]) simp
  next
    case True
    have "{j ..< j + Suc n} = insert j {Suc j ..< Suc j + n}" by auto
    with Suc.prems(3) True obtain l where l: "l \<in> {Suc j ..< Suc j + n}" "\<not> in_int (acc ! l + elem rest start stride i l)"
      by (auto simp: v_def)
    then have "\<not> (\<forall>l \<in> {Suc j ..< Suc j + n}. in_int (acc[j := v] ! l + elem rest start stride i l))" by auto
    with Suc.IH [of "Suc j" "acc[j := v]"] Suc.prems obtain m where m: "m \<le> n"
      "burst_loop rest start stride i n (Suc j) (acc[j := v]) = (map (access_index start stride i) [Suc j ..< Suc j + m], None)"
      by auto
    have "[j ..< j + Suc m] = j # [Suc j ..< Suc j + m]" by (simp add: upt_conv_Cons)
    then have "burst_loop rest start stride i (Suc n) j acc = (map (access_index start stride i) [j ..< j + Suc m], None)"
      using assms(1) [OF j(2)] st True m(2) by (simp del: upt_Suc)
    with m(1) show ?thesis by (intro exI [of _ "Suc m"]) simp
  qed
qed simp

text \<open>An operation whose offset fits \<open>int\<close> and whose sums do.\<close>

definition op_fits :: "(int \<Rightarrow> int) \<Rightarrow> int \<Rightarrow> int \<Rightarrow> nat \<Rightarrow> nat \<Rightarrow> bool" where
  "op_fits rest start stride burst i \<longleftrightarrow>
     int i * stride < 2 ^ 31 \<and> (\<forall>j < burst. in_int (part_sum rest start stride (Suc i) j))"

abbreviation op_accesses :: "int \<Rightarrow> int \<Rightarrow> nat \<Rightarrow> nat list \<Rightarrow> int list" where
  "op_accesses start stride burst is \<equiv> concat (map (\<lambda>k. map (access_index start stride k) [0 ..< burst]) is)"

lemma burst_of_op_fits:
  assumes "0 \<le> start" and "0 \<le> stride" and "start < 2 ^ 61" and "burst \<le> 2 ^ 31" and "op_fits rest start stride burst i"
  shows "burst_loop rest start stride i burst 0 (map (part_sum rest start stride i) [0 ..< burst]) =
    (map (access_index start stride i) [0 ..< burst], Some (map (part_sum rest start stride (Suc i)) [0 ..< burst]))"
proof -
  have "access start stride i j = Some (access_index start stride i j)" if "j < 2 ^ 31" for j
    using that assms by (intro access_ok) (simp_all add: op_fits_def)
  from burst_loop_fits [OF this, of 0 burst "map (part_sum rest start stride i) [0 ..< burst]" rest] assms(4,5)
  show ?thesis by (simp add: op_fits_def part_sum_Suc cong: map_cong)
qed

lemma burst_of_op_stops:
  assumes "0 \<le> start" and "0 \<le> stride" and "start < 2 ^ 61" and "burst \<le> 2 ^ 31" and "0 < burst"
    and "\<not> op_fits rest start stride burst i"
  shows "\<exists>m \<le> burst. burst_loop rest start stride i burst 0 (map (part_sum rest start stride i) [0 ..< burst]) =
    (map (access_index start stride i) [0 ..< m], None)"
proof (cases "int i * stride < 2 ^ 31")
  case False
  then have "access start stride i 0 = None" by (intro access_overflow) simp
  then show ?thesis using assms(5) by (cases burst) auto
next
  case True
  then have "access start stride i j = Some (access_index start stride i j)" if "j < 2 ^ 31" for j
    using that assms by (intro access_ok) simp_all
  moreover have "\<not> (\<forall>l \<in> {0 ..< 0 + burst}.
      in_int (map (part_sum rest start stride i) [0 ..< burst] ! l + elem rest start stride i l))"
    using assms(6) True by (auto simp: op_fits_def part_sum_Suc)
  ultimately show ?thesis
    using burst_loop_stops [of start stride i 0 burst "map (part_sum rest start stride i) [0 ..< burst]" rest] assms(4)
    by simp
qed

lemma op_loop_fits:
  assumes "0 \<le> start" and "0 \<le> stride" and "start < 2 ^ 61" and "burst \<le> 2 ^ 31"
    and "\<forall>m \<in> {i ..< i + n}. op_fits rest start stride burst m"
  shows "op_loop rest start stride burst n i (map (part_sum rest start stride i) [0 ..< burst]) =
    (op_accesses start stride burst [i ..< i + n], Some (map (part_sum rest start stride (i + n)) [0 ..< burst]))"
  using assms(5)
proof (induction n arbitrary: i)
  case (Suc n)
  have "op_fits rest start stride burst i" using Suc.prems by simp
  note b = burst_of_op_fits [OF assms(1-4) this]
  have "[i ..< i + Suc n] = i # [Suc i ..< Suc i + n]" by (simp add: upt_conv_Cons)
  with b Suc.IH [of "Suc i"] Suc.prems show ?case by (simp del: upt_Suc)
qed simp

lemma op_loop_stops:
  assumes "0 \<le> start" and "0 \<le> stride" and "start < 2 ^ 61" and "burst \<le> 2 ^ 31" and "0 < burst"
    and "m \<in> {i ..< i + n}" and "\<not> op_fits rest start stride burst m"
  shows "\<exists>q. op_loop rest start stride burst n i (map (part_sum rest start stride i) [0 ..< burst]) =
    (take q (op_accesses start stride burst [i ..< i + n]), None)"
  using assms(6,7)
proof (induction n arbitrary: i)
  case (Suc n)
  let ?A = "map (access_index start stride i) [0 ..< burst]" and ?B = "op_accesses start stride burst [Suc i ..< Suc i + n]"
  have e: "op_accesses start stride burst [i ..< i + Suc n] = ?A @ ?B"
    by (simp add: upt_conv_Cons del: upt_Suc)
  show ?case
  proof (cases "op_fits rest start stride burst i")
    case True
    then have "m \<in> {Suc i ..< Suc i + n}" using Suc.prems by (cases "m = i") auto
    with Suc.IH [of "Suc i"] Suc.prems(2) obtain q where
      "op_loop rest start stride burst n (Suc i) (map (part_sum rest start stride (Suc i)) [0 ..< burst]) = (take q ?B, None)"
      by auto
    with burst_of_op_fits [OF assms(1-4) True]
    have "op_loop rest start stride burst (Suc n) i (map (part_sum rest start stride i) [0 ..< burst]) = (?A @ take q ?B, None)"
      by simp
    then show ?thesis unfolding e by (intro exI [of _ "burst + q"]) simp
  next
    case False
    then obtain l where "l \<le> burst" "burst_loop rest start stride i burst 0 (map (part_sum rest start stride i) [0 ..< burst]) =
      (map (access_index start stride i) [0 ..< l], None)"
      using burst_of_op_stops [OF assms(1-5)] by blast
    then show ?thesis unfolding e by (intro exI [of _ l]) (simp add: take_map)
  qed
qed simp

section \<open>Threads and rows\<close>

text \<open>Nanoseconds between two points in time.\<close>

definition elapsed_ns :: "int \<times> int \<Rightarrow> int \<times> int \<Rightarrow> int" where
  "elapsed_ns t0 t1 = (fst t1 * 10 ^ 9 + snd t1) - (fst t0 * 10 ^ 9 + snd t0)"

lemma timespec_diff_elapsed:
  "timespec_diff t0 t1 = elapsed_ns t0 t1 + 9 * 10 ^ 9 * (fst t1 - fst t0)"
  by (simp add: timespec_diff_def elapsed_ns_def algebra_simps)

text \<open>
  Two readings of the clock at most 900000 seconds apart: then the difference in nanoseconds, with
  the factor of the code, is below \<open>2 ^ 53\<close> and exact as a \<open>double\<close>.
\<close>

definition clock_ok :: "(int \<times> int) \<times> (int \<times> int) \<Rightarrow> bool" where
  "clock_ok c \<longleftrightarrow> \<bar>fst (snd c) - fst (fst c)\<bar> \<le> 900000
     \<and> 0 \<le> snd (fst c) \<and> snd (fst c) < 10 ^ 9 \<and> 0 \<le> snd (snd c) \<and> snd (snd c) < 10 ^ 9"

lemma clock_ok_exact: "clock_ok c \<Longrightarrow> \<bar>timespec_diff (fst c) (snd c)\<bar> < 2 ^ 53"
  by (auto simp: clock_ok_def timespec_diff_def abs_if split: if_splits)

lemma clock_ok_long: "clock_ok c \<Longrightarrow> check_long (timespec_diff (fst c) (snd c)) = Some (timespec_diff (fst c) (snd c))"
  using clock_ok_exact [of c] by (intro check_long_ok) simp_all

lemma thread_start:
  assumes "0 < stride" and "stride \<le> 65536" and "index < 20"
  shows "0 \<le> int op * stride * int index" and "int op * stride * int index < 2 ^ 61"
    and "do { a \<leftarrow> check_long (int op * stride); check_long (a * int index) } = Some (int op * stride * int index)"
proof -
  define a where "a = int op * stride"
  have a: "0 \<le> a" "a < 2 ^ 40" using assms(1,2) by (simp_all add: a_def op_def)
  have "a * int index \<le> a * 20" using a assms(3) by (intro mult_left_mono) simp_all
  then have b: "0 \<le> a * int index" "a * int index < 2 ^ 61" using a by simp_all
  then show "0 \<le> int op * stride * int index" "int op * stride * int index < 2 ^ 61" by (simp_all only: a_def)
  have "check_long a = Some a" using a by simp
  moreover have "check_long (a * int index) = Some (a * int index)" using b by simp
  ultimately show "do { a \<leftarrow> check_long (int op * stride); check_long (a * int index) } = Some (int op * stride * int index)"
    by (simp flip: a_def)
qed

lemma zero_sums: "replicate burst 0 = map (part_sum rest start stride 0) [0 ..< burst]"
  by (rule nth_equalityI) (simp_all add: part_sum_def)

lemma read_thread_stops:
  assumes "0 < stride" and "stride \<le> 65536" and "0 < burst" and "burst \<le> 128" and "index < 20"
    and "m < op" and "\<not> op_fits rest (int op * stride * int index) stride burst m"
  shows "\<exists>q. read_thread rest clk stride burst index =
    (take q (op_accesses (int op * stride * int index) stride burst [0 ..< op]), None)"
proof -
  note t = thread_start [OF assms(1,2,5)]
  obtain q where "op_loop rest (int op * stride * int index) stride burst op 0 (replicate burst 0) =
      (take q (op_accesses (int op * stride * int index) stride burst [0 ..< op]), None)"
    using op_loop_stops [OF t(1) _ t(2), where stride = stride and rest = rest and burst = burst and m = m and i = 0 and n = op]
      zero_sums [of burst rest] assms by auto
  then show ?thesis using t(3) by (auto simp: read_thread_def)
qed

lemma read_thread_finishes:
  assumes "0 < stride" and "stride \<le> 65536" and "burst \<le> 128" and "index < 20"
    and "\<forall>m < op. op_fits rest (int op * stride * int index) stride burst m" and "clock_ok clk"
  shows "read_thread rest clk stride burst index =
    (op_accesses (int op * stride * int index) stride burst [0 ..< op],
     Some \<lparr>tr_time = timespec_diff (fst clk) (snd clk),
       tr_speed = real_of_int (int op * int burst * 64) / real_of_int (timespec_diff (fst clk) (snd clk))\<rparr>)"
proof -
  note t = thread_start [OF assms(1,2,4)]
  have "op_loop rest (int op * stride * int index) stride burst op 0 (replicate burst 0) =
      (op_accesses (int op * stride * int index) stride burst [0 ..< op],
       Some (map (part_sum rest (int op * stride * int index) stride op) [0 ..< burst]))"
    using op_loop_fits [OF t(1) _ t(2), where stride = stride and rest = rest and burst = burst and i = 0 and n = op]
      zero_sums [of burst rest] assms by auto
  moreover have "check_long (int op * int burst * 64) = Some (int op * int burst * 64)"
    using assms(3) by (intro check_long_ok) (simp_all add: op_def)
  ultimately show ?thesis using t(3) clock_ok_long [OF assms(6)] by (simp add: read_thread_def)
qed

lemma read_thread_product_overflow:
  assumes "0 < stride" and "stride \<le> 65536" and "0 < burst" and "burst \<le> 128" and "index < 20"
    and "2 ^ 31 \<le> int (op - 1) * stride"
  shows "snd (read_thread rest clk stride burst index) = None"
proof -
  have "\<not> op_fits rest (int op * stride * int index) stride burst (op - 1)"
    using assms(6) unfolding op_fits_def by linarith
  moreover have "op - 1 < op" by (simp add: op_def)
  ultimately show ?thesis using read_thread_stops [OF assms(1-5), of "op - 1" rest clk] by auto
qed

text \<open>
  With lanes that add up to small non-negative numbers, the first thread of the first row has added
  up more than an \<open>int\<close> holds by operation 8192.
\<close>

lemma first_sum_overflows:
  assumes "\<forall>k \<in> {0 ..< work_group_size}. 0 \<le> rest k \<and> k + rest k < 2 ^ 31"
  shows "\<not> op_fits rest 0 64 burst 8192 \<or> burst = 0"
proof -
  have "64 * int i \<le> elem rest 0 64 i 0" if "i \<le> 8192" for i
  proof -
    have "access_index 0 64 i 0 = 64 * int i"
      using that by (simp add: access_index_def work_group_size_def)
    moreover have "0 \<le> rest (64 * int i)" "64 * int i + rest (64 * int i) < 2 ^ 31"
      using assms that by (simp_all add: work_group_size_def)
    ultimately show ?thesis by (simp add: elem_def reduce_add_def to_int_id in_int_def)
  qed
  then have "(\<Sum>i < 8193. 64 * int i) \<le> part_sum rest 0 64 8193 0"
    unfolding part_sum_def by (intro sum_mono) simp
  moreover have "(\<Sum>i < n. 64 * int i) = 32 * (int n * (int n - 1))" for n
    by (induction n) (simp_all add: algebra_simps)
  from this [of 8193] have "(2 :: int) ^ 31 \<le> (\<Sum>i < 8193. 64 * int i)" by simp
  ultimately have "2 ^ 31 \<le> part_sum rest 0 64 (Suc 8192) 0" by simp
  then have "\<not> in_int (part_sum rest 0 64 (Suc 8192) 0)" by (simp add: in_int_def)
  then show ?thesis by (auto simp: op_fits_def)
qed

lemma run_row_stops:
  assumes "snd (read_thread rest (clk 0) stride burst 0) = None"
  shows "run_row rest cpu_nums clk stride burst = None"
proof -
  have "run_threads rest cpu_nums clk stride burst (Suc n) 0 = None" for n using assms by simp
  then have "run_threads rest cpu_nums clk stride burst thread_num 0 = None"
    using Suc_pred [of thread_num] by (metis thread_num_def zero_less_numeral)
  then show ?thesis by (simp add: run_row_def)
qed

lemma run_threads_few:
  "cpu_nums < i + n \<Longrightarrow> i \<le> cpu_nums \<Longrightarrow> run_threads rest cpu_nums clk stride burst n i = None"
proof (induction n arbitrary: i)
  case (Suc n)
  show ?case
  proof (cases "i < cpu_nums")
    case True
    then have "run_threads rest cpu_nums clk stride burst n (Suc i) = None" using Suc by simp
    then show ?thesis by (cases "snd (read_thread rest (clk i) stride burst i)") simp_all
  qed simp
qed simp

lemma run_row_few: "cpu_nums < 16 \<Longrightarrow> run_row rest cpu_nums clk stride burst = None"
  by (simp add: run_row_def run_threads_few thread_num_def)

lemma burst_rows_stop:
  "run_row rest cpu_nums (clks stride burst) stride burst = None \<Longrightarrow> 0 < n \<Longrightarrow>
   burst_rows rest cpu_nums clks stride burst n = ([], False)"
  by (cases n) simp_all

lemma main_stops_at_once:
  assumes "run_row rest cpu_nums (clks 64 8) 64 8 = None"
  shows "throughput_main rest cpu_nums clks = ([], False)"
proof -
  have "burst_rows rest cpu_nums clks 64 8 5 = ([], False)" using assms by (intro burst_rows_stop) simp_all
  then have "stride_rows rest cpu_nums clks 64 (Suc n) = ([], False)" for n by simp
  from this [of 10] show ?thesis by (simp add: throughput_main_def)
qed

lemma burst_rows_stride: "r \<in> set (fst (burst_rows rest cpu_nums clks stride burst n)) \<Longrightarrow> row_stride r = stride"
proof (induction n arbitrary: burst)
  case (Suc n)
  show ?case
  proof (cases "run_row rest cpu_nums (clks stride burst) stride burst")
    case (Some r')
    then have "row_stride r' = stride" by (auto simp: run_row_def Let_def split: bind_splits)
    with Suc Some show ?thesis by (cases "burst_rows rest cpu_nums clks stride (burst * 2) n") (use Suc.IH [of "burst * 2"] in auto)
  qed (use Suc.prems in simp)
qed simp

lemma stride_rows_stop:
  assumes "burst_rows rest cpu_nums clks (stride * 2 ^ m) 8 5 = ([], False)" and "m < n"
  shows "\<exists>rs. stride_rows rest cpu_nums clks stride n = (rs, False) \<and> (\<forall>r \<in> set rs. \<exists>a < m. row_stride r = stride * 2 ^ a)"
  using assms
proof (induction n arbitrary: stride m)
  case (Suc n)
  show ?case
  proof (cases m)
    case 0
    with Suc.prems show ?thesis by simp
  next
    case (Suc m')
    obtain rs ok where b: "burst_rows rest cpu_nums clks stride 8 5 = (rs, ok)" by fastforce
    then have rs: "\<forall>r \<in> set rs. row_stride r = stride * 2 ^ 0" using burst_rows_stride [of _ rest cpu_nums clks stride 8 5] by simp
    show ?thesis
    proof (cases ok)
      case False
      with b rs Suc show ?thesis by auto
    next
      case True
      obtain ss where ss: "stride_rows rest cpu_nums clks (stride * 2) n = (ss, False)"
        "\<forall>r \<in> set ss. \<exists>a < m'. row_stride r = stride * 2 * 2 ^ a"
        using Suc.IH [of "stride * 2" m'] Suc.prems Suc by (auto simp: mult.assoc)
      then have "\<forall>r \<in> set ss. \<exists>a < m. row_stride r = stride * 2 ^ a"
        using Suc by (metis Suc_less_eq mult.assoc power_Suc)
      with b rs True ss Suc show ?thesis by auto
    qed
  qed
qed simp

section \<open>Properties\<close>

text \<open>
  C38. A thread of the throughput benchmark, whatever the array holds. The elements it reads are, in
  this order, for each operation \<open>burst\<close> consecutive elements (cyclically) starting where the operation
  starts, all inside the array; a thread that does not finish has read a prefix of these. It finishes
  exactly if the offset of the last operation and all partial sums fit an \<open>int\<close>. The time it then
  reports is the elapsed nanoseconds plus nine seconds for every second the clock's second counter
  advanced, since the seconds are multiplied by \<open>10e9\<close>.
\<close>

theorem read_thread_accesses:
  fixes rest :: "int \<Rightarrow> int"
  assumes "0 < stride" and "stride \<le> 65536" and "0 < burst" and "burst \<le> 128" and "index < 20"
    and "clock_ok (t0, t1)"
  defines "idx \<equiv> \<lambda>i j. (int op * stride * int index + int i * stride + int j) mod work_group_size"
  defines "every \<equiv> concat (map (\<lambda>i. map (idx i) [0 ..< burst]) [0 ..< op])"
  defines "fits \<equiv> int (op - 1) * stride < 2 ^ 31
    \<and> (\<forall>i < op. \<forall>j < burst. in_int (\<Sum>m \<le> i. to_int (idx m j + rest (idx m j))))"
  shows "(\<exists>q. fst (read_thread rest (t0, t1) stride burst index) = take q every)
    \<and> (\<forall>k \<in> set every. 0 \<le> k \<and> k < work_group_size)
    \<and> (case snd (read_thread rest (t0, t1) stride burst index) of
         None \<Rightarrow> \<not> fits
       | Some r \<Rightarrow> fits \<and> fst (read_thread rest (t0, t1) stride burst index) = every
           \<and> tr_time r = elapsed_ns t0 t1 + 9 * 10 ^ 9 * (fst t1 - fst t0))"
proof -
  let ?start = "int op * stride * int index"
  have idx: "idx = access_index ?start stride" by (simp add: idx_def access_index_def fun_eq_iff)
  have every: "every = op_accesses ?start stride burst [0 ..< op]" by (simp add: every_def idx)
  have ps: "(\<Sum>m \<le> i. to_int (idx m j + rest (idx m j))) = part_sum rest ?start stride (Suc i) j" for i j
    by (simp add: part_sum_def elem_def reduce_add_def idx lessThan_Suc_atMost)
  have "int i * stride \<le> int (op - 1) * stride" if "i < op" for i
    using that assms(1) by (intro mult_right_mono) simp_all
  moreover have "op - 1 < op" by (simp add: op_def)
  ultimately have "int (op - 1) * stride < 2 ^ 31 \<longleftrightarrow> (\<forall>i < op. int i * stride < 2 ^ 31)"
    using order_le_less_trans by blast
  then have fits: "fits \<longleftrightarrow> (\<forall>m < op. op_fits rest ?start stride burst m)"
    unfolding fits_def ps op_fits_def by blast
  have "\<forall>k \<in> set every. 0 \<le> k \<and> k < work_group_size" by (simp add: every_def idx_def work_group_size_def)
  moreover have "(\<exists>q. fst (read_thread rest (t0, t1) stride burst index) = take q every)
    \<and> (case snd (read_thread rest (t0, t1) stride burst index) of
         None \<Rightarrow> \<not> fits
       | Some r \<Rightarrow> fits \<and> fst (read_thread rest (t0, t1) stride burst index) = every
           \<and> tr_time r = elapsed_ns t0 t1 + 9 * 10 ^ 9 * (fst t1 - fst t0))"
  proof (cases fits)
    case True
    with read_thread_finishes [OF assms(1,2,4,5) _ assms(6)] show ?thesis
      unfolding fits by (auto simp: every timespec_diff_elapsed intro: exI [of _ "length every"])
  next
    case False
    then obtain m where "m < op" "\<not> op_fits rest ?start stride burst m" unfolding fits by blast
    from read_thread_stops [OF assms(1-5) this, of "(t0, t1)"] False show ?thesis by (auto simp: every)
  qed
  ultimately show ?thesis by blast
qed

text \<open>An array whose elements all add up to 0: the thread finishes.\<close>

theorem read_thread_accesses_witness:
  "\<exists>r. snd (read_thread (\<lambda>k. - k) ((1700000007, 900000000), (1700000008, 100000000)) 64 8 3) = Some r
    \<and> tr_time r = 9200000000"
proof -
  have "to_int 0 = 0" by (simp add: to_int_id in_int_def)
  then show ?thesis
    using read_thread_accesses [of 64 8 3 "(1700000007, 900000000)" "(1700000008, 100000000)" "\<lambda>k. - k"]
    by (auto simp: op_def clock_ok_def elapsed_ns_def in_int_def split: option.splits)
qed

text \<open>
  C39. The program does not finish its sweep. When the lanes \<open>main\<close> does not write add up to small
  non-negative numbers, as in the zeroed pages a fresh allocation consists of, the \<open>int\<close> sums overflow
  before the first row is written. Whatever the array holds, no row of a stride above 2048 is written:
  at stride 4096 the product of operation number and stride overflows \<open>int\<close>. With fewer than sixteen
  processors there is no row at all, because sixteen threads are kept in arrays with an element per
  processor.
\<close>

theorem throughput_main_rows:
  "(\<exists>rs. throughput_main rest cpu_nums clks = (rs, False) \<and> row_stride ` set rs \<subseteq> {64 * 2 ^ a | a. a < 6})
    \<and> ((\<forall>k \<in> {0 ..< work_group_size}. 0 \<le> rest k \<and> k + rest k < 2 ^ 31) \<longrightarrow>
        throughput_main rest cpu_nums clks = ([], False))
    \<and> (cpu_nums < 16 \<longrightarrow> throughput_main rest cpu_nums clks = ([], False))"
proof (intro conjI impI)
  have "snd (read_thread rest clk 4096 8 0) = None" for clk
    by (rule read_thread_product_overflow) (simp_all add: op_def)
  then have "run_row rest cpu_nums (clks 4096 8) 4096 8 = None" by (rule run_row_stops)
  then have "burst_rows rest cpu_nums clks (64 * 2 ^ 6) 8 5 = ([], False)" by (intro burst_rows_stop) simp_all
  from stride_rows_stop [OF this, of 11]
  obtain rs where "stride_rows rest cpu_nums clks 64 11 = (rs, False)" "\<forall>r \<in> set rs. \<exists>a < 6. row_stride r = 64 * 2 ^ a"
    by auto
  then show "\<exists>rs. throughput_main rest cpu_nums clks = (rs, False) \<and> row_stride ` set rs \<subseteq> {64 * 2 ^ a | a. a < 6}"
    unfolding throughput_main_def by blast
next
  assume "\<forall>k \<in> {0 ..< work_group_size}. 0 \<le> rest k \<and> k + rest k < 2 ^ 31"
  from first_sum_overflows [OF this, of 8] have "\<not> op_fits rest (int op * 64 * int 0) 64 8 8192" by simp
  moreover have "8192 < op" by (simp add: op_def)
  ultimately obtain q where "read_thread rest (clks 64 8 0) 64 8 0 =
      (take q (op_accesses (int op * 64 * int 0) 64 8 [0 ..< op]), None)"
    using read_thread_stops [of 64 8 0 8192 rest "clks 64 8 0"] by auto
  then have "snd (read_thread rest (clks 64 8 0) 64 8 0) = None" by simp
  then show "throughput_main rest cpu_nums clks = ([], False)"
    by (intro main_stops_at_once run_row_stops)
next
  assume "cpu_nums < 16"
  then show "throughput_main rest cpu_nums clks = ([], False)"
    by (intro main_stops_at_once run_row_few)
qed

theorem throughput_main_rows_witness:
  "throughput_main (\<lambda>k. 0) 32 (\<lambda>t b i. ((1700000007, 0), (1700000007, 500000000))) = ([], False)
    \<and> throughput_main (\<lambda>k. - k) 8 (\<lambda>t b i. ((1700000007, 0), (1700000007, 500000000))) = ([], False)"
  using throughput_main_rows [of "\<lambda>k. 0" 32] throughput_main_rows [of "\<lambda>k. - k" 8]
  by (simp add: work_group_size_def)

end
