(* ===== verification/Gpu_Copy.thy ===== *)
theory Gpu_Copy
  imports C_Int
begin

text \<open>
  The bandwidth benchmark \<open>gpu_benchmark/global_TH.cu\<close>: the addresses the kernel \<open>GlobalCopy\<close> reads, the
  bandwidth \<open>BandwidthCopy\<close> computes and the search of \<open>ReportRow\<close> for the best block size. The values
  a thread adds up start from uninitialised storage and are not modelled, nor is the order in which
  the threads of a launch run: they only read the input. The elapsed time of the timed launches is a
  parameter. A read outside the input or an overflow of \<open>int\<close> is a fault, \<^term>\<open>None\<close>.
\<close>

section \<open>The kernel\<close>

definition gc_start :: "int \<Rightarrow> int \<Rightarrow> u32 \<Rightarrow> u32 \<Rightarrow> u32 \<Rightarrow> int" where
  "gc_start b s blockIdx blockDim threadIdx =
     sint (word_of_int s * ((blockIdx * blockDim + threadIdx) div word_of_int b)
           + (blockIdx * blockDim + threadIdx) mod word_of_int b)"

definition gc_step :: "int \<Rightarrow> int \<Rightarrow> u32 \<Rightarrow> u32 \<Rightarrow> int" where
  "gc_step b s blockDim gridDim = sint (word_of_int s * (blockDim * gridDim div word_of_int b))"

text \<open>\<open>in[i + j*step]\<close>, the input having \<open>N\<close> elements.\<close>

definition gc_read :: "u64 \<Rightarrow> int \<Rightarrow> int \<Rightarrow> nat \<Rightarrow> int option" where
  "gc_read N step i j = do {
     m \<leftarrow> check_int (int j * step);
     k \<leftarrow> check_int (i + m);
     if 0 \<le> k \<and> k < uint N then Some k else None }"

fun gc_reads :: "u64 \<Rightarrow> int \<Rightarrow> int \<Rightarrow> nat \<Rightarrow> nat \<Rightarrow> int list option" where
  "gc_reads N step i 0 j = Some []"
| "gc_reads N step i (Suc n) j = do {
     k \<leftarrow> gc_read N step i j;
     ks \<leftarrow> gc_reads N step i n (j + 1);
     Some (k # ks) }"

text \<open>The comparison \<open>i < N\<close> converts \<open>i\<close> to \<open>size_t\<close>.\<close>

partial_function (option) gc_loop :: "u64 \<Rightarrow> int \<Rightarrow> int \<Rightarrow> int list option" where
  "gc_loop N step i =
     (if word_of_int i < N then
        Option.bind (gc_reads N step i 16 0) (\<lambda>ks.
        Option.bind (check_int (step * 16)) (\<lambda>d.
        Option.bind (check_int (i + d)) (\<lambda>i.
        Option.bind (gc_loop N step i) (\<lambda>ls. Some (ks @ ls)))))
      else Some [])"

definition GlobalCopy :: "int \<Rightarrow> int \<Rightarrow> u64 \<Rightarrow> u32 \<Rightarrow> u32 \<Rightarrow> u32 \<Rightarrow> u32 \<Rightarrow> int list option" where
  "GlobalCopy b s N gridDim blockDim blockIdx threadIdx =
     (if 16 \<le> N then gc_loop N (gc_step b s blockDim gridDim) (gc_start b s blockIdx blockDim threadIdx) else None)"

text \<open>A launch: the accesses of every thread of every block.\<close>

fun seq_options :: "'a option list \<Rightarrow> 'a list option" where
  "seq_options [] = Some []"
| "seq_options (x # xs) = Option.bind x (\<lambda>a. Option.bind (seq_options xs) (\<lambda>as. Some (a # as)))"

definition launch :: "int \<Rightarrow> int \<Rightarrow> u64 \<Rightarrow> nat \<Rightarrow> nat \<Rightarrow> int list list option" where
  "launch b s N cBlocks cThreads = seq_options
     (map (\<lambda>(bi, ti). GlobalCopy b s N (of_nat cBlocks) (of_nat cThreads) (of_nat bi) (of_nat ti))
        (List.product [0 ..< cBlocks] [0 ..< cThreads]))"

section \<open>The measurement\<close>

definition cIterations :: nat where "cIterations = 4"

text \<open>
  A launch to warm up, four timed launches that take \<open>elapsed\<close> seconds together, and the bandwidth
  in units of \<open>2^30\<close> bytes per second.
\<close>

definition BandwidthCopy :: "int \<Rightarrow> int \<Rightarrow> real \<Rightarrow> u64 \<Rightarrow> nat \<Rightarrow> nat \<Rightarrow> real option" where
  "BandwidthCopy b s elapsed N cBlocks cThreads = do {
     warm \<leftarrow> launch b s N cBlocks cThreads;
     timed \<leftarrow> seq_options (replicate cIterations (launch b s N cBlocks cThreads));
     let ret = (real_of_int b * real (unat N) / real_of_int s * real cIterations * 4) / elapsed;
     Some (ret / (1024 * 1048576)) }"

partial_function (option) row_loop ::
  "(nat \<Rightarrow> real option) \<Rightarrow> nat \<Rightarrow> nat \<Rightarrow> real \<times> nat \<Rightarrow> (real \<times> nat) option" where
  "row_loop bw threadStop cThreads mx =
     (if cThreads \<le> threadStop then
        Option.bind (bw cThreads) (\<lambda>x.
          row_loop bw threadStop (cThreads * 2) (if fst mx < x then (x, cThreads) else mx))
      else Some mx)"

definition ReportRow :: "int \<Rightarrow> int \<Rightarrow> (nat \<Rightarrow> real) \<Rightarrow> u64 \<Rightarrow> nat \<Rightarrow> nat \<Rightarrow> nat \<Rightarrow> (real \<times> nat) option" where
  "ReportRow b s elapsed N threadStart threadStop cBlocks =
     row_loop (\<lambda>cThreads. BandwidthCopy b s (elapsed cThreads) N cBlocks cThreads) threadStop threadStart (0, 0)"

definition BLOCK_BASE :: nat where "BLOCK_BASE = 64"

text \<open>\<open>main\<close>: one row for each burst length; \<open>elapsed b\<close> are the times of a row's measurements.\<close>

definition copy_main :: "(int \<Rightarrow> nat \<Rightarrow> real) \<Rightarrow> (real \<times> nat) list option" where
  "copy_main elapsed = seq_options
     (map (\<lambda>b. ReportRow b 256 (elapsed b) (word_of_int (64 * 1024 * 1024 * 8)) 128 128 BLOCK_BASE) [16, 32, 64, 128])"

section \<open>The accesses of a thread\<close>

text \<open>With \<open>T\<close> threads in all, thread \<open>g\<close> reads every \<open>step\<close>-th element from its start on.\<close>

definition thread_start :: "nat \<Rightarrow> nat \<Rightarrow> nat \<Rightarrow> nat" where
  "thread_start b s g = s * (g div b) + g mod b"

lemma gc_reads_ok:
  assumes "\<And>k. k < j + n \<Longrightarrow> x + k * st < unat N" and "unat N < 2 ^ 31"
  shows "gc_reads N (int st) (int x) n j = Some (map (\<lambda>k. int (x + k * st)) [j ..< j + n])"
  using assms(1)
proof (induction n arbitrary: j)
  case (Suc n)
  have lt: "x + j * st < unat N" using Suc.prems [of j] by simp
  then have "j * st < 2 ^ 31" "x + j * st < 2 ^ 31" using assms(2) by linarith+
  then have "check_int (int (j * st)) = Some (int (j * st))" "check_int (int (x + j * st)) = Some (int (x + j * st))"
    by (simp_all only: check_int_of_nat)
  moreover have "int (x + j * st) < uint N" using lt by (metis of_nat_less_iff uint_nat)
  ultimately have "gc_read N (int st) (int x) j = Some (int (x + j * st))"
    by (simp add: gc_read_def)
  moreover have "[j ..< j + Suc n] = j # [Suc j ..< Suc j + n]" by (simp add: upt_conv_Cons)
  ultimately show ?case using Suc by (simp del: upt_Suc)
qed simp

lemma word_of_nat_less_iff:
  "n < 2 ^ 64 \<Longrightarrow> (word_of_int (int n) :: u64) < N \<longleftrightarrow> n < unat N"
  by (simp add: word_less_nat_alt unat_of_nat take_bit_nat_eq_self)

lemma gc_loop_ok:
  assumes "unat N = 16 * st * M" and "unat N + 17 * st < 2 ^ 31" and "x < st" and "m \<le> M"
  shows "gc_loop N (int st) (int (x + 16 * st * m)) = Some (map (\<lambda>k. int (x + k * st)) [16 * m ..< 16 * M])"
  using assms(4)
proof (induction "M - m" arbitrary: m)
  case 0
  then have "m = M" by simp
  then have "\<not> x + 16 * st * m < unat N" using assms(1) by simp
  moreover have "x + 16 * st * m < 2 ^ 64" using assms(1-3) \<open>m = M\<close> by simp
  ultimately have "\<not> (word_of_int (int (x + 16 * st * m)) :: u64) < N"
    using word_of_nat_less_iff by blast
  then show ?case using \<open>m = M\<close> by (subst gc_loop.simps) simp
next
  case (Suc d)
  then have m: "Suc m \<le> M" by simp
  then have "16 * st * Suc m \<le> 16 * st * M" by (rule mult_le_mono2)
  then have room: "16 * st * m + 16 * st \<le> unat N" using assms(1) by simp
  have in_N: "x + 16 * st * m + k * st < unat N" if "k < 16" for k
  proof -
    have "k * st \<le> 15 * st" using that by (intro mult_le_mono1) simp
    then show ?thesis using room assms(3) by linarith
  qed
  have "x + 16 * st * m < unat N" using in_N [of 0] by simp
  then have g: "(word_of_int (int (x + 16 * st * m)) :: u64) < N"
    using word_of_nat_less_iff [of "x + 16 * st * m" N] assms(2) by simp
  have r: "gc_reads N (int st) (int (x + 16 * st * m)) 16 0 =
      Some (map (\<lambda>k. int (x + 16 * st * m + k * st)) [0 ..< 16])"
    using gc_reads_ok [of 0 16 "x + 16 * st * m" st N] in_N assms(2) by simp
  have "16 * st < 2 ^ 31" "x + 16 * st * m + 16 * st < 2 ^ 31" using assms(2,3) room by linarith+
  note this [THEN check_int_of_nat]
  then have c: "check_int (int st * 16) = Some (int st * 16)"
    "check_int (int (x + 16 * st * m) + int st * 16) = Some (int (x + 16 * st * Suc m))"
    by (simp_all add: algebra_simps)
  have e: "map (\<lambda>k. int (x + 16 * st * m + k * st)) [0 ..< 16] @ map (\<lambda>k. int (x + k * st)) [16 * Suc m ..< 16 * M]
      = map (\<lambda>k. int (x + k * st)) [16 * m ..< 16 * M]"
  proof -
    have "[16 * m ..< 16 * M] = [16 * m ..< 16 * Suc m] @ [16 * Suc m ..< 16 * M]"
      using upt_add_eq_append [of "16 * m" "16 * Suc m" "16 * M - 16 * Suc m"] m by (simp del: upt_Suc)
    moreover have "[16 * m ..< 16 * Suc m] = map (\<lambda>k. 16 * m + k) [0 ..< 16]"
      using map_add_upt [of "16 * m" 16] by (simp add: add.commute)
    ultimately show ?thesis by (simp add: algebra_simps comp_def del: upt_Suc)
  qed
  have "d = M - Suc m" using Suc.hyps(2) by simp
  from Suc.hyps(1) [OF this m]
  have "gc_loop N (int st) (int (x + 16 * st * Suc m)) = Some (map (\<lambda>k. int (x + k * st)) [16 * Suc m ..< 16 * M])" .
  then show ?case using g r c e by (subst gc_loop.simps) (simp only: if_True bind.bind_lunit)
qed

lemma sint_of_nat_small: "n < 2 ^ 31 \<Longrightarrow> sint (of_nat n :: u32) = int n"
proof -
  assume "n < 2 ^ 31"
  then have "signed_take_bit 31 (int n) = int n" by (intro signed_take_bit_int_eq_self) simp_all
  then show ?thesis by (simp add: signed_of_nat)
qed

lemma of_nat_div_u32: "a < 2 ^ 32 \<Longrightarrow> c < 2 ^ 32 \<Longrightarrow> (of_nat a :: u32) div of_nat c = of_nat (a div c)"
  "a < 2 ^ 32 \<Longrightarrow> c < 2 ^ 32 \<Longrightarrow> (of_nat a :: u32) mod of_nat c = of_nat (a mod c)"
proof -
  assume a: "a < 2 ^ 32" and c: "c < 2 ^ 32"
  have "a div c < 2 ^ 32" "a mod c < 2 ^ 32" using a by (meson div_le_dividend mod_less_eq_dividend le_less_trans)+
  then show "(of_nat a :: u32) div of_nat c = of_nat (a div c)" "(of_nat a :: u32) mod of_nat c = of_nat (a mod c)"
    using a c by (auto intro!: word_unat_eq_iff [THEN iffD2] simp: unat_div unat_mod unat_of_nat take_bit_nat_eq_self)
qed

lemma thread_start_less: "0 < b \<Longrightarrow> b \<le> s \<Longrightarrow> b dvd T \<Longrightarrow> g < T \<Longrightarrow> thread_start b s g < s * (T div b)"
proof -
  assume a: "0 < b" "b \<le> s" "b dvd T" "g < T"
  have q: "g div b < T div b" using a by (simp add: div_less_iff_less_mult)
  have "thread_start b s g < s * (g div b) + s" using a by (simp add: thread_start_def less_le_trans [OF mod_less_divisor])
  also have "\<dots> = s * Suc (g div b)" by simp
  also have "\<dots> \<le> s * (T div b)" using q by (intro mult_le_mono2) simp
  finally show ?thesis .
qed

lemma gc_start_eq:
  assumes "0 < b" and "b \<le> s" and "b dvd T" and "s * (T div b) < 2 ^ 31" and "bi * dm + ti < T" and "T < 2 ^ 32" and "s < 2 ^ 31"
  shows "gc_start (int b) (int s) (of_nat bi) (of_nat dm) (of_nat ti) = int (thread_start b s (bi * dm + ti))"
proof -
  let ?g = "bi * dm + ti"
  have lt: "?g < 2 ^ 32" "b < 2 ^ 32" using assms by simp_all
  have "thread_start b s ?g < 2 ^ 31" using thread_start_less [OF assms(1-3,5)] assms(4) by simp
  moreover have "word_of_int (int s) * ((of_nat bi * of_nat dm + of_nat ti) div word_of_int (int b))
      + (of_nat bi * of_nat dm + of_nat ti) mod word_of_int (int b) = (of_nat (thread_start b s ?g) :: u32)"
    using of_nat_div_u32 [OF lt] by (simp add: thread_start_def)
  ultimately show ?thesis by (simp add: gc_start_def sint_of_nat_small)
qed

lemma gc_step_eq:
  assumes "s * (T div b) < 2 ^ 31" and "T = dm * gd" and "T < 2 ^ 32" and "b < 2 ^ 32"
  shows "gc_step (int b) (int s) (of_nat dm) (of_nat gd) = int (s * (T div b))"
proof -
  have "word_of_int (int s) * ((of_nat dm * of_nat gd) div word_of_int (int b)) = (of_nat (s * (T div b)) :: u32)"
    using of_nat_div_u32(1) [OF assms(3,4)] assms(2) by simp
  then show ?thesis using sint_of_nat_small [OF assms(1)] by (simp add: gc_step_def)
qed

section \<open>The accesses of a launch\<close>

lemma seq_options_map: "(\<And>x. x \<in> set xs \<Longrightarrow> f x = Some (h x)) \<Longrightarrow> seq_options (map f xs) = Some (map h xs)"
  by (induction xs) auto

lemma product_index: "map (\<lambda>(i, j). i * n + j) (List.product [0 ..< m] [0 ..< n]) = [0 ..< m * n]"
proof (induction m)
  case (Suc m)
  have "List.product (xs @ [x]) ys = List.product xs ys @ map (Pair x) ys" for x :: nat and xs ys :: "nat list"
    by (induction xs) simp_all
  moreover have "[0 ..< Suc m] = [0 ..< m] @ [m]" by simp
  moreover have "[0 ..< Suc m * n] = [0 ..< m * n] @ map (\<lambda>j. m * n + j) [0 ..< n]"
    using upt_add_eq_append [of 0 "m * n" n] map_add_upt [of "m * n" n] by (simp add: add.commute)
  ultimately show ?case using Suc by (simp add: comp_def del: upt_Suc)
qed simp

text \<open>
  A launch geometry the kernel is written for: whole groups of \<open>b\<close> threads, and an input that is a
  whole number \<open>M\<close> of rounds of sixteen steps.
\<close>

definition geometry :: "nat \<Rightarrow> nat \<Rightarrow> u64 \<Rightarrow> nat \<Rightarrow> nat \<Rightarrow> nat \<Rightarrow> bool" where
  "geometry b s N cBlocks cThreads M \<longleftrightarrow> 0 < b \<and> b \<le> s \<and> b dvd cBlocks * cThreads \<and> 0 < cBlocks * cThreads \<and> 0 < M
     \<and> unat N = 16 * (s * (cBlocks * cThreads div b)) * M
     \<and> unat N + 17 * (s * (cBlocks * cThreads div b)) < 2 ^ 31"

definition thread_reads :: "nat \<Rightarrow> nat \<Rightarrow> nat \<Rightarrow> nat \<Rightarrow> nat \<Rightarrow> nat list" where
  "thread_reads b s T M g = map (\<lambda>k. thread_start b s g + k * (s * (T div b))) [0 ..< 16 * M]"

lemma GlobalCopy_ok:
  assumes "geometry b s N cBlocks cThreads M" and "bi < cBlocks" and "ti < cThreads"
  shows "GlobalCopy (int b) (int s) N (of_nat cBlocks) (of_nat cThreads) (of_nat bi) (of_nat ti) =
    Some (map int (thread_reads b s (cBlocks * cThreads) M (bi * cThreads + ti)))"
proof -
  define T where "T = cBlocks * cThreads"
  define st where "st = s * (T div b)"
  have g: "0 < b" "b \<le> s" "b dvd T" "0 < T" "0 < M" "unat N = 16 * st * M" "unat N + 17 * st < 2 ^ 31"
    using assms(1) by (simp_all add: geometry_def T_def st_def)
  have "b \<le> T" using g(3,4) by (rule dvd_imp_le)
  then have q: "0 < T div b" using g(1) by (simp add: div_greater_zero_iff)
  have "s \<le> st" using q by (simp add: st_def)
  have st: "st < 2 ^ 31" "0 < st" using g q by (simp_all add: st_def)
  have "T = b * (T div b)" using g(3) by simp
  also have "\<dots> \<le> st" unfolding st_def using g(2) by (rule mult_le_mono1)
  finally have T: "T < 2 ^ 32" using st(1) by simp
  have gi: "bi * cThreads + ti < T"
  proof -
    have "bi * cThreads + ti < Suc bi * cThreads" using assms(3) by simp
    also have "\<dots> \<le> T" unfolding T_def using assms(2) by (intro mult_le_mono1) simp
    finally show ?thesis .
  qed
  have b: "b < 2 ^ 32" and s: "s < 2 ^ 31" using g(2) \<open>s \<le> st\<close> st by simp_all
  have start: "gc_start (int b) (int s) (of_nat bi) (of_nat cThreads) (of_nat ti) = int (thread_start b s (bi * cThreads + ti))"
    using gc_start_eq [OF g(1-3) _ gi T s] st by (simp add: st_def)
  have step: "gc_step (int b) (int s) (of_nat cThreads) (of_nat cBlocks) = int st"
    using gc_step_eq [OF _ _ T b, of s cThreads cBlocks] st by (simp add: st_def T_def mult.commute)
  have "16 * 1 \<le> 16 * (st * M)" using st(2) g(5) by (intro mult_le_mono2) (simp add: Suc_le_eq)
  then have "16 \<le> N" using g(6) by (simp add: word_le_nat_alt mult.assoc)
  moreover have "thread_start b s (bi * cThreads + ti) < st"
    using thread_start_less [OF g(1-3) gi] by (simp add: st_def)
  ultimately show ?thesis
    using gc_loop_ok [OF g(6,7), of _ 0] start step
    by (simp add: GlobalCopy_def thread_reads_def comp_def st_def T_def)
qed

lemma launch_ok:
  assumes "geometry b s N cBlocks cThreads M"
  shows "launch (int b) (int s) N cBlocks cThreads =
    Some (map (\<lambda>g. map int (thread_reads b s (cBlocks * cThreads) M g)) [0 ..< cBlocks * cThreads])"
proof -
  have "launch (int b) (int s) N cBlocks cThreads = Some (map (\<lambda>(bi, ti).
      map int (thread_reads b s (cBlocks * cThreads) M (bi * cThreads + ti))) (List.product [0 ..< cBlocks] [0 ..< cThreads]))"
    unfolding launch_def using GlobalCopy_ok [OF assms] by (intro seq_options_map) auto
  also have "\<dots> = Some (map (\<lambda>g. map int (thread_reads b s (cBlocks * cThreads) M g))
      (map (\<lambda>(i, j). i * cThreads + j) (List.product [0 ..< cBlocks] [0 ..< cThreads])))"
    by (simp add: comp_def case_prod_unfold)
  finally show ?thesis by (simp only: product_index)
qed

text \<open>Where an element of the input is read: by which thread, in which step.\<close>

lemma read_decode:
  assumes "0 < b" and "b \<le> s" and "b dvd T" and "g < T" and "x = thread_start b s g + k * (s * (T div b))"
  shows "x mod s = g mod b \<and> (x div s) mod (T div b) = g div b \<and> (x div s) div (T div b) = k"
proof -
  define Tb where "Tb = T div b"
  have q: "g div b < Tb" using assms by (simp add: Tb_def div_less_iff_less_mult)
  have r: "g mod b < s" using assms(1,2) by (simp add: less_le_trans [OF mod_less_divisor])
  have x: "x = s * (g div b + k * Tb) + g mod b"
    by (simp add: assms(5) thread_start_def Tb_def algebra_simps)
  have "x div s = g div b + k * Tb" "x mod s = g mod b" using r by (simp_all add: x)
  then show ?thesis using q by (simp add: Tb_def [symmetric])
qed

lemma reads_distinct:
  assumes "0 < b" and "b \<le> s" and "b dvd T"
  shows "distinct (concat (map (thread_reads b s T M) [0 ..< T]))"
proof (cases "M = 0")
  case True
  then have "thread_reads b s T M = (\<lambda>g. [])" by (simp add: thread_reads_def fun_eq_iff)
  then have "concat (map (thread_reads b s T M) [0 ..< T]) = []" by simp
  then show ?thesis by (simp only: distinct.simps)
next
  case False
  have key: "g = g' \<and> k = k'" if "g < T" "g' < T"
    "thread_start b s g + k * (s * (T div b)) = thread_start b s g' + k' * (s * (T div b))" for g g' k k'
    using read_decode [OF assms that(1) refl, of k] read_decode [OF assms that(2), of _ k'] that(3)
    by (metis div_mult_mod_eq)
  show ?thesis
  proof (rule distinct_concat)
    have "inj_on (thread_reads b s T M) {0 ..< T}"
    proof (rule inj_onI)
      fix g g' assume g: "g \<in> {0 ..< T}" "g' \<in> {0 ..< T}" "thread_reads b s T M g = thread_reads b s T M g'"
      have "thread_reads b s T M h ! 0 = thread_start b s h" for h using False by (simp add: thread_reads_def)
      from this [of g] this [of g'] g(3)
      have "thread_start b s g + 0 * (s * (T div b)) = thread_start b s g' + 0 * (s * (T div b))" by simp
      from key [OF _ _ this] g(1,2) show "g = g'" by simp
    qed
    then show "distinct (map (thread_reads b s T M) [0 ..< T])" by (simp add: distinct_map)
  next
    fix ys assume "ys \<in> set (map (thread_reads b s T M) [0 ..< T])"
    then obtain g where g: "g < T" "ys = thread_reads b s T M g" by auto
    have "inj_on (\<lambda>k. thread_start b s g + k * (s * (T div b))) {0 ..< 16 * M}"
      by (rule inj_onI) (use key [OF g(1) g(1)] in blast)
    then show "distinct ys" by (simp add: g(2) thread_reads_def distinct_map)
  next
    fix ys zs assume "ys \<in> set (map (thread_reads b s T M) [0 ..< T])" "zs \<in> set (map (thread_reads b s T M) [0 ..< T])" "ys \<noteq> zs"
    then obtain g h where g: "g < T" "h < T" "ys = thread_reads b s T M g" "zs = thread_reads b s T M h" by auto
    then have "g \<noteq> h" using \<open>ys \<noteq> zs\<close> by blast
    have "x \<notin> set zs" if "x \<in> set ys" for x
    proof
      assume "x \<in> set zs"
      with that obtain k k' where "thread_start b s g + k * (s * (T div b)) = thread_start b s h + k' * (s * (T div b))"
        unfolding g(3,4) thread_reads_def by auto
      from key [OF g(1,2) this] \<open>g \<noteq> h\<close> show False by simp
    qed
    then show "set ys \<inter> set zs = {}" by blast
  qed
qed

lemma reads_cover:
  assumes "0 < b" and "b \<le> s" and "b dvd T" and "0 < T"
  shows "set (concat (map (thread_reads b s T M) [0 ..< T])) = {x. x < 16 * (s * (T div b)) * M \<and> x mod s < b}"
proof (intro equalityI subsetI)
  fix x assume "x \<in> set (concat (map (thread_reads b s T M) [0 ..< T]))"
  then obtain g k where g: "g < T" "k < 16 * M" "x = thread_start b s g + k * (s * (T div b))"
    by (auto simp: thread_reads_def)
  have "x < s * (T div b) + k * (s * (T div b))" using thread_start_less [OF assms(1-3) g(1)] g(3) by simp
  also have "\<dots> = (s * (T div b)) * Suc k" by simp
  also have "\<dots> \<le> (s * (T div b)) * (16 * M)" using g(2) by (intro mult_le_mono2) simp
  finally have "x < 16 * (s * (T div b)) * M" by (simp add: mult_ac)
  with read_decode [OF assms(1-3) g(1,3)] assms(1) show "x \<in> {x. x < 16 * (s * (T div b)) * M \<and> x mod s < b}" by simp
next
  fix x assume "x \<in> {x. x < 16 * (s * (T div b)) * M \<and> x mod s < b}"
  then have x: "x < 16 * (s * (T div b)) * M" "x mod s < b" by simp_all
  define Tb where "Tb = T div b"
  have "b \<le> T" using assms(3,4) by (rule dvd_imp_le)
  then have Tb: "0 < Tb" using assms(1) by (simp add: Tb_def div_greater_zero_iff)
  define q where "q = x div s"
  define g where "g = b * (q mod Tb) + x mod s"
  have "q < 16 * M * Tb" using x(1) assms(1,2) by (simp add: q_def Tb_def div_less_iff_less_mult mult_ac)
  then have k: "q div Tb < 16 * M" using Tb by (simp add: div_less_iff_less_mult)
  have "g < b * Suc (q mod Tb)" using x(2) by (simp add: g_def)
  also have "\<dots> \<le> b * Tb" using Tb by (intro mult_le_mono2) (simp add: Suc_le_eq)
  also have "\<dots> = T" using assms(3) by (simp add: Tb_def)
  finally have gT: "g < T" .
  have "g div b = q mod Tb" "g mod b = x mod s" using x(2) by (simp_all add: g_def)
  then have "thread_start b s g + (q div Tb) * (s * Tb) = s * (q mod Tb) + s * (q div Tb * Tb) + x mod s"
    by (simp add: thread_start_def)
  also have "\<dots> = s * (q mod Tb + q div Tb * Tb) + x mod s" by (simp only: distrib_left)
  also have "\<dots> = x" by (simp add: q_def)
  finally have "x \<in> set (thread_reads b s T M g)"
    using k by (auto simp: thread_reads_def Tb_def intro!: image_eqI [of _ _ "q div Tb"])
  then show "x \<in> set (concat (map (thread_reads b s T M) [0 ..< T]))" using gT by auto
qed

section \<open>The search for the best block size\<close>

lemma row_loop_one:
  assumes "bw c = Some x" and "c \<le> stop" and "stop < c * 2"
  shows "row_loop bw stop c mx = Some (if fst mx < x then (x, c) else mx)"
  using assms by (subst row_loop.simps) (simp add: row_loop.simps [of bw stop "c * 2"])

text \<open>The block sizes tried: \<open>start\<close>, doubled \<open>n\<close> times.\<close>

lemma row_loop_max:
  assumes "\<And>k. k \<le> n \<Longrightarrow> bw (c * 2 ^ k) = Some (f (c * 2 ^ k))" and "c * 2 ^ n \<le> stop" and "stop < c * 2 ^ Suc n"
  shows "\<exists>r. row_loop bw stop c mx = Some r \<and> fst r = Max (insert (fst mx) ((\<lambda>k. f (c * 2 ^ k)) ` {0 .. n}))
    \<and> (r = mx \<or> (\<exists>k \<le> n. r = (f (c * 2 ^ k), c * 2 ^ k)))"
  using assms
proof (induction n arbitrary: c mx)
  case 0
  then show ?case using row_loop_one [of bw c "f c" stop mx] by (auto simp: max_def)
next
  case (Suc n)
  have c: "c \<le> c * 2 ^ Suc n" by simp
  let ?mx = "if fst mx < f c then (f c, c) else mx"
  have step: "row_loop bw stop c mx = row_loop bw stop (c * 2) ?mx"
    using Suc.prems(1) [of 0] order_trans [OF c Suc.prems(2)] by (subst row_loop.simps) simp
  have e: "c * 2 * 2 ^ k = c * 2 ^ Suc k" for k by simp
  have "\<exists>r. row_loop bw stop (c * 2) ?mx = Some r
      \<and> fst r = Max (insert (fst ?mx) ((\<lambda>k. f (c * 2 * 2 ^ k)) ` {0 .. n}))
      \<and> (r = ?mx \<or> (\<exists>k \<le> n. r = (f (c * 2 * 2 ^ k), c * 2 * 2 ^ k)))"
    using Suc.prems(1) [of "Suc _"] Suc.prems(2,3) by (intro Suc.IH) (simp_all add: mult.assoc)
  then obtain r where r: "row_loop bw stop (c * 2) ?mx = Some r"
    "fst r = Max (insert (fst ?mx) ((\<lambda>k. f (c * 2 ^ Suc k)) ` {0 .. n}))"
    "r = ?mx \<or> (\<exists>k \<le> n. r = (f (c * 2 ^ Suc k), c * 2 ^ Suc k))" unfolding e by blast
  let ?S = "(\<lambda>k. f (c * 2 ^ Suc k)) ` {0 .. n}"
  have im: "(\<lambda>k. f (c * 2 ^ k)) ` {0 .. Suc n} = insert (f c) ?S"
    unfolding atLeast0_atMost_Suc_eq_insert_0 image_insert image_image by simp
  have "fst r = Max (insert (fst mx) (insert (f c) ?S))"
    using r(2) by (cases "fst mx < f c") (simp_all add: max_def)
  then have "fst r = Max (insert (fst mx) ((\<lambda>k. f (c * 2 ^ k)) ` {0 .. Suc n}))" by (simp only: im)
  moreover have "r = mx \<or> (\<exists>k \<le> Suc n. r = (f (c * 2 ^ k), c * 2 ^ k))"
    using r(3)
  proof
    assume "r = ?mx"
    then show ?thesis by (cases "fst mx < f c") (auto intro!: exI [of _ 0])
  next
    assume "\<exists>k \<le> n. r = (f (c * 2 ^ Suc k), c * 2 ^ Suc k)"
    then obtain k where "k \<le> n" "r = (f (c * 2 ^ Suc k), c * 2 ^ Suc k)" by blast
    then have "\<exists>k \<le> Suc n. r = (f (c * 2 ^ k), c * 2 ^ k)" by (intro exI [of _ "Suc k"]) simp
    then show ?thesis ..
  qed
  ultimately show ?case using step r(1) by auto
qed

lemma BandwidthCopy_ok:
  assumes "geometry b s N cBlocks cThreads M"
  shows "BandwidthCopy (int b) (int s) elapsed N cBlocks cThreads =
    Some (real b * real (unat N) / real s * 4 * 4 / elapsed / (1024 * 1048576))"
  using launch_ok [OF assms] by (simp add: BandwidthCopy_def cIterations_def numeral_eq_Suc Let_def)

section \<open>The launches of the program\<close>

definition main_N :: u64 where
  "main_N = word_of_int (64 * 1024 * 1024 * 8)"

lemma main_geometry:
  "geometry 16 256 main_N 64 128 256" "geometry 32 256 main_N 64 128 512" "geometry 64 256 main_N 64 128 1024"
  "geometry 128 256 main_N 64 128 2048"
  by (simp_all add: geometry_def main_N_def)

section \<open>Properties\<close>

text \<open>
  C35. A launch reads what it is meant to. For whole groups of \<open>b\<close> threads and an input of a whole
  number of rounds, no thread of the launch faults or fails to terminate, and the launch as a whole
  reads exactly the first \<open>b\<close> of every \<open>s\<close> elements of the input, each of them exactly once.
\<close>

theorem launch_reads_once:
  assumes "geometry b s N cBlocks cThreads M"
  shows "\<exists>tss. launch (int b) (int s) N cBlocks cThreads = Some tss \<and> length tss = cBlocks * cThreads
    \<and> distinct (concat tss) \<and> set (concat tss) = int ` {x. x < unat N \<and> x mod s < b}"
proof -
  let ?T = "cBlocks * cThreads"
  have g: "0 < b" "b \<le> s" "b dvd ?T" "0 < ?T" "unat N = 16 * (s * (?T div b)) * M"
    using assms by (simp_all add: geometry_def)
  have e: "concat (map (\<lambda>g. map int (thread_reads b s ?T M g)) [0 ..< ?T]) =
      map int (concat (map (thread_reads b s ?T M) [0 ..< ?T]))"
    by (simp add: map_concat comp_def)
  have "distinct (map int (concat (map (thread_reads b s ?T M) [0 ..< ?T])))"
    using reads_distinct [OF g(1-3), of M] by (simp add: distinct_map del: set_concat)
  moreover have "set (map int (concat (map (thread_reads b s ?T M) [0 ..< ?T]))) = int ` {x. x < unat N \<and> x mod s < b}"
    unfolding set_map reads_cover [OF g(1-4)] g(5) by (rule refl)
  ultimately show ?thesis
    using launch_ok [OF assms] by (intro exI conjI) (assumption, simp, simp_all only: e)
qed

theorem launch_reads_once_witness:
  "\<exists>tss. launch 16 256 main_N 64 128 = Some tss \<and> length tss = 8192 \<and> distinct (concat tss)"
  using launch_reads_once [OF main_geometry(1)] by auto

text \<open>
  C36. The reported bandwidth counts the bytes that were read: it is four bytes for every element
  read by the four timed launches, per second, in units of \<open>2^30\<close>.
\<close>

theorem bandwidth_counts_reads:
  assumes "geometry b s N cBlocks cThreads M" and "launch (int b) (int s) N cBlocks cThreads = Some tss"
  shows "BandwidthCopy (int b) (int s) elapsed N cBlocks cThreads =
    Some (real (4 * (4 * length (concat tss))) / elapsed / 2 ^ 30)"
proof -
  let ?T = "cBlocks * cThreads"
  have g: "0 < b" "b \<le> s" "b dvd ?T" "unat N = 16 * (s * (?T div b)) * M" using assms(1) by (simp_all add: geometry_def)
  have tss: "tss = map (\<lambda>g. map int (thread_reads b s ?T M g)) [0 ..< ?T]" using launch_ok [OF assms(1)] assms(2) by simp
  have "length (concat tss) = ?T * (16 * M)"
    by (simp add: tss length_concat comp_def thread_reads_def sum_list_triv)
  moreover have "real b * real (unat N) / real s = real (?T * (16 * M))"
  proof -
    have "b * (?T div b) = ?T" using g(3) by simp
    then have "b * unat N = s * (?T * (16 * M))" unfolding g(4) by (simp add: mult_ac)
    then have "real b * real (unat N) = real s * real (?T * (16 * M))" by (metis of_nat_mult)
    then show ?thesis using g(1,2) by simp
  qed
  ultimately show ?thesis using BandwidthCopy_ok [OF assms(1), of elapsed] by simp
qed

theorem bandwidth_counts_reads_witness:
  "\<exists>tss. launch 16 256 main_N 64 128 = Some tss
    \<and> BandwidthCopy 16 256 2 main_N 64 128 = Some (real (4 * (4 * length (concat tss))) / 2 / 2 ^ 30)"
proof -
  obtain tss where "launch (int 16) (int 256) main_N 64 128 = Some tss" using launch_ok [OF main_geometry(1)] by blast
  with bandwidth_counts_reads [OF main_geometry(1) this, of 2] show ?thesis by simp
qed

text \<open>
  The search over block sizes terminates with the best one: started at \<open>c\<close> and doubled up to
  the limit, it returns the largest of the measured bandwidths and a block size that reaches it.
\<close>

theorem ReportRow_best:
  assumes "\<And>k. k \<le> n \<Longrightarrow> geometry b s N cBlocks (c * 2 ^ k) (M k)"
    and "\<And>k. k \<le> n \<Longrightarrow> 0 < elapsed (c * 2 ^ k)" and "c * 2 ^ n \<le> stop" and "stop < c * 2 ^ Suc n"
    and "\<And>t. bw t = real b * real (unat N) / real s * 4 * 4 / elapsed t / (1024 * 1048576)"
  shows "\<exists>k \<le> n. ReportRow (int b) (int s) elapsed N c stop cBlocks = Some (bw (c * 2 ^ k), c * 2 ^ k)
    \<and> (\<forall>j \<le> n. bw (c * 2 ^ j) \<le> bw (c * 2 ^ k))"
proof -
  have g: "0 < b" "b \<le> s" "0 < unat N"
    using assms(1) [of 0] by (auto simp: geometry_def div_greater_zero_iff dvd_imp_le)
  have "0 < real b" "0 < real s" using g by simp_all
  moreover have "0 < real (unat N)" using g(3) by (simp only: of_nat_0_less_iff)
  ultimately have pos: "0 < bw (c * 2 ^ k)" if "k \<le> n" for k
    unfolding assms(5) using assms(2) [OF that] by (intro divide_pos_pos mult_pos_pos) simp_all
  have bw: "BandwidthCopy (int b) (int s) (elapsed (c * 2 ^ k)) N cBlocks (c * 2 ^ k) = Some (bw (c * 2 ^ k))"
    if "k \<le> n" for k
    unfolding assms(5) using BandwidthCopy_ok [OF assms(1) [OF that]] by simp
  obtain r where r: "ReportRow (int b) (int s) elapsed N c stop cBlocks = Some r"
    "fst r = Max (insert 0 ((\<lambda>k. bw (c * 2 ^ k)) ` {0 .. n}))"
    "r = (0, 0) \<or> (\<exists>k \<le> n. r = (bw (c * 2 ^ k), c * 2 ^ k))"
    using row_loop_max [of n "\<lambda>t. BandwidthCopy (int b) (int s) (elapsed t) N cBlocks t" c bw stop "(0, 0)",
        OF bw assms(3,4)] unfolding ReportRow_def fst_conv by blast
  have le: "bw (c * 2 ^ j) \<le> fst r" if "j \<le> n" for j unfolding r(2) using that by (intro Max_ge) auto
  have "0 < fst r" using le [of 0] pos [of 0] by simp
  with r(3) have "\<exists>k \<le> n. r = (bw (c * 2 ^ k), c * 2 ^ k)" by auto
  with r(1) le show ?thesis by auto
qed

theorem ReportRow_best_witness:
  "ReportRow 16 256 (\<lambda>t. 2) main_N 128 128 64 = Some (real 16 * real (unat main_N) / real 256 * 4 * 4 / 2 / (1024 * 1048576), 128)"
  using ReportRow_best [of 0 16 256 main_N 64 128 "\<lambda>_. 256" "\<lambda>_. 2" 128
      "\<lambda>_. real 16 * real (unat main_N) / real 256 * 4 * 4 / 2 / (1024 * 1048576)"] main_geometry(1)
  by simp

end
