(* ===== verification/Gpu_Latency.thy ===== *)
theory Gpu_Latency
  imports C_Int
begin

text \<open>
  The latency benchmark \<open>gpu_benchmark/global_latency.cu\<close>: the kernel \<open>global_latency\<close>, launched with a
  single thread, and the host function around it. Device and shared arrays are lists, an access
  outside them is a fault, \<^term>\<open>None\<close>. The clock is a parameter: \<open>clock k\<close> is what the \<open>k\<close>-th call of
  \<open>clock()\<close> in the measuring loop returns. Calls of the CUDA runtime are taken to succeed; the source
  prints their errors and goes on.
\<close>

section \<open>The kernel\<close>

record kernel_mem =
  my_array :: "u32 list"
  duration :: "u32 list"
  index_arr :: "u32 list"

record shared_mem =
  s_tvalue :: "u32 list"
  s_index :: "u32 list"

fun clear_loop :: "nat \<Rightarrow> nat \<Rightarrow> shared_mem \<Rightarrow> shared_mem option" where
  "clear_loop 0 k s = Some s"
| "clear_loop (Suc n) k s = do {
     xs \<leftarrow> store (int k) 0 (s_index s);
     ys \<leftarrow> store (int k) 0 (s_tvalue s);
     clear_loop n (k + 1) (s\<lparr>s_index := xs, s_tvalue := ys\<rparr>) }"

fun first_round :: "nat \<Rightarrow> nat \<Rightarrow> u32 \<Rightarrow> u32 list \<Rightarrow> u32 option" where
  "first_round 0 k temp a = Some temp"
| "first_round (Suc n) k temp a = do {
     v \<leftarrow> fetch a (int k);
     first_round n (k + 1) (temp + v) a }"

fun second_round :: "(nat \<Rightarrow> u32) \<Rightarrow> u32 list \<Rightarrow> nat \<Rightarrow> nat \<Rightarrow> u32 \<Rightarrow> shared_mem \<Rightarrow> (u32 \<times> shared_mem) option" where
  "second_round clock a 0 k j s = Some (j, s)"
| "second_round clock a (Suc n) k j s = do {
     j \<leftarrow> fetch a (uint j);
     xs \<leftarrow> store (int k) j (s_index s);
     ys \<leftarrow> store (int k) (clock (2 * k + 1) - clock (2 * k)) (s_tvalue s);
     second_round clock a n (k + 1) j (s\<lparr>s_index := xs, s_tvalue := ys\<rparr>) }"

fun copy_out :: "nat \<Rightarrow> nat \<Rightarrow> shared_mem \<Rightarrow> kernel_mem \<Rightarrow> kernel_mem option" where
  "copy_out 0 k s m = Some m"
| "copy_out (Suc n) k s m = do {
     x \<leftarrow> fetch (s_index s) (int k);
     xs \<leftarrow> store (int k) x (index_arr m);
     y \<leftarrow> fetch (s_tvalue s) (int k);
     ys \<leftarrow> store (int k) y (duration m);
     copy_out n (k + 1) s (m\<lparr>index_arr := xs, duration := ys\<rparr>) }"

text \<open>\<open>junk\<close> stands for the uninitialised storage the kernel starts from: \<open>temp\<close> and the shared arrays.\<close>

definition global_latency :: "(nat \<Rightarrow> u32) \<Rightarrow> u32 \<Rightarrow> nat \<Rightarrow> nat \<Rightarrow> kernel_mem \<Rightarrow> kernel_mem option" where
  "global_latency clock junk array_length iterations m = do {
     let s = \<lparr>s_tvalue = replicate (2 * 160) junk, s_index = replicate (2 * 160) junk\<rparr>;
     s \<leftarrow> clear_loop (iterations * 160) 0 s;
     temp \<leftarrow> first_round array_length 0 junk (my_array m);
     xs \<leftarrow> store (2 * 160) temp (index_arr m);
     let m = m\<lparr>index_arr := xs\<rparr>;
     (j, s) \<leftarrow> second_round clock (my_array m) (iterations * 160) 0 0 s;
     a \<leftarrow> store (int array_length) j (my_array m);
     v \<leftarrow> fetch a (uint j);
     a \<leftarrow> store (int array_length + 1) v a;
     copy_out (iterations * 160) 0 s (m\<lparr>my_array := a\<rparr>) }"

section \<open>The host\<close>

text \<open>\<open>h_a[i] = (i+1024*16)%N\<close>, for \<open>n\<close> elements from \<open>i\<close> on.\<close>

fun init_loop :: "nat \<Rightarrow> nat \<Rightarrow> nat \<Rightarrow> u32 list \<Rightarrow> u32 list option" where
  "init_loop N 0 i a = Some a"
| "init_loop N (Suc n) i a = do {
     x \<leftarrow> check_int (int i + 1024 * 16);
     a \<leftarrow> store (int i) (word_of_int (c_rem x (int N))) a;
     init_loop N n (i + 1) a }"

text \<open>
  The printed lines: index and time. \<open>slack\<close> is the number of elements the runtime's allocation of
  the index array has beyond the requested ones. Only \<open>N\<close> elements of the table are copied to the
  device.
\<close>

definition parametric_measure_global ::
  "(nat \<Rightarrow> u32) \<Rightarrow> u32 \<Rightarrow> nat \<Rightarrow> nat \<Rightarrow> nat \<Rightarrow> (u32 \<times> u32) list option" where
  "parametric_measure_global clock junk slack N iterations = do {
     h_a \<leftarrow> init_loop N N 0 (replicate (N + 2) 0);
     let d_a = take N h_a @ [junk, junk];
     m \<leftarrow> global_latency clock junk N iterations
            \<lparr>my_array = d_a, duration = replicate (160 * 2) junk, index_arr = replicate (160 * 2 + slack) junk\<rparr>;
     let h_timeinfo = take (160 * 2) (duration m);
     let h_index = take (160 * 2) (index_arr m);
     if iterations * 160 \<le> 160 * 2 then Some (zip (take (iterations * 160) h_index) (take (iterations * 160) h_timeinfo))
     else None }"

definition measure_global :: "(nat \<Rightarrow> u32) \<Rightarrow> u32 \<Rightarrow> nat \<Rightarrow> (u32 \<times> u32) list option" where
  "measure_global clock junk slack = parametric_measure_global clock junk slack (20 * 256 * 1024) 1"

section \<open>Closed forms\<close>

definition step_table :: "nat \<Rightarrow> u32 list" where
  "step_table N = map (\<lambda>i. of_nat ((i + 16384) mod N)) [0 ..< N]"

lemma init_loop_ok:
  assumes "N + 16384 < 2 ^ 31" and "i + n \<le> N" and "N \<le> length a"
  shows "init_loop N n i a =
    Some (take i a @ map (\<lambda>i. of_nat ((i + 16384) mod N)) [i ..< i + n] @ drop (i + n) a)"
  using assms(2,3)
proof (induction n arbitrary: i a)
  case (Suc n)
  have "check_int (int (i + 16384)) = Some (int (i + 16384))"
    using Suc.prems assms(1) by (intro check_int_of_nat) simp
  moreover have "word_of_int (c_rem (int (i + 16384)) (int N)) = (of_nat ((i + 16384) mod N) :: u32)"
    by (simp only: c_rem_nonneg of_nat_0_le_iff zmod_int [symmetric] of_int_of_nat_eq)
  moreover have "[i ..< i + Suc n] = i # [Suc i ..< Suc i + n]" by (simp add: upt_conv_Cons)
  ultimately show ?case
    using Suc by (simp add: take_Suc_update drop_update_cancel del: upt_Suc)
qed simp

lemma first_round_ok: "k + n \<le> length a \<Longrightarrow> \<exists>t. first_round n k temp a = Some t"
  by (induction n arbitrary: k temp) auto

lemma clear_loop_ok:
  assumes "k + n \<le> length (s_index s)" and "k + n \<le> length (s_tvalue s)"
  shows "\<exists>t. clear_loop n k s = Some t \<and> length (s_index t) = length (s_index s) \<and> length (s_tvalue t) = length (s_tvalue s)"
  using assms
proof (induction n arbitrary: k s)
  case (Suc n)
  with Suc.IH [of "Suc k" "s\<lparr>s_index := (s_index s)[k := 0], s_tvalue := (s_tvalue s)[k := 0]\<rparr>"]
  show ?case by simp
qed simp

lemma clear_loop_overrun:
  "k \<le> length (s_index s) \<Longrightarrow> length (s_index s) < k + n \<Longrightarrow> clear_loop n k s = None"
proof (induction n arbitrary: k s)
  case (Suc n)
  show ?case
  proof (cases "k < length (s_index s)")
    case True
    then have "clear_loop n (Suc k) (s\<lparr>s_index := (s_index s)[k := 0], s_tvalue := ys\<rparr>) = None" for ys
      using Suc.prems by (intro Suc.IH) simp_all
    then show ?thesis using True by simp
  qed simp
qed simp

definition visited :: "nat \<Rightarrow> nat \<Rightarrow> nat" where
  "visited N k = 16384 * k mod N"

lemma fetch_visited:
  assumes "0 < N" and "N + 16384 < 2 ^ 31" and "take N a = step_table N"
  shows "fetch a (uint (of_nat (visited N k) :: u32)) = Some (of_nat (visited N (Suc k)))"
proof -
  have v: "visited N k < N" using assms(1) by (simp add: visited_def)
  then have "visited N k < 2 ^ 32" using assms(2) by simp
  then have u: "uint (of_nat (visited N k) :: u32) = int (visited N k)"
    by (simp add: unsigned_of_nat take_bit_nat_eq_self)
  have "length (take N a) = N" by (simp add: assms(3) step_table_def)
  then have len: "N \<le> length a" by simp
  have "a ! visited N k = take N a ! visited N k" using v by simp
  also have "\<dots> = of_nat ((visited N k + 16384) mod N)" using v by (simp add: assms(3) step_table_def)
  also have "(visited N k + 16384) mod N = visited N (Suc k)" by (simp add: visited_def mod_simps add.commute)
  finally show ?thesis using u v len by simp
qed

lemma second_round_ok:
  assumes "0 < N" and "N + 16384 < 2 ^ 31" and "take N a = step_table N"
    and "k + n \<le> length (s_index s)" and "k + n \<le> length (s_tvalue s)"
  shows "second_round clock a n k (of_nat (visited N k)) s = Some (of_nat (visited N (k + n)), s\<lparr>
      s_index := take k (s_index s) @ map (\<lambda>i. of_nat (visited N (Suc i))) [k ..< k + n] @ drop (k + n) (s_index s),
      s_tvalue := take k (s_tvalue s) @ map (\<lambda>i. clock (2 * i + 1) - clock (2 * i)) [k ..< k + n] @ drop (k + n) (s_tvalue s)\<rparr>)"
  using assms(4,5)
proof (induction n arbitrary: k s)
  case (Suc n)
  have "[k ..< k + Suc n] = k # [Suc k ..< Suc k + n]" by (simp add: upt_conv_Cons)
  with Suc fetch_visited [OF assms(1-3), of k] show ?case
    by (simp add: take_Suc_update drop_update_cancel del: upt_Suc)
qed simp

lemma copy_out_ok:
  assumes "k + n \<le> length (s_index s)" and "k + n \<le> length (s_tvalue s)"
    and "k + n \<le> length (index_arr m)" and "k + n \<le> length (duration m)"
    and "take k (index_arr m) = take k (s_index s)" and "take k (duration m) = take k (s_tvalue s)"
  shows "\<exists>t. copy_out n k s m = Some t \<and> take (k + n) (index_arr t) = take (k + n) (s_index s)
    \<and> take (k + n) (duration t) = take (k + n) (s_tvalue s) \<and> length (index_arr t) = length (index_arr m)
    \<and> length (duration t) = length (duration m)"
  using assms
proof (induction n arbitrary: k m)
  case (Suc n)
  let ?m = "m\<lparr>index_arr := (index_arr m)[k := s_index s ! k], duration := (duration m)[k := s_tvalue s ! k]\<rparr>"
  have "\<exists>t. copy_out n (Suc k) s ?m = Some t \<and> take (Suc k + n) (index_arr t) = take (Suc k + n) (s_index s)
    \<and> take (Suc k + n) (duration t) = take (Suc k + n) (s_tvalue s) \<and> length (index_arr t) = length (index_arr ?m)
    \<and> length (duration t) = length (duration ?m)"
    using Suc.prems by (intro Suc.IH) (simp_all add: take_Suc_update take_Suc_conv_app_nth)
  then show ?case using Suc.prems by auto
qed simp

section \<open>Properties\<close>

lemma global_latency_ok:
  assumes "0 < N" and "N + 16384 < 2 ^ 31" and "take N a = step_table N" and "length a = N + 2"
    and "iterations \<le> 2" and "320 < L"
  shows "\<exists>m. global_latency clock junk N iterations
      \<lparr>my_array = a, duration = replicate 320 junk, index_arr = replicate L junk\<rparr> = Some m
    \<and> take (iterations * 160) (index_arr m) = map (\<lambda>k. of_nat (visited N (Suc k))) [0 ..< iterations * 160]
    \<and> take (iterations * 160) (duration m) = map (\<lambda>k. clock (2 * k + 1) - clock (2 * k)) [0 ..< iterations * 160]
    \<and> length (index_arr m) = L \<and> length (duration m) = 320"
proof -
  define n where "n = iterations * 160"
  have n: "n \<le> 320" using assms(5) by (simp add: n_def)
  let ?s0 = "\<lparr>s_tvalue = replicate 320 junk, s_index = replicate 320 junk\<rparr>"
  obtain s where s: "clear_loop n 0 ?s0 = Some s" "length (s_index s) = 320" "length (s_tvalue s) = 320"
    using clear_loop_ok [of 0 n ?s0] n by auto
  obtain temp where t: "first_round N 0 junk a = Some temp" using first_round_ok [of 0 N a junk] assms(4) by auto
  define j where "j = (of_nat (visited N n) :: u32)"
  define s2 where "s2 = s\<lparr>s_index := map (\<lambda>i. of_nat (visited N (Suc i))) [0 ..< n] @ drop n (s_index s),
      s_tvalue := map (\<lambda>i. clock (2 * i + 1) - clock (2 * i)) [0 ..< n] @ drop n (s_tvalue s)\<rparr>"
  have r: "second_round clock a n 0 0 s = Some (j, s2)"
    using second_round_ok [OF assms(1-3), of 0 n s clock] n s by (simp add: j_def s2_def visited_def)
  have v: "visited N n < N" using assms(1) by (simp add: visited_def)
  then have u: "uint j = int (visited N n)"
    using assms(2) by (simp add: j_def unsigned_of_nat take_bit_nat_eq_self)
  let ?a1 = "a[N := j]"
  let ?a2 = "?a1[N + 1 := ?a1 ! visited N n]"
  let ?m = "\<lparr>my_array = ?a2, duration = replicate 320 junk, index_arr = (replicate L junk)[320 := temp]\<rparr>"
  have len: "length (s_index s2) = 320" "length (s_tvalue s2) = 320" using n s by (simp_all add: s2_def)
  obtain m where m: "copy_out n 0 s2 ?m = Some m" "take n (index_arr m) = take n (s_index s2)"
    "take n (duration m) = take n (s_tvalue s2)" "length (index_arr m) = L" "length (duration m) = 320"
    using copy_out_ok [of 0 n s2 ?m] len n assms(6) by auto
  have st: "store 320 temp (replicate L junk) = Some ((replicate L junk)[320 := temp])"
    using assms(6) by (simp add: store_def)
  have a: "store (int N) j a = Some ?a1" "fetch ?a1 (uint j) = Some (?a1 ! visited N n)"
    "store (int N + 1) x ?a1 = Some (?a1[N + 1 := x])" for x
    using assms(4) u v store_of_nat [of "N + 1" x ?a1] by (simp_all add: add.commute)
  have "global_latency clock junk N iterations
      \<lparr>my_array = a, duration = replicate 320 junk, index_arr = replicate L junk\<rparr> = Some m"
    unfolding global_latency_def n_def [symmetric] using s(1) t st r a m(1) assms(4) by (simp add: Let_def)
  moreover have "take n (s_index s2) = map (\<lambda>k. of_nat (visited N (Suc k))) [0 ..< n]"
    "take n (s_tvalue s2) = map (\<lambda>k. clock (2 * k + 1) - clock (2 * k)) [0 ..< n]"
    by (simp_all add: s2_def)
  ultimately show ?thesis using m by (simp add: n_def)
qed

text \<open>
  The GPU pointer chase. If the index array has room for one more element than was requested,
  a run with one or two iterations prints for every load the element it led to, 64 KiB further on
  each time and cyclically, and the difference of the clocks around it.
\<close>

theorem measure_reports:
  assumes "0 < N" and "N + 16384 < 2 ^ 31" and "iterations \<le> 2" and "0 < slack"
  shows "parametric_measure_global clock junk slack N iterations =
    Some (map (\<lambda>k. (of_nat (16384 * (k + 1) mod N), clock (2 * k + 1) - clock (2 * k))) [0 ..< iterations * 160])"
proof -
  define n where "n = iterations * 160"
  have n: "n \<le> 320" using assms(3) by (simp add: n_def)
  let ?a = "step_table N @ [junk, junk]"
  obtain h where i: "init_loop N N 0 (replicate (N + 2) 0) = Some h" "take N h = step_table N"
    using init_loop_ok [OF assms(2), of 0 N "replicate (N + 2) 0"] by (simp add: step_table_def)
  have len: "length (step_table N) = N" by (simp add: step_table_def)
  obtain m where m: "global_latency clock junk N iterations
      \<lparr>my_array = ?a, duration = replicate 320 junk, index_arr = replicate (320 + slack) junk\<rparr> = Some m"
    "take n (index_arr m) = map (\<lambda>k. of_nat (visited N (Suc k))) [0 ..< n]"
    "take n (duration m) = map (\<lambda>k. clock (2 * k + 1) - clock (2 * k)) [0 ..< n]"
    using global_latency_ok [OF assms(1,2), of ?a iterations "320 + slack" clock junk] assms(3,4) len
    by (auto simp: n_def)
  have "zip (map f xs) (map g xs) = map (\<lambda>k. (f k, g k)) xs" for f g and xs :: "nat list"
    by (induction xs) simp_all
  then show ?thesis
    using i m n len
    by (simp add: parametric_measure_global_def Let_def visited_def min_absorb1 flip: n_def)
qed

theorem measure_reports_witness:
  "\<exists>ls. measure_global (\<lambda>k. of_nat (250 * k)) 7 64 = Some ls \<and> length ls = 160 \<and> hd ls = (16384, 250)"
  using measure_reports [of "20 * 256 * 1024" 1 64 "\<lambda>k. of_nat (250 * k)" 7]
  by (simp add: measure_global_def hd_map)

text \<open>
  C40. The kernel writes outside its index array: the array has 320 elements and element 320 is
  written, so within the requested memory no run succeeds; and more than two iterations do not
  fit the shared arrays, whatever the allocation.
\<close>

theorem measure_out_of_bounds:
  assumes "N + 16384 < 2 ^ 31"
  shows "parametric_measure_global clock junk 0 N iterations = None
    \<and> (2 < iterations \<longrightarrow> parametric_measure_global clock junk slack N iterations = None)"
proof -
  obtain h where h: "init_loop N N 0 (replicate (N + 2) 0) = Some h"
    using init_loop_ok [OF assms, of 0 N "replicate (N + 2) 0"] by auto
  have "global_latency clock junk N iterations
      \<lparr>my_array = a, duration = replicate 320 junk, index_arr = replicate 320 junk\<rparr> = None" for a
    by (simp add: global_latency_def Let_def store_def split: bind_split)
  moreover have "global_latency clock junk N iterations
      \<lparr>my_array = a, duration = d, index_arr = x\<rparr> = None" if "2 < iterations" for a d x
    using that by (simp add: global_latency_def Let_def clear_loop_overrun)
  ultimately show ?thesis using h by (simp add: parametric_measure_global_def Let_def)
qed

theorem measure_out_of_bounds_witness: "measure_global (\<lambda>k. of_nat (250 * k)) 7 0 = None"
  using measure_out_of_bounds [of "20 * 256 * 1024" "\<lambda>k. of_nat (250 * k)" 7 1 0] by (simp add: measure_global_def)

end
