(* ===== verification/Spec2Isabelle.thy ===== *)
theory Spec2Isabelle
  imports Xdma_Probe Bench_Main Axil_Slave Ddr_Channel Cpu_Latency Cpu_Throughput Gpu_Copy Gpu_Latency
begin

text \<open>
  A verification development for Shuhai, a benchmark of the memories of an FPGA card (HBM and DDR4
  of a Xilinx U280), of the host CPU and of a GPU.

  \<^bold>\<open>The program.\<close> The card carries one traffic generator per memory channel
  (\<open>{rd,wr,lt}_engine.sv\<close>) behind a register file (\<open>xdma_control.sv\<close>) on the user
  BAR of a PCIe core, in two designs: \<open>hw/rtl/u280_hbm\<close> with 32 channels and \<open>hw/rtl/u280_ddr\<close> with two. The kernel driver \<open>sw/driver/xdma_driver.c\<close> attaches to the card and gives
  user programs two device files: one pins huge pages and hands out their bus addresses, both map a
  BAR. The host library (\<open>sw/src/fpga/Fpga.cpp\<close>) opens the files, maps and pins a buffer, gives
  blocks of it out through \<open>MemoryManager.cpp\<close>, and talks to the card through
  \<open>FpgaController.cpp\<close>. The programs \<open>hbm_test.cpp\<close> and \<open>ddr_test.cpp\<close> read options and
  a configuration file, program the channels, start them and print what the timers show.
  \<open>cpu_benchmark/\<close> and \<open>gpu_benchmark/\<close> are separate programs for the other two memories.

  \<^bold>\<open>The theories\<close>, each importing those it calls:
  \<^item> \<open>Shuhai_Prelude\<close>: word types, rule collections, generic facts. \<open>C_Int\<close>: C's signed arithmetic with
    overflow as the value \<^term>\<open>None\<close>, array accesses, and the difference of two time stamps.
  \<^item> \<open>Mem_Manager\<close>: \<open>MemoryManager\<close>. The chunk list as a list of records; \<open>allocate\<close> with its retry
    loop, the weak compare-exchange being an oracle; \<open>free\<close>, constructor and destructor. The locale
    \<open>region_allocator\<close> is the contract of an allocator over a set of blocks; it is interpreted on the
    model as \<open>mm\<close>, and that the pointers a client holds name disjoint blocks after any sequence of calls is proved in it.
  \<^item> \<open>Xdma_Regs\<close>, \<open>Xdma_Kernel\<close>, \<open>Xdma_Bars\<close>, \<open>Xdma_Engines\<close>, \<open>Xdma_Probe\<close>, \<open>Xdma_Ioctl\<close>: the driver.
    Register blocks are layouts with computed offsets. \<open>Xdma_Kernel\<close> is the state of the driver and the kernel
    calls: the kernel's answers are fields of a record of functions, and each call that takes or
    gives back a resource is in a log. \<open>probe\<close> follows the source label by label; \<open>Xdma_Ioctl\<close> has the
    operations of the device files over an explicit heap of page arrays. An access outside a mapped BAR, a BUG and a use of
    freed memory are the value \<^term>\<open>None\<close>. The lemmas show which resources are held after every success and
    failure, that no access leaves its window, which BAR and engine are chosen, and what the
    device files pin, map and release.
  \<^item> \<open>Fpga_Controller\<close>: the register accesses of \<open>FpgaController\<close> over any bus. The locale
    \<open>register_bus\<close> says what a read returns after writes. \<open>Xdma_Control\<close>: the register file of the card, one step
    per bus transaction, which interprets the locale as \<open>xc\<close>; the completion flags are any function of
    time. The design is an argument, a record of its number of channels and of how registers make up an
    initial address, and the width of addresses is a type. What programming and starting a run do is proved
    in the locale \<open>register_design\<close>, which the two designs interpret as \<open>hbm\<close> and \<open>ddr\<close>. The lemmas give the parameters each engine holds when it starts, when the wait for
    completion ends, and what is reported.
  \<^item> \<open>Clocked\<close>: runs of a clocked circuit, one step per clock cycle, for any step function: what is
    observed along a run, and an inductive relation of its traces. \<open>Axi_Address\<close>: the widths of the ports as types,
    the addresses of a run, and the locale
    \<open>address_channel\<close>, the contract of a request channel whose offset advances with each request;
    number and place of the requests are proved in it.
  \<^item> \<open>Axil_Slave\<close>: the register file of either design again, clock cycle by clock cycle under an arbitrary master. The lemmas show that
    writes arrive in order, that a transaction of \<open>Xdma_Control\<close> is what its cycles do, and how far
    apart reads of the latency memory have to be.
  \<^item> \<open>Rd_Engine\<close>, \<open>Wr_Engine\<close>: the engines at any widths under an arbitrary memory; they interpret the locale as \<open>ra\<close>
    and \<open>wa\<close>. The lemmas give the requests, the data beats, that runs end and what the timers show.
  \<^item> \<open>Lt_Engine\<close>: \<open>lt_engine.sv\<close> with both engines inside, and the logic of a channel in
    \<open>hbm_benchmark.sv\<close>. The lemmas say when a start reaches an engine, with which parameters, and when
    the end flags that the host polls rise.
  \<^item> \<open>Lat_Log\<close>: the way of a measured latency from an engine to the latency memory that the
    register file reads. \<open>Ddr_Channel\<close>: the flags and the log of the DDR design, which has a FIFO per channel; the
    lemmas reduce them to those of the HBM design.
  \<^item> \<open>Fpga_Host\<close>: the static state of \<open>Fpga\<close> and its system calls. \<open>Config_File\<close>: the lines of the configuration file.
    \<open>Bench_Main\<close>: both \<open>main\<close> functions, composed of all the above.
  \<^item> \<open>Cpu_Latency\<close> (\<open>latency_huge_table.cpp\<close>), \<open>Cpu_Throughput\<close> (\<open>throughput.cpp\<close>), \<open>Gpu_Copy\<close>
    (\<open>global_TH.cu\<close>), \<open>Gpu_Latency\<close> (\<open>global_latency.cu\<close>): the tables, loops, address
    arithmetic, sums and reports of the CPU and GPU programs.

  The properties in this theory go through the whole path, for each of the two designs: from the configuration over the host
  library, the bus, the register file and the channel to the requests of the engines; and from the answers of the
  memory over the timers and the latency memory to the report of the host.

  \<^bold>\<open>Loops.\<close> Loops over arrays and lists are structural recursion. The wait for completion, the
  copy loop of the GPU kernel and the search over block sizes may run forever and are
  \<^theory_text>\<open>partial_function (option)\<close>; that they return is a theorem in each case, with the exact
  condition for the wait. No fuel is used.

  \<^bold>\<open>Parameters.\<close> The Linux kernel, the C library, what memory it allocates holds, the CUDA runtime, the clocks and the
  option parser of Boost are arguments of the definitions, and what the memory and the vendor's FIFO do in a
  cycle are inputs; where a theorem relies on their behaviour
  this is a hypothesis, and its witness gives them concrete functions.

  \<^bold>\<open>Not modelled.\<close> Printing other than the reported numbers, sleeping, thread creation and
  pinning, mutexes (the calls they serialise are modelled as atomic), the rounding of
  floating-point numbers, which are real numbers here, the missing \<open>return\<close> of the thread functions of the CPU programs and
  the uninitialised sums of the GPU kernel. \<open>gpu_benchmark/repeat.h\<close> only
  has macros and no file includes it. Of the hardware description, the
  following is left out: the crossing between the clocks of channel and register file, the constant
  side-band outputs of the engines and the instances of vendor cores, among them \<open>xdma_app.v\<close> and the
  memory controllers; so are build files, constraints, scripts and result files. The driver installs no interrupt handler, so that
  there is none to model.

  \<^bold>\<open>Extent.\<close> The C and C++ sources are modelled in full up to the points above, and both designs
  up to their vendor cores.
\<close>

section \<open>From the configuration to the memory\<close>

lemma low_byte: "ucast (ucast (of_nat m :: u16) :: u8) = (of_nat (m mod 256) :: u32)"
proof -
  have "unat (of_nat (m mod 256) :: u8) = m mod 256" "unat (of_nat (m mod 256) :: u32) = m mod 256"
    using mod_less_divisor [of 256 m] by (simp_all only: unat_of_nat) (simp_all add: take_bit_nat_eq_self)
  then show ?thesis unfolding latency_byte word_unat_eq_iff by (simp add: unsigned_ucast_eq take_bit_nat_eq_self)
qed

text \<open>What the engines of a channel ask for after a start with the parameters \<open>p\<close>, latency test off.\<close>

lemma started_channel:
  assumes "channel_start k p we re s t" and "\<not> lp_latency_test_enable p" and "0 < run_length p"
  shows "re \<Longrightarrow> rd_trace (rd (engine t)) tr u \<Longrightarrow> length tr \<le> run_length p
      \<and> (state u \<in> {RD_TH_RESP, RD_END, RD_IDLE} \<longrightarrow> length tr = run_length p)
      \<and> (\<forall>a \<in> set tr. a - lp_initial_addr p \<le> ucast (lp_work_group_size p - 1))"
    and "we \<Longrightarrow> wr_trace (wr (engine t)) wtr v \<Longrightarrow> length wtr \<le> w_count p
      \<and> (w_state v \<in> {WR_TH_DATA, WR_END, WR_IDLE} \<longrightarrow> length wtr = w_count p)
      \<and> (\<forall>a \<in> set wtr. a - lp_initial_addr p \<le> ucast (lp_work_group_size p - 1))"
proof -
  assume "re" and tr: "rd_trace (rd (engine t)) tr u"
  then have b: "rd_begun p (rd (engine t))"
    using channel_start_launched(2) [OF assms(1)] assms(2) by (simp add: rd_begun_def)
  show "length tr \<le> run_length p \<and> (state u \<in> {RD_TH_RESP, RD_END, RD_IDLE} \<longrightarrow> length tr = run_length p)
      \<and> (\<forall>a \<in> set tr. a - lp_initial_addr p \<le> ucast (lp_work_group_size p - 1))"
    using rd_requests [OF tr b assms(3)] rd_requests_in_working_set [OF tr b assms(3)] by (auto simp: rd_resting_def)
next
  assume "we" and tr: "wr_trace (wr (engine t)) wtr v"
  then have l: "w_launched p (wr (engine t))" using channel_start_launched(1) [OF assms(1)] by simp
  have "lp_num_mem_ops p \<noteq> 0" using assms(3) by (auto simp: run_length_def)
  then have n: "0 < w_count p" by (simp add: w_count_def unat_gt_0)
  show "length wtr \<le> w_count p \<and> (w_state v \<in> {WR_TH_DATA, WR_END, WR_IDLE} \<longrightarrow> length wtr = w_count p)
      \<and> (\<forall>a \<in> set wtr. a - lp_initial_addr p \<le> ucast (lp_work_group_size p - 1))"
    using wr_requests_spec [OF tr l n] wr_requests_in_working_set [OF tr l n] by (auto simp: wr_resting_def)
qed

lemma started_requests:
  assumes "\<not> lp_latency_test_enable p" and "0 < run_length p"
  shows "\<forall>s t. channel_start k p we re s t \<longrightarrow>
    (re \<longrightarrow> (\<forall>tr u. rd_trace (rd (engine t)) tr u \<longrightarrow> length tr \<le> run_length p
      \<and> (state u \<in> {RD_TH_RESP, RD_END, RD_IDLE} \<longrightarrow> length tr = run_length p)
      \<and> (\<forall>a \<in> set tr. a - lp_initial_addr p \<le> ucast (lp_work_group_size p - 1))))
    \<and> (we \<longrightarrow> (\<forall>tr u. wr_trace (wr (engine t)) tr u \<longrightarrow> length tr \<le> w_count p
      \<and> (w_state u \<in> {WR_TH_DATA, WR_END, WR_IDLE} \<longrightarrow> length tr = w_count p)
      \<and> (\<forall>a \<in> set tr. a - lp_initial_addr p \<le> ucast (lp_work_group_size p - 1))))"
  using started_channel [OF _ assms] by blast

text \<open>The two counts of a channel's parameters, and that no latency test is under way there.\<close>

lemma channel_counts:
  assumes "le = (k = unat (latency_channel cf) \<and> bit (latency_test_enable cf) 0)"
    and "k = unat (latency_channel cf) \<longrightarrow> \<not> bit (latency_test_enable cf) 0" and "(ucast (numOps cf ! k) :: u32) \<noteq> 0"
  shows "\<not> lp_latency_test_enable (channel_params D r cf k le)"
    and "run_length (channel_params D r cf k le) = unat (ucast (numOps cf ! k) :: u32)"
    and "w_count (channel_params D r cf k le) = unat (numOps cf ! k)"
    and "lp_work_group_size (channel_params D r cf k le) = workGroupSize cf ! k"
    and "0 < run_length (channel_params D r cf k le)"
  using assms by (auto simp: channel_params_def run_params_def run_length_def w_count_def unat_gt_0)

text \<open>
  C5. From the configuration to the memory. The program starts the engines once. At a channel that
  was idle, was selected while the registers held its parameters and sees that start, the
  enabled engines ask the memory exactly as often as the channel's configured count says (its low
  32 bits for reads, unless the latency test is on), at addresses within the configured working
  set above the configured initial address, whatever the memory does.
\<close>

theorem configured_requests:
  assumes "latency_channel cf < 32" and "\<not> bit (dma_control_reg (device c) 11) 0" and "k < 32"
    and "k = unat (latency_channel cf) \<longrightarrow> \<not> bit (latency_test_enable cf) 0"
    and "(ucast (numOps cf ! k) :: u32) \<noteq> 0"
  shows "\<exists>d e. hbm_run (hbm_bus (m_base c)) cf c = c\<lparr>device := d\<rparr> \<and> starts d = starts (device c) @ [e]
    \<and> (\<forall>s t. channel_start k (se_params e k) (bit (se_write_enable e) k) (bit (se_read_enable e) k) s t \<longrightarrow>
      (bit (read_enable cf) k \<longrightarrow> (\<forall>tr u. rd_trace (rd (engine t)) tr u \<longrightarrow>
         length tr \<le> unat (ucast (numOps cf ! k) :: u32)
         \<and> (state u \<in> {RD_TH_RESP, RD_END, RD_IDLE} \<longrightarrow> length tr = unat (ucast (numOps cf ! k) :: u32))
         \<and> (\<forall>a \<in> set tr. a - push_bit 2 (ucast (initialAddr cf ! k)) \<le> ucast (workGroupSize cf ! k - 1))))
      \<and> (bit (write_enable cf) k \<longrightarrow> (\<forall>tr u. wr_trace (wr (engine t)) tr u \<longrightarrow>
         length tr \<le> unat (numOps cf ! k)
         \<and> (w_state u \<in> {WR_TH_DATA, WR_END, WR_IDLE} \<longrightarrow> length tr = unat (numOps cf ! k))
         \<and> (\<forall>a \<in> set tr. a - push_bit 2 (ucast (initialAddr cf ! k)) \<le> ucast (workGroupSize cf ! k - 1)))))"
proof -
  have l: "unat (latency_channel cf) < N_MEM_INTF hbm_design" using assms(1) by (simp add: word_less_nat_alt)
  obtain d e where de: "hbm_run (hbm_bus (m_base c)) cf c = c\<lparr>device := d\<rparr>" "starts d = starts (device c) @ [e]"
    "se_params e k = channel_params hbm_design (dma_control_reg (device c)) cf k (k = unat (latency_channel cf) \<and> bit (latency_test_enable cf) 0)"
    "se_write_enable e = write_enable cf" "se_read_enable e = read_enable cf"
    using hbm.design_run_xctl [OF l assms(2)] assms(3) by (auto simp: hbm_run_design)
  note p = channel_counts [OF refl assms(4,5), of hbm_design "dma_control_reg (device c)", folded de(3)]
  have a: "lp_initial_addr (se_params e k) = push_bit 2 (ucast (initialAddr cf ! k))"
    by (simp add: de(3) channel_params_def run_params_hbm)
  show ?thesis
    by (intro exI [of _ d] exI [of _ e] conjI de(1,2))
      (unfold de(4,5), rule started_requests [OF p(1,5), unfolded p(2-4) a])
qed

text \<open>
  A configuration with both directions of channel 4 enabled and two operations: the channel of the
  example starts with its parameters, and asks for two reads and two writes.
\<close>

definition two_ops :: bench_cfg where
  "two_ops = hbm_defaults\<lparr>workGroupSize := replicate 32 256, numOps := replicate 32 2, memBurstSize := replicate 32 32,
     write_enable := 0x10, read_enable := 0x10\<rparr>"

theorem configured_requests_witness:
  "\<exists>d e s t tr u wtr v. hbm_run (hbm_bus 0x7f0000) two_ops idle_ctrl = idle_ctrl\<lparr>device := d\<rparr> \<and> starts d = [e]
    \<and> channel_start 4 (se_params e 4) (bit (se_write_enable e) 4) (bit (se_read_enable e) 4) s (t :: (33, 4, 256) hbm_chan)
    \<and> rd_trace (rd (engine t)) tr u \<and> state u = RD_TH_RESP \<and> length tr = 2 \<and> (\<forall>a \<in> set tr. a \<le> 255)
    \<and> wr_trace (wr (engine t)) wtr v \<and> w_state v = WR_TH_DATA \<and> length wtr = 2 \<and> (\<forall>a \<in> set wtr. a \<le> 255)"
proof -
  have cf: "latency_channel two_ops = 0" "numOps two_ops ! 4 = 2" "workGroupSize two_ops ! 4 = 256"
    "initialAddr two_ops ! 4 = 0" "bit (read_enable two_ops) 4" "bit (write_enable two_ops) 4"
    by (simp_all add: two_ops_def hbm_defaults_def)
  have c: "\<not> bit (dma_control_reg (device idle_ctrl) 11) 0" "m_base idle_ctrl = 0x7f0000" "starts (device idle_ctrl) = []"
    by (simp_all add: idle_ctrl_def idle_xctl_def)
  have "channel_params hbm_design r two_ops 4 False = ex_params False" for r
    by (simp add: channel_params_def run_params_hbm two_ops_def hbm_defaults_def ex_params_def)
  then obtain d e where de: "hbm_run (hbm_bus 0x7f0000) two_ops idle_ctrl = idle_ctrl\<lparr>device := d\<rparr>" "starts d = [e]"
    "se_params e 4 = ex_params False" "bit (se_write_enable e) 4" "bit (se_read_enable e) 4"
    using hbm.design_run_xctl [of two_ops idle_ctrl] hbm_run_design [of idle_ctrl two_ops] c cf by auto
  obtain d' e' where th: "hbm_run (hbm_bus 0x7f0000) two_ops idle_ctrl = idle_ctrl\<lparr>device := d'\<rparr>" "starts d' = [e']"
    "\<forall>s (t :: (33, 4, 256) hbm_chan).
      channel_start 4 (se_params e' 4) (bit (se_write_enable e') 4) (bit (se_read_enable e') 4) s t \<longrightarrow>
      (\<forall>tr u. rd_trace (rd (engine t)) tr u \<longrightarrow>
         (state u = RD_TH_RESP \<longrightarrow> length tr = 2) \<and> (\<forall>a \<in> set tr. a \<le> 255))
      \<and> (\<forall>tr u. wr_trace (wr (engine t)) tr u \<longrightarrow>
         (w_state u = WR_TH_DATA \<longrightarrow> length tr = 2) \<and> (\<forall>a \<in> set tr. a \<le> 255))"
    using configured_requests [of two_ops idle_ctrl 4] c cf by simp blast
  have "d' = d" using arg_cong [OF trans [OF de(1) [symmetric] th(1)], of device] by simp
  then have e: "e' = e" using de(2) th(2) by simp
  obtain u v where "rd_trace (rd (engine ex_begun)) [0, 0] u" "state u = RD_TH_RESP"
    "wr_trace (wr (engine ex_begun)) [0, 0] v" "w_state v = WR_TH_DATA"
    using ex_begun_reads ex_begun_writes by blast
  moreover have "channel_start 4 (se_params e 4) (bit (se_write_enable e) 4) (bit (se_read_enable e) 4) ex_idle ex_begun"
    using ex_channel_start by (simp add: de)
  ultimately show ?thesis using de(1,2) th(3) [unfolded e] by blast
qed

text \<open>A latency memory that was written with the latencies of \<open>xs\<close>, as the host gets it.\<close>

lemma logged_latencies_read:
  assumes "lat_ram d = ram_after (placed 0 (map (\<lambda>x. of_nat (op_latency x)) xs)) m" and "length xs \<le> 4096"
    and "unat n = length xs"
  shows "map (\<lambda>k. ucast (lat_ram d (of_nat k))) [0 ..< min (unat n) 10000] = map (\<lambda>x. of_nat (op_latency x mod 256) :: u32) xs"
proof -
  have "lat_ram d (of_nat j) = ucast (of_nat (op_latency (xs ! j)) :: u16)" if "j < length xs" for j
    using ram_contents [of 0 "map (\<lambda>x. of_nat (op_latency x)) xs" j m] that assms(1,2) by simp
  then have "map (\<lambda>j. ucast (lat_ram d (of_nat j))) [0 ..< length xs] = map (\<lambda>x. of_nat (op_latency x mod 256) :: u32) xs"
    by (intro nth_equalityI) (simp_all add: low_byte)
  moreover have "min (unat n) 10000 = length xs" using assms(2,3) by simp
  ultimately show ?thesis by simp
qed

text \<open>
  C6. From the memory to the report. A latency run on the selected channel \<open>k\<close>, its log in the
  latency memory, with a FIFO that hands on all words in order and a memory that keeps what is
  written: \<open>readHBMData\<close> then reports for each operation the number of cycles from the one in which
  the memory took the address to the one with the last beat, of which eight bits are kept.
\<close>

theorem reported_latencies:
  assumes run: "launched p s" "lp_latency_test_enable p" "rst_n i" "list_all op_ok xs" "xs \<noteq> []"
      "length xs = run_length p" "es = engine_states (i # concat (map op_inputs xs)) s"
    and pipe: "\<forall>x \<in> set (ps @ [a, b, c]). selects k x" "k < 32" "in_pipe k q = []" "shows_engine k es ps"
      "\<forall>x \<in> {a, b, c}. \<not> pi_lat_timer_valid x k"
    and fifo: "collect log_cycle fifo_pop ls l = collect pipe_cycle fifo_push (ps @ [a, b, c]) q"
    and log: "log_at 0 l" "\<not> ram_wr_en l" "\<forall>x \<in> set ls. li_aresetn x \<and> \<not> li_clear x" "\<not> ram_wr_en (fold log_cycle ls l)"
    and ram: "lat_ram d = ram_after (collect log_cycle ram_write ls l) m"
    and host: "h = h0\<lparr>m_base := base, device := d\<rparr>" "addrb_ori d = 0" "\<not> bit (dma_control_reg d 0) 0"
      "\<not> bit (dma_control_reg d 11) 0" "length mbs = 32" "\<forall>t \<ge> T. env_end d t = (we, re)"
    and size: "le \<noteq> 0" "unat n = length xs" "length xs \<le> 4096"
  shows "\<exists>sp r. readHBMData (hbm_bus base) we re le ch n mbs h = Some (sp, r)
    \<and> rp_latencies r = printed_latencies (map (\<lambda>x. of_nat (op_latency x mod 256)) xs)"
proof -
  have "lat_ram d = ram_after (placed 0 (map (\<lambda>x. of_nat (op_latency x)) xs)) m"
    unfolding ram run_logs [OF run pipe fifo log] ..
  from logged_latencies_read [OF this size(3,2)] read_data_xctl [where D = hbm_design, OF host(1-5), of T we re le ch n]
  show ?thesis using host(6) size(1) by (auto simp: readHBMData_def)
qed

theorem reported_latencies_witness:
  "\<exists>sp r. readHBMData (hbm_bus 0x7f0000) 0 1 1 4 2 (replicate 32 64)
      (idle_ctrl\<lparr>device := idle_xctl\<lparr>lat_ram := ram_after (collect log_cycle ram_write ex_log_ins ex_log) (\<lambda>_. 0)\<rparr>\<rparr>) = Some (sp, r)
    \<and> take 3 (rp_latencies r) = [Some 6, Some 6, None]"
proof -
  let ?m = "\<lambda>_ :: 12 word. 0 :: u8"
  let ?d = "idle_xctl\<lparr>lat_ram := ram_after (collect log_cycle ram_write ex_log_ins ex_log) ?m\<rparr>"
  have "idle_ctrl\<lparr>device := ?d\<rparr> = idle_ctrl\<lparr>m_base := 0x7f0000, device := ?d\<rparr>" "addrb_ori ?d = 0"
    "\<not> bit (dma_control_reg ?d 0) 0" "\<not> bit (dma_control_reg ?d 11) 0" "length (replicate 32 (64 :: u32)) = 32"
    "\<forall>t \<ge> 20. env_end ?d t = (0, 1)" by (simp_all add: idle_ctrl_def idle_xctl_def)
  note h = this
  have r: "lat_ram ?d = ram_after (collect log_cycle ram_write ex_log_ins ex_log) ?m" by simp
  obtain sp r where "readHBMData (hbm_bus 0x7f0000) 0 1 1 4 2 (replicate 32 64) (idle_ctrl\<lparr>device := ?d\<rparr>) = Some (sp, r)"
    "rp_latencies r = printed_latencies (map (\<lambda>x. of_nat (op_latency x mod 256)) [ex_op, ex_op])"
    using reported_latencies [OF ex_latency_run r h, of 1 2 4] by auto
  moreover have "take 3 (printed_latencies [6, 6]) = [Some 6, Some 6, None]"
    by (simp add: printed_latencies_def take_map numeral_3_eq_3)
  ultimately show ?thesis by (auto simp: ex_op_def op_latency_def)
qed

section \<open>The same for the DDR design\<close>

text \<open>
  C9. From the configuration to the DDR memory. \<open>ddr_test\<close> starts the two channels once, and each of them asks its memory as
  often as configured, in the configured working set. The initial address is the configured one as it is, while the HBM
  design scales it by four.
\<close>

theorem ddr_configured_requests:
  assumes "latency_channel cf < 2" and "\<not> bit (dma_control_reg (device c) 11) 0" and "dma_control_reg (device c) 17 = 0" and "k < 2"
    and "k = unat (latency_channel cf) \<longrightarrow> \<not> bit (latency_test_enable cf) 0"
    and "(ucast (numOps cf ! k) :: u32) \<noteq> 0"
  shows "\<exists>d e. ddr_run (ddr_bus (m_base c)) cf c = c\<lparr>device := d\<rparr> \<and> starts d = starts (device c) @ [e]
    \<and> (\<forall>s t. channel_start k (se_params e k) (bit (se_write_enable e) k) (bit (se_read_enable e) k) s t \<longrightarrow>
      (bit (read_enable cf) k \<longrightarrow> (\<forall>tr u. rd_trace (rd (engine t)) tr u \<longrightarrow>
         length tr \<le> unat (ucast (numOps cf ! k) :: u32)
         \<and> (state u \<in> {RD_TH_RESP, RD_END, RD_IDLE} \<longrightarrow> length tr = unat (ucast (numOps cf ! k) :: u32))
         \<and> (\<forall>a \<in> set tr. a - ucast (initialAddr cf ! k) \<le> ucast (workGroupSize cf ! k - 1))))
      \<and> (bit (write_enable cf) k \<longrightarrow> (\<forall>tr u. wr_trace (wr (engine t)) tr u \<longrightarrow>
         length tr \<le> unat (numOps cf ! k)
         \<and> (w_state u \<in> {WR_TH_DATA, WR_END, WR_IDLE} \<longrightarrow> length tr = unat (numOps cf ! k))
         \<and> (\<forall>a \<in> set tr. a - ucast (initialAddr cf ! k) \<le> ucast (workGroupSize cf ! k - 1)))))"
proof -
  have l: "unat (latency_channel cf) < N_MEM_INTF ddr_design" using assms(1) by (simp add: word_less_nat_alt)
  obtain d e where de: "ddr_run (ddr_bus (m_base c)) cf c = c\<lparr>device := d\<rparr>" "starts d = starts (device c) @ [e]"
    "se_params e k = channel_params ddr_design (dma_control_reg (device c)) cf k (k = unat (latency_channel cf) \<and> bit (latency_test_enable cf) 0)"
    "se_write_enable e = take_bit 2 (write_enable cf)" "se_read_enable e = take_bit 2 (read_enable cf)"
    using ddr.design_run_xctl [OF l assms(2)] assms(4) by (auto simp: ddr_run_design)
  have b: "bit (se_write_enable e) k = bit (write_enable cf) k" "bit (se_read_enable e) k = bit (read_enable cf) k"
    using assms(4) by (simp_all add: de(4,5) bit_take_bit_iff)
  note p = channel_counts [OF refl assms(5,6), of ddr_design "dma_control_reg (device c)", folded de(3)]
  have a: "lp_initial_addr (se_params e k) = ucast (initialAddr cf ! k)"
    by (simp add: de(3) channel_params_def run_params_ddr [where r = "dma_control_reg (device c)", OF assms(3)])
  show ?thesis
    by (intro exI [of _ d] exI [of _ e] conjI de(1,2))
      (unfold b, rule started_requests [OF p(1,5), unfolded p(2-4) a])
qed

theorem ddr_configured_requests_witness:
  "\<exists>d e. ddr_run (ddr_bus 0x7f0000) ddr_defaults \<lparr>m_base = 0x7f0000, by_base = 0, device = ddr_xctl\<rparr>
      = \<lparr>m_base = 0x7f0000, by_base = 0, device = d\<rparr> \<and> starts d = [e]
    \<and> (\<forall>s t tr u. channel_start 0 (se_params e 0) (bit (se_write_enable e) 0) (bit (se_read_enable e) 0) s t
      \<and> rd_trace (rd (engine t)) tr u \<longrightarrow> length tr \<le> 100000)"
proof -
  have "latency_channel ddr_defaults < 2" "\<not> bit (dma_control_reg ddr_xctl 11) 0" "dma_control_reg ddr_xctl 17 = 0"
    "\<not> bit (latency_test_enable ddr_defaults) 0" "numOps ddr_defaults ! 0 = 100000" "bit (read_enable ddr_defaults) 0" "starts ddr_xctl = []"
    by (simp_all add: ddr_defaults_def ddr_xctl_def)
  with ddr_configured_requests [of ddr_defaults "\<lparr>m_base = 0x7f0000, by_base = 0, device = ddr_xctl\<rparr>" 0] show ?thesis
    by simp blast
qed

text \<open>
  C10. From the DDR memory to the report. The same as for the HBM design holds of a latency run on the selected channel of the
  DDR design: the words the other channel's FIFO hands out meanwhile do not reach the latency memory.
\<close>

theorem ddr_reported_latencies:
  assumes run: "launched p s" "lp_latency_test_enable p" "rst_n i" "list_all op_ok xs" "xs \<noteq> []"
      "length xs = run_length p" "es = engine_states (i # concat (map op_inputs xs)) s"
    and pipe: "\<not> dp_lat_timer_valid_i q" "\<not> fst z"
    and fifo: "collect ddr_log_cycle (ddr_fifo_pop k) ls l = collect ddr_pipe_cycle ddr_fifo_push (timer_outputs es @ [z]) q"
    and log: "\<forall>x \<in> set ls. di_aresetn x \<and> \<not> di_clear x \<and> di_channel x = k" "dl_addra_ori l = 0" "\<not> dl_ram_wr_en l"
      "\<not> dl_fifo_rd_en_r l k" "\<not> dl_ram_wr_en (fold ddr_log_cycle ls l)"
    and ram: "lat_ram d = ram_after (collect ddr_log_cycle ddr_ram_write ls l) m"
    and host: "h = h0\<lparr>m_base := base, device := d\<rparr>" "addrb_ori d = 0" "\<not> bit (dma_control_reg d 0) 0"
      "\<not> bit (dma_control_reg d 11) 0" "length mbs = 32" "\<forall>t \<ge> T. end_flags ddr_design d t = (we, re)"
    and size: "le \<noteq> 0" "unat n = length xs" "length xs \<le> 4096"
  shows "\<exists>sp r. readDDRData (ddr_bus base) we re le ch n mbs h = Some (sp, r)
    \<and> rp_latencies r = printed_latencies (map (\<lambda>x. of_nat (op_latency x mod 256)) xs)"
proof -
  have "lat_ram d = ram_after (placed 0 (map (\<lambda>x. of_nat (op_latency x)) xs)) m"
    unfolding ram ddr_run_logs [OF run pipe fifo log] ..
  from logged_latencies_read [OF this size(3,2)] read_data_xctl [OF host, of le ch n]
  show ?thesis using size(1) by (auto simp: readDDRData_def)
qed

theorem ddr_reported_latencies_witness:
  "\<exists>sp r. readDDRData (ddr_bus 0x7f0000) 0 1 1 1 2 (replicate 32 64)
      \<lparr>m_base = 0x7f0000, by_base = 0,
       device = ddr_xctl\<lparr>lat_ram := ram_after (collect ddr_log_cycle ddr_ram_write ddr_ex_ins ddr_ex_log) (\<lambda>_. 0)\<rparr>\<rparr> = Some (sp, r)
    \<and> take 3 (rp_latencies r) = [Some 6, Some 6, None]"
proof -
  let ?m = "\<lambda>_ :: 12 word. 0 :: u8"
  let ?d = "ddr_xctl\<lparr>lat_ram := ram_after (collect ddr_log_cycle ddr_ram_write ddr_ex_ins ddr_ex_log) ?m\<rparr>"
  let ?c = "\<lparr>m_base = 0x7f0000, by_base = 0, device = ?d\<rparr>"
  have "?c = ?c\<lparr>m_base := 0x7f0000, device := ?d\<rparr>" "addrb_ori ?d = 0"
    "\<not> bit (dma_control_reg ?d 0) 0" "\<not> bit (dma_control_reg ?d 11) 0" "length (replicate 32 (64 :: u32)) = 32"
    "\<forall>t \<ge> 100. end_flags ddr_design ?d t = (0, 1)" by (simp_all add: ddr_xctl_def end_flags_def)
  note h = this
  have r: "lat_ram ?d = ram_after (collect ddr_log_cycle ddr_ram_write ddr_ex_ins ddr_ex_log) ?m" by simp
  obtain sp r where "readDDRData (ddr_bus 0x7f0000) 0 1 1 1 2 (replicate 32 64) ?c = Some (sp, r)"
    "rp_latencies r = printed_latencies (map (\<lambda>x. of_nat (op_latency x mod 256)) [ddr_ex_op, ddr_ex_op])"
    using ddr_reported_latencies [OF ddr_ex_latency_run r h, of 1 2 1] by auto
  moreover have "take 3 (printed_latencies [6, 6]) = [Some 6, Some 6, None]"
    by (simp add: printed_latencies_def take_map numeral_3_eq_3)
  ultimately show ?thesis by (auto simp: ddr_ex_op_def op_latency_def)
qed

end
